(* ===== verification/Prelude.thy ===== *)
theory Prelude
  imports Main "HOL-Library.Word"
begin

text \<open>
  Shared vocabulary of the development: the machine types of the Go sources, the result of a Go
  call, slices with Go's bounds checks, and the generic lemmas on lists and words that the
  component theories use.

  Go values are represented as follows. \<open>byte\<close> and \<open>uint8\<close> are 8-bit words, \<open>uint16\<close> and
  \<open>uint32\<close> words of their width; a Go \<open>string\<close> is a byte sequence and so is a \<open>[]byte\<close>, hence
  both are byte lists. A Go \<open>int\<close> that only counts (lengths, indices) is an \<open>int\<close>; where its
  64-bit width matters it is a 64-bit word.
\<close>

unbundle bit_operations_syntax

named_theorems codec_simps \<open>unfolding rules of the encoders and decoders\<close>
named_theorems client_simps \<open>unfolding rules of the client operations\<close>

type_synonym byte = "8 word"
type_synonym uint16 = "16 word"
type_synonym uint32 = "32 word"
type_synonym gostring = "byte list"

text \<open>
  The outcome of a Go call: it returns normally, returns a non-nil error, panics, or never returns
  (an endless loop or a receive that blocks forever).
\<close>

datatype ('e, 'a) outcome = Ret 'a | Fail 'e | Panic string | Hang

primrec bindO :: "('e, 'a) outcome \<Rightarrow> ('a \<Rightarrow> ('e, 'b) outcome) \<Rightarrow> ('e, 'b) outcome" where
  "bindO (Ret a) f = f a"
| "bindO (Fail e) f = Fail e"
| "bindO (Panic s) f = Panic s"
| "bindO Hang f = Hang"

lemma bindO_eq_Ret_iff: "bindO r f = Ret b \<longleftrightarrow> (\<exists>a. r = Ret a \<and> f a = Ret b)"
  by (cases r) auto

lemma bindO_assoc: "bindO (bindO r f) g = bindO r (\<lambda>a. bindO (f a) g)"
  by (cases r) auto

primrec is_Ret :: "('e, 'a) outcome \<Rightarrow> bool" where
  "is_Ret (Ret a) = True"
| "is_Ret (Fail e) = False"
| "is_Ret (Panic s) = False"
| "is_Ret Hang = False"

primrec is_Panic :: "('e, 'a) outcome \<Rightarrow> bool" where
  "is_Panic (Ret a) = False"
| "is_Panic (Fail e) = False"
| "is_Panic (Panic s) = True"
| "is_Panic Hang = False"

text \<open>An ASCII literal of the source as a Go string.\<close>

definition str :: "string \<Rightarrow> gostring" where
  "str s = map of_char s"

lemma length_str [simp]: "length (str s) = length s"
  by (simp add: str_def)

text \<open>
  Go's \<open>b[lo:hi]\<close> on a slice whose capacity is its length: it panics unless
  \<open>0 \<le> lo \<le> hi \<le> len(b)\<close>.
\<close>

definition slice :: "'a list \<Rightarrow> int \<Rightarrow> int \<Rightarrow> ('e, 'a list) outcome" where
  "slice b lo hi =
     (if 0 \<le> lo \<and> lo \<le> hi \<and> hi \<le> int (length b)
      then Ret (take (nat hi - nat lo) (drop (nat lo) b))
      else Panic ''slice bounds out of range'')"

lemma slice_full [simp]: "slice b 0 (int (length b)) = Ret b"
  by (simp add: slice_def)

text \<open>Go's \<open>b[i]\<close>: it panics when the index is out of range.\<close>

definition index :: "'a list \<Rightarrow> nat \<Rightarrow> ('e, 'a) outcome" where
  "index b i = (if i < length b then Ret (b ! i) else Panic ''index out of range'')"

lemma index_Cons_0 [simp]: "index (x # xs) 0 = Ret x"
  by (simp add: index_def)

lemma index_Cons_Suc [simp]: "index (x # xs) (Suc i) = index xs i"
  by (simp add: index_def)

lemma index_Cons_1 [simp]: "index (x # y # xs) 1 = Ret y"
  by (simp add: index_def)

lemma index_Nil [simp]: "index [] i = Panic ''index out of range''"
  by (simp add: index_def)

subsection \<open>Bytes and 16-bit words\<close>

definition hi_byte :: "uint16 \<Rightarrow> byte" where
  "hi_byte v = ucast (drop_bit 8 v)"

definition lo_byte :: "uint16 \<Rightarrow> byte" where
  "lo_byte v = ucast v"

definition join_bytes :: "byte \<Rightarrow> byte \<Rightarrow> uint16" where
  "join_bytes h l = push_bit 8 (ucast h) OR ucast l"

lemma join_hi_lo [simp]: "join_bytes (hi_byte v) (lo_byte v) = v"
  by (rule bit_word_eqI) (auto simp: join_bytes_def hi_byte_def lo_byte_def bit_simps)

lemma hi_join [simp]: "hi_byte (join_bytes h l) = h"
  by (rule bit_word_eqI)
    (auto simp: join_bytes_def hi_byte_def bit_simps dest: bit_imp_le_length)

lemma lo_join [simp]: "lo_byte (join_bytes h l) = l"
  by (rule bit_word_eqI)
    (auto simp: join_bytes_def lo_byte_def bit_simps dest: bit_imp_le_length)

lemma unat_byte_less [simp]: "unat (b :: byte) < 256"
  using unsigned_less [of b, where 'a = nat] by simp

lemma unat_of_nat_byte: "n < 256 \<Longrightarrow> unat (of_nat n :: byte) = n"
  by (simp add: unat_of_nat)

lemma unat_of_nat_uint16: "n < 65536 \<Longrightarrow> unat (of_nat n :: uint16) = n"
  by (simp add: unat_of_nat)

lemma uint_le_int_iff: "uint w \<le> int k \<longleftrightarrow> unat w \<le> k"
proof -
  have "uint w = int (unat w)" by simp
  then show ?thesis by (simp only: of_nat_le_iff)
qed

subsection \<open>Number formatting\<close>

text \<open>The \<open>%d\<close> and \<open>%x\<close> verbs of package fmt on an \<open>int\<close>.\<close>

fun digits_in :: "nat \<Rightarrow> nat \<Rightarrow> string" where
  "digits_in base n =
     (if n < base \<or> base < 2 then [''0123456789abcdef'' ! (n mod 16)]
      else digits_in base (n div base) @ [''0123456789abcdef'' ! (n mod base mod 16)])"

declare digits_in.simps [simp del]

definition fmt_int :: "nat \<Rightarrow> int \<Rightarrow> string" where
  "fmt_int base n = (if n < 0 then ''-'' else []) @ digits_in base (nat \<bar>n\<bar>)"

end
