(* ===== verification/Types.thy ===== *)
theory Types
  imports Prelude
begin

text \<open>
  The data types of the public interface: \<open>mqtt.go\<close> (QoS, Subscription, ConnState) and
  \<open>message.go\<close> (Message and its clone), and the closures that the client stores for
  retransmission.

  A \<open>QoS\<close> is a \<open>uint8\<close> and may hold any value, so it stays a byte with the named constants of
  the source. A retry closure of the source captures a request; it is represented by that request.
\<close>

type_synonym QoS = byte

definition QoS0 :: QoS where "QoS0 = 0x00"
definition QoS1 :: QoS where "QoS1 = 0x01"
definition QoS2 :: QoS where "QoS2 = 0x02"
definition SubscribeFailure :: QoS where "SubscribeFailure = 0x80"

lemmas QoS_defs = QoS0_def QoS1_def QoS2_def SubscribeFailure_def

lemma QoS_distinct:
  "QoS0 \<noteq> QoS1" "QoS1 \<noteq> QoS0" "QoS0 \<noteq> QoS2" "QoS2 \<noteq> QoS0" "QoS1 \<noteq> QoS2" "QoS2 \<noteq> QoS1"
  by (simp_all add: QoS_defs)

record Subscription =
  sTopic :: gostring
  sQoS :: QoS

record Message =
  mTopic :: gostring
  mID :: uint16
  mQoS :: QoS
  mRetain :: bool
  mDup :: bool
  mPayload :: "byte list"

text \<open>\<open>Message.clone\<close>: a fresh message with every field copied.\<close>

definition clone :: "Message \<Rightarrow> Message" where
  "clone m = \<lparr>mTopic = id (mTopic m), mID = mID m, mQoS = mQoS m, mRetain = mRetain m,
     mDup = mDup m, mPayload = [] @ mPayload m\<rparr>"

lemma clone_id [simp]: "clone m = m"
  by (simp add: clone_def)

text \<open>
  \<open>ConnState\<close> is an \<open>int\<close> with four named values; \<open>StateOther\<close> stands for every other value a
  caller may convert to the type.
\<close>

datatype ConnState = StateNew | StateActive | StateClosed | StateDisconnected | StateOther int

fun ConnState_String :: "ConnState \<Rightarrow> string" where
  "ConnState_String StateNew = ''New''"
| "ConnState_String StateActive = ''Active''"
| "ConnState_String StateClosed = ''Closed''"
| "ConnState_String StateDisconnected = ''Disconnected''"
| "ConnState_String (StateOther n) = ''Unknown''"

text \<open>
  The closures that \<open>publishImpl\<close>, \<open>subscribeImpl\<close> and \<open>unsubscribeImpl\<close> attach to an error, of Go
  type \<open>retryFn\<close>: \<open>retryPublish\<close>, \<open>retryPublish2\<close>, \<open>retrySubscribe\<close> and \<open>retryUnsubscribe\<close>.
\<close>

datatype retryFn =
    RetryPublish Message
  | RetryPublish2 Message
  | RetrySubscribe "Subscription list"
  | RetryUnsubscribe "gostring list"

end
