(* ===== verification/Errors.thy ===== *)
theory Errors
  imports Types
begin

text \<open>
  \<open>error.go\<close>, \<open>atomic.go\<close> and the error values of the package.

  A nil error is \<open>None\<close>. The package's sentinel errors, and those of \<open>io\<close> and \<open>context\<close> that the
  sources name, are the values of \<open>sentinel\<close>. An error made outside the package is \<open>External\<close>
  (no way to look inside), \<open>ExternalWrap\<close> (it has an \<open>Unwrap\<close> method) or \<open>ExternalErr\<close> (a pointer
  to a struct with an exported field \<open>Err\<close> and no \<open>Unwrap\<close>; \<open>None\<close> when that field is no error).
  The file and line that \<open>runtime.Caller\<close> adds to an \<open>Error\<close> and its address are not part of the
  value; so the comparison of two error interface values (pointer identity for pointers) is an
  argument \<open>same\<close> of the definitions that use it.
\<close>

datatype sentinel =
    ErrInvalidRune | ErrInvalidPacket | ErrInvalidPacketLength | ErrPayloadLenExceeded
  | ErrInvalidQoS | ErrInvalidSubAck | ErrNotConnected | ErrClosedTransport | ErrConnectionFailed
  | ErrInvalidTopicFilter | ErrKeepAliveDisabled | ErrPingTimeout | ErrClosedClient
  | ErrUnsupportedProtocol | paho_ErrNotConnected
  | io_EOF | io_ErrUnexpectedEOF | io_ErrClosedPipe
  | context_Canceled | context_DeadlineExceeded

datatype goerror =
    Sentinel sentinel
  | External nat
  | ExternalWrap nat "goerror option"
  | ExternalErr nat "goerror option"
  | Error "goerror option" string
  | ErrorWithRetry "goerror option" string retryFn
  | ConnectionError "goerror option" byte
  | RequestTimeoutError "goerror option"

type_synonym 'a result = "(goerror, 'a) outcome"

subsection \<open>Wrapping\<close>

definition wrapE :: "goerror \<Rightarrow> string \<Rightarrow> goerror" where
  "wrapE err failure = (if err = Sentinel io_EOF then Sentinel io_EOF else Error (Some err) failure)"

primrec wrapErrorImpl :: "goerror option \<Rightarrow> string \<Rightarrow> goerror option" where
  "wrapErrorImpl None failure = None"
| "wrapErrorImpl (Some err) failure = Some (wrapE err failure)"

definition wrapError :: "goerror option \<Rightarrow> string \<Rightarrow> goerror option" where
  "wrapError err failure = wrapErrorImpl err failure"

definition wrapErrorWithRetry :: "goerror option \<Rightarrow> retryFn \<Rightarrow> string \<Rightarrow> goerror option" where
  "wrapErrorWithRetry err retry failure =
     (let err2 = wrapErrorImpl err failure
      in case err2 of
           Some (Error e f) \<Rightarrow> Some (ErrorWithRetry e f retry)
         | _ \<Rightarrow> err2)"

text \<open>A call that returns \<open>wrapError(err, ...)\<close> for a non-nil \<open>err\<close>.\<close>

definition failE :: "sentinel \<Rightarrow> string \<Rightarrow> 'a result" where
  "failE s failure = Fail (wrapE (Sentinel s) failure)"

text \<open>The type assertion \<open>err.(ErrorWithRetry)\<close>, giving the retry closure.\<close>

fun as_ErrorWithRetry :: "goerror option \<Rightarrow> retryFn option" where
  "as_ErrorWithRetry (Some (ErrorWithRetry e f r)) = Some r"
| "as_ErrorWithRetry _ = None"

subsection \<open>Is\<close>

text \<open>The error below \<open>err\<close>: by \<open>Unwrap\<close>, else by an exported field \<open>Err\<close>.\<close>

fun unwrap :: "goerror \<Rightarrow> goerror option" where
  "unwrap (ExternalWrap n e) = e"
| "unwrap (ExternalErr n e) = e"
| "unwrap (Error e f) = e"
| "unwrap (ErrorWithRetry e f r) = e"
| "unwrap (ConnectionError e c) = e"
| "unwrap (Sentinel s) = None"
| "unwrap (External n) = None"
| "unwrap (RequestTimeoutError e) = None"

lemma size_unwrap: "unwrap err = Some e \<Longrightarrow> size e < size err"
  by (cases err rule: unwrap.cases) auto

text \<open>The loop of \<open>Error.Is\<close>, from the error \<open>err\<close> on.\<close>

function isLoop :: "(goerror \<Rightarrow> goerror \<Rightarrow> bool) \<Rightarrow> goerror \<Rightarrow> goerror \<Rightarrow> bool" where
  "isLoop same err target =
     (if same err target then True
      else case unwrap err of None \<Rightarrow> False | Some e \<Rightarrow> isLoop same e target)"
  by pat_completeness auto
termination
  by (relation "measure (\<lambda>(same, err, target). size err)") (auto dest: size_unwrap)

declare isLoop.simps [simp del]

text \<open>\<open>(&Error{Err: err, Failure: f}).Is(target)\<close>.\<close>

definition Is :: "(goerror \<Rightarrow> goerror \<Rightarrow> bool) \<Rightarrow> goerror option \<Rightarrow> string \<Rightarrow> goerror option \<Rightarrow> bool" where
  "Is same err f target =
     (case target of
        None \<Rightarrow> err = None
      | Some t \<Rightarrow>
          if same (Error err f) t then True
          else (case err of None \<Rightarrow> False | Some e \<Rightarrow> isLoop same e t))"

text \<open>The errors met when unwrapping, the outermost first.\<close>

function chain :: "goerror \<Rightarrow> goerror list" where
  "chain err = err # (case unwrap err of None \<Rightarrow> [] | Some e \<Rightarrow> chain e)"
  by pat_completeness auto
termination
  by (relation "measure size") (auto dest: size_unwrap)

declare chain.simps [simp del]

lemma chain_simps [simp]:
  "chain (Sentinel s) = [Sentinel s]"
  "chain (Error e f) = Error e f # (case e of None \<Rightarrow> [] | Some x \<Rightarrow> chain x)"
  "chain (ErrorWithRetry e f r) = ErrorWithRetry e f r # (case e of None \<Rightarrow> [] | Some x \<Rightarrow> chain x)"
  "chain (ConnectionError e k) = ConnectionError e k # (case e of None \<Rightarrow> [] | Some x \<Rightarrow> chain x)"
  by (subst chain.simps, simp)+

lemma isLoop_chain: "isLoop same err target \<longleftrightarrow> (\<exists>e \<in> set (chain err). same e target)"
proof (induction err rule: chain.induct)
  case (1 err)
  then show ?case
    by (cases "unwrap err") (simp_all add: isLoop.simps [of same err] chain.simps [of err])
qed

lemma Is_chain:
  "Is same err f (Some t) \<longleftrightarrow> (\<exists>e \<in> set (chain (Error err f)). same e t)"
  by (auto simp: Is_def chain.simps [of "Error err f"] isLoop_chain split: option.splits)

subsection \<open>firstError (atomic.go)\<close>

type_synonym firstError = "goerror option"

definition firstError_Store :: "firstError \<Rightarrow> goerror option \<Rightarrow> firstError" where
  "firstError_Store e err = (if e = None then err else e)"

definition firstError_Load :: "firstError \<Rightarrow> goerror option" where
  "firstError_Load e = e"

lemma firstError_Store_None [simp]: "firstError_Store None err = err"
  by (simp add: firstError_Store_def)

lemma firstError_Store_Some [simp]: "firstError_Store (Some x) err = Some x"
  by (simp add: firstError_Store_def)

lemma fold_firstError_Store: "fold (\<lambda>err e. firstError_Store e err) errs (Some x) = Some x"
  by (induction errs) simp_all

subsection \<open>Properties\<close>

text \<open>\<open>Error.Is\<close> finds a sentinel exactly when it occurs in the unwrapping chain, whatever
  number of layers (wrapping, retry, connection errors, third-party wrappers) lie above it. The
  comparison of interface values is any relation that compares sentinels by identity and never
  equates a sentinel with another kind of error.\<close>

theorem Is_sentinel_iff:
  assumes "\<And>e s. same e (Sentinel s) \<longleftrightarrow> e = Sentinel s"
  shows "Is same err f (Some (Sentinel s)) \<longleftrightarrow> Sentinel s \<in> set (chain (Error err f))"
  using assms by (auto simp: Is_chain)

theorem Is_sentinel_iff_witness:
  "Is (=) (Some (ConnectionError (Some (Sentinel ErrConnectionFailed)) 5)) ''received CONNACK''
     (Some (Sentinel ErrConnectionFailed))
   \<and> \<not> Is (=) (Some (Sentinel ErrInvalidPacket)) ''parsing'' (Some (Sentinel ErrConnectionFailed))"
  by (simp add: Is_sentinel_iff)

text \<open>A non-nil error given to \<open>wrapErrorWithRetry\<close> comes back with the retry closure attached,
  unless it is \<open>io.EOF\<close>, which is returned bare; a nil error stays nil.\<close>

theorem wrapErrorWithRetry_retryable:
  "as_ErrorWithRetry (wrapErrorWithRetry err retry f) =
     (if err = None \<or> err = Some (Sentinel io_EOF) then None else Some retry)"
  by (cases err) (auto simp: wrapErrorWithRetry_def wrapE_def)

text \<open>\<open>firstError\<close> keeps the first non-nil error stored into it and ignores all later ones.\<close>

theorem firstError_keeps_first:
  "firstError_Load (fold (\<lambda>err e. firstError_Store e err) errs None) =
     (case dropWhile (\<lambda>e. e = None) errs of [] \<Rightarrow> None | e # _ \<Rightarrow> e)"
proof (induction errs)
  case Nil
  then show ?case by (simp add: firstError_Load_def)
next
  case (Cons e errs)
  then show ?case
    by (cases e) (simp_all add: fold_firstError_Store firstError_Load_def)
qed

end
