(* ===== verification/Utf8.thy ===== *)
theory Utf8
  imports Prelude
begin

text \<open>
  The Go conversions between strings and rune slices that \<open>unpackString\<close> uses:
  \<open>[]rune(s)\<close> decodes UTF-8 and puts U+FFFD for every byte that does not start a well-formed
  sequence; \<open>string(rs)\<close> encodes, and encodes U+FFFD for a rune that is no Unicode scalar value.
  The byte ranges accepted are those of package unicode/utf8 (no overlong forms, no surrogates,
  nothing above U+10FFFF). Runes are natural numbers.
\<close>

definition RuneError :: nat where
  "RuneError = 0xFFFD"

definition scalar :: "nat \<Rightarrow> bool" where
  "scalar r \<longleftrightarrow> r < 0xD800 \<or> 0xE000 \<le> r \<and> r \<le> 0x10FFFF"

definition cont_byte :: "byte \<Rightarrow> bool" where
  "cont_byte b \<longleftrightarrow> 0x80 \<le> unat b \<and> unat b \<le> 0xBF"

text \<open>The accepted range of the second byte, given the first.\<close>

definition accept_lo :: "nat \<Rightarrow> nat" where
  "accept_lo n0 = (if n0 = 0xE0 then 0xA0 else if n0 = 0xF0 then 0x90 else 0x80)"

definition accept_hi :: "nat \<Rightarrow> nat" where
  "accept_hi n0 = (if n0 = 0xED then 0x9F else if n0 = 0xF4 then 0x8F else 0xBF)"

text \<open>\<open>utf8.DecodeRune\<close> on a non-empty input: the rune and the number of bytes it takes.\<close>

definition decode1 :: "byte \<Rightarrow> byte list \<Rightarrow> nat \<times> nat" where
  "decode1 b0 bs =
     (let n0 = unat b0 in
      if n0 < 0x80 then (n0, 1)
      else if 0xC2 \<le> n0 \<and> n0 \<le> 0xDF then
        (case bs of
           b1 # _ \<Rightarrow> if cont_byte b1 then ((n0 - 0xC0) * 64 + (unat b1 - 0x80), 2) else (RuneError, 1)
         | _ \<Rightarrow> (RuneError, 1))
      else if 0xE0 \<le> n0 \<and> n0 \<le> 0xEF then
        (case bs of
           b1 # b2 # _ \<Rightarrow>
             if accept_lo n0 \<le> unat b1 \<and> unat b1 \<le> accept_hi n0 \<and> cont_byte b2
             then ((n0 - 0xE0) * 4096 + (unat b1 - 0x80) * 64 + (unat b2 - 0x80), 3)
             else (RuneError, 1)
         | _ \<Rightarrow> (RuneError, 1))
      else if 0xF0 \<le> n0 \<and> n0 \<le> 0xF4 then
        (case bs of
           b1 # b2 # b3 # _ \<Rightarrow>
             if accept_lo n0 \<le> unat b1 \<and> unat b1 \<le> accept_hi n0 \<and> cont_byte b2 \<and> cont_byte b3
             then ((n0 - 0xF0) * 262144 + (unat b1 - 0x80) * 4096 + (unat b2 - 0x80) * 64
                    + (unat b3 - 0x80), 4)
             else (RuneError, 1)
         | _ \<Rightarrow> (RuneError, 1))
      else (RuneError, 1))"

text \<open>\<open>[]rune(s)\<close>.\<close>

fun runes :: "gostring \<Rightarrow> nat list" where
  "runes [] = []"
| "runes (b # bs) = (case decode1 b bs of (r, k) \<Rightarrow> r # runes (drop (k - 1) bs))"

definition encode_rune :: "nat \<Rightarrow> byte list" where
  "encode_rune r0 =
     (let r = if scalar r0 then r0 else RuneError in
      if r \<le> 0x7F then [of_nat r]
      else if r \<le> 0x7FF then [of_nat (0xC0 + r div 64), of_nat (0x80 + r mod 64)]
      else if r \<le> 0xFFFF then
        [of_nat (0xE0 + r div 4096), of_nat (0x80 + r div 64 mod 64), of_nat (0x80 + r mod 64)]
      else
        [of_nat (0xF0 + r div 262144), of_nat (0x80 + r div 4096 mod 64),
         of_nat (0x80 + r div 64 mod 64), of_nat (0x80 + r mod 64)])"

text \<open>\<open>string(rs)\<close>.\<close>

definition string_of_runes :: "nat list \<Rightarrow> gostring" where
  "string_of_runes rs = concat (map encode_rune rs)"

text \<open>Well-formed UTF-8: decoding and encoding again gives the same bytes.\<close>

definition valid_utf8 :: "gostring \<Rightarrow> bool" where
  "valid_utf8 s \<longleftrightarrow> string_of_runes (runes s) = s"

subsection \<open>Decoding gives scalar values\<close>

lemma scalar_RuneError [simp]: "scalar RuneError"
  by (simp add: scalar_def RuneError_def)

lemma scalar_3: "a \<le> 15 \<Longrightarrow> (a = 13 \<longrightarrow> b \<le> 31) \<Longrightarrow> b \<le> 63 \<Longrightarrow> c \<le> 63 \<Longrightarrow>
    scalar (a * 4096 + b * 64 + c)"
  by (cases "a < 13"; cases "a = 13") (auto simp: scalar_def)

lemma scalar_4: "a \<le> 4 \<Longrightarrow> (a = 0 \<longrightarrow> 16 \<le> b) \<Longrightarrow> (a = 4 \<longrightarrow> b \<le> 15) \<Longrightarrow> b \<le> 63 \<Longrightarrow> c \<le> 63 \<Longrightarrow>
    d \<le> 63 \<Longrightarrow> scalar (a * 262144 + b * 4096 + c * 64 + d)"
  by (cases "a = 0"; cases "a = 4") (auto simp: scalar_def)

lemma scalar_seq2: "n0 \<le> 0xDF \<Longrightarrow> cont_byte b1 \<Longrightarrow> scalar ((n0 - 0xC0) * 64 + (unat b1 - 0x80))"
  by (auto simp: cont_byte_def scalar_def)

lemma scalar_seq3:
  assumes "n0 \<le> 0xEF" "accept_lo n0 \<le> b1" "b1 \<le> accept_hi n0" "cont_byte b2"
  shows "scalar ((n0 - 0xE0) * 4096 + (b1 - 0x80) * 64 + (unat b2 - 0x80))"
  using assms by (intro scalar_3) (auto simp: accept_lo_def accept_hi_def cont_byte_def split: if_splits)

lemma scalar_seq4:
  assumes "0xF0 \<le> n0" "n0 \<le> 0xF4" "accept_lo n0 \<le> b1" "b1 \<le> accept_hi n0" "cont_byte b2" "cont_byte b3"
  shows "scalar ((n0 - 0xF0) * 262144 + (b1 - 0x80) * 4096 + (unat b2 - 0x80) * 64 + (unat b3 - 0x80))"
  using assms by (intro scalar_4) (auto simp: accept_lo_def accept_hi_def cont_byte_def split: if_splits)

lemma scalar_decode1: "decode1 b bs = (r, k) \<Longrightarrow> scalar r"
  by (auto simp: decode1_def Let_def scalar_def [of "unat b"]
      intro!: scalar_seq2 scalar_seq3 scalar_seq4 split: if_splits list.splits)

lemma scalar_runes: "r \<in> set (runes s) \<Longrightarrow> scalar r"
  by (induction s rule: runes.induct) (auto dest: scalar_decode1 [OF sym] split: prod.splits)

subsection \<open>Decoding an encoded rune\<close>

lemma mod64_le: "(x :: nat) mod 64 \<le> 63"
  by (simp add: mod_less_divisor less_Suc_eq_le [symmetric])

lemma decode1_enc1: "r \<le> 0x7F \<Longrightarrow> decode1 (of_nat r) rest = (r, 1)"
  by (simp add: decode1_def unat_of_nat_byte)

lemma decode1_enc2:
  assumes "0x7F < r" "r \<le> 0x7FF"
  shows "decode1 (of_nat (0xC0 + r div 64)) (of_nat (0x80 + r mod 64) # rest) = (r, 2)"
proof -
  have b: "0xC0 + r div 64 < 256" "0x80 + r mod 64 < 256" using assms by auto
  then show ?thesis
    using assms by (simp only: decode1_def cont_byte_def Let_def unat_of_nat_byte list.case) (auto simp: mod64_le)
qed

lemma digit_bound:
  fixes r a b m :: nat
  assumes "r < (a * 64 + b + 1) * m" "r div (64 * m) = a"
  shows "r div m mod 64 \<le> b"
proof -
  have "r div m < a * 64 + b + 1"
    using assms(1) by (rule less_mult_imp_div_less)
  moreover have "r div m div 64 = a"
    using assms(2) by (simp add: div_mult2_eq mult.commute [of 64 m])
  ultimately show ?thesis
    using div_mult_mod_eq [of "r div m" 64] by linarith
qed

lemma digits3:
  fixes r :: nat
  shows "r div 4096 * 4096 + r div 64 mod 64 * 64 + r mod 64 = r"
proof -
  have "r div 4096 = r div 64 div 64" by (simp add: div_mult2_eq [symmetric])
  then show ?thesis
    using div_mult_mod_eq [of r 64] div_mult_mod_eq [of "r div 64" 64] by linarith
qed

lemma digits4:
  fixes r :: nat
  shows "r div 262144 * 262144 + r div 4096 mod 64 * 4096 + r div 64 mod 64 * 64 + r mod 64 = r"
proof -
  have "r div 262144 = r div 4096 div 64" by (simp add: div_mult2_eq [symmetric])
  then show ?thesis
    using digits3 [of r] div_mult_mod_eq [of "r div 4096" 64] by linarith
qed

lemma decode1_enc3:
  assumes "0x7FF < r" "r \<le> 0xFFFF" "scalar r"
  shows "decode1 (of_nat (0xE0 + r div 4096))
    (of_nat (0x80 + r div 64 mod 64) # of_nat (0x80 + r mod 64) # rest) = (r, 3)"
proof -
  have b: "0xE0 + r div 4096 < 256" "0x80 + r div 64 mod 64 < 256" "0x80 + r mod 64 < 256"
    using assms by auto
  have lo: "accept_lo (0xE0 + r div 4096) \<le> 0x80 + r div 64 mod 64"
    using assms by (auto simp: accept_lo_def)
  have hi: "0x80 + r div 64 mod 64 \<le> accept_hi (0xE0 + r div 4096)"
    using assms digit_bound [of r 13 31 64] by (auto simp: accept_hi_def scalar_def)
  have d: "r div 4096 * 4096 + r div 64 mod 64 * 64 + r mod 64 = r"
    by (rule digits3)
  show ?thesis
    using assms b lo hi d
    by (simp only: decode1_def cont_byte_def Let_def unat_of_nat_byte list.case) (auto simp: mod64_le)
qed

lemma decode1_enc4:
  assumes "0xFFFF < r" "r \<le> 0x10FFFF"
  shows "decode1 (of_nat (0xF0 + r div 262144))
    (of_nat (0x80 + r div 4096 mod 64) # of_nat (0x80 + r div 64 mod 64)
      # of_nat (0x80 + r mod 64) # rest) = (r, 4)"
proof -
  have b: "0xF0 + r div 262144 < 256" "0x80 + r div 4096 mod 64 < 256"
    "0x80 + r div 64 mod 64 < 256" "0x80 + r mod 64 < 256"
    using assms by auto
  have lo: "accept_lo (0xF0 + r div 262144) \<le> 0x80 + r div 4096 mod 64"
    using assms by (auto simp: accept_lo_def)
  have hi: "0x80 + r div 4096 mod 64 \<le> accept_hi (0xF0 + r div 262144)"
    using assms digit_bound [of r 4 15 4096] by (auto simp: accept_hi_def)
  have d: "r div 262144 * 262144 + r div 4096 mod 64 * 4096 + r div 64 mod 64 * 64 + r mod 64 = r"
    by (rule digits4)
  show ?thesis
    using assms b lo hi d
    by (simp only: decode1_def cont_byte_def Let_def unat_of_nat_byte list.case) (auto simp: mod64_le)
qed

lemma runes_encode_rune: "scalar r \<Longrightarrow> runes (encode_rune r @ rest) = r # runes rest"
  by (auto simp: encode_rune_def Let_def decode1_enc1 decode1_enc2 decode1_enc3 decode1_enc4
      scalar_def simp del: of_nat_add)

lemma runes_string_of_runes:
  "\<forall>r \<in> set rs. scalar r \<Longrightarrow> runes (string_of_runes rs @ rest) = rs @ runes rest"
  by (induction rs) (simp_all add: string_of_runes_def runes_encode_rune)

lemma valid_utf8_iff: "valid_utf8 s \<longleftrightarrow> (\<exists>rs. (\<forall>r \<in> set rs. scalar r) \<and> s = string_of_runes rs)"
  unfolding valid_utf8_def
  using runes_string_of_runes [where rest = "[]"] by (metis append_Nil2 runes.simps(1) scalar_runes)

lemma valid_utf8_string_of_runes: "\<forall>r \<in> set rs. scalar r \<Longrightarrow> valid_utf8 (string_of_runes rs)"
  by (auto simp: valid_utf8_iff)

text \<open>Re-encoding what was decoded always gives well-formed UTF-8, and does so at once.\<close>

lemma valid_utf8_reencode: "valid_utf8 (string_of_runes (runes s))"
  by (intro valid_utf8_string_of_runes ballI scalar_runes)

text \<open>An ASCII string is well-formed.\<close>

lemma runes_ascii: "\<forall>b \<in> set s. unat b < 0x80 \<Longrightarrow> runes s = map unat s"
  by (induction s) (auto simp: decode1_def)

lemma valid_utf8_ascii: "\<forall>b \<in> set s. unat b < 0x80 \<Longrightarrow> valid_utf8 s"
proof -
  assume a: "\<forall>b \<in> set s. unat b < 0x80"
  then have "string_of_runes (map unat s) = s"
    by (induction s) (simp_all add: string_of_runes_def encode_rune_def scalar_def)
  with a show ?thesis by (simp add: valid_utf8_def runes_ascii)
qed

end
