(* ===== verification/Packet.thy ===== *)
theory Packet
  imports Errors Utf8
begin

text \<open>
  \<open>packet.go\<close>: packet type constants, the framing of a packet with its remaining length, and the
  encoding and decoding of 16-bit integers and length-prefixed strings.

  A packet type is a \<open>byte\<close> in the source and here. The \<open>append...\<close> functions take the buffer they
  extend; the capacity given to \<open>make\<close> has no effect on values. A panic of the source is \<open>Panic\<close>.
\<close>

type_synonym packetType = byte

definition packetConnect :: packetType where "packetConnect = 0x10"
definition packetConnAck :: packetType where "packetConnAck = 0x20"
definition packetPublish :: packetType where "packetPublish = 0x30"
definition packetPubAck :: packetType where "packetPubAck = 0x40"
definition packetPubRec :: packetType where "packetPubRec = 0x50"
definition packetPubRel :: packetType where "packetPubRel = 0x60"
definition packetPubComp :: packetType where "packetPubComp = 0x70"
definition packetSubscribe :: packetType where "packetSubscribe = 0x80"
definition packetSubAck :: packetType where "packetSubAck = 0x90"
definition packetUnsubscribe :: packetType where "packetUnsubscribe = 0xA0"
definition packetUnsubAck :: packetType where "packetUnsubAck = 0xB0"
definition packetPingReq :: packetType where "packetPingReq = 0xC0"
definition packetPingResp :: packetType where "packetPingResp = 0xD0"
definition packetDisconnect :: packetType where "packetDisconnect = 0xE0"
definition packetFromClient :: packetType where "packetFromClient = 0x02"

lemmas packetType_defs =
  packetConnect_def packetConnAck_def packetPublish_def packetPubAck_def packetPubRec_def
  packetPubRel_def packetPubComp_def packetSubscribe_def packetSubAck_def packetUnsubscribe_def
  packetUnsubAck_def packetPingReq_def packetPingResp_def packetDisconnect_def packetFromClient_def

definition packetTypeString :: "(packetType \<times> string) list" where
  "packetTypeString =
    [(packetConnect, ''CONNECT''), (packetConnAck, ''CONNACK''), (packetPublish, ''PUBLISH''),
     (packetPubAck, ''PUBACK''), (packetPubRec, ''PUBREC''), (packetPubRel, ''PUBREL''),
     (packetPubComp, ''PUBCOMP''), (packetSubscribe, ''SUBSCRIBE''), (packetSubAck, ''SUBACK''),
     (packetUnsubscribe, ''UNSUBSCRIBE''), (packetUnsubAck, ''UNSUBACK''),
     (packetPingReq, ''PINGREQ''), (packetPingResp, ''PINGRESP''),
     (packetDisconnect, ''DISCONNECT'')]"

definition packetType_String :: "packetType \<Rightarrow> string" where
  "packetType_String t =
     (case map_of packetTypeString t of
        Some s \<Rightarrow> s
      | None \<Rightarrow> ''Unknown packet type '' @ fmt_int 16 (uint t))"

subsection \<open>Framing\<close>

definition remainingLength :: "int \<Rightarrow> byte list result" where
  "remainingLength n =
     (if n \<le> 0x7F then Ret [word_of_int n]
      else if n \<le> 0x3FFF then
        Ret [word_of_int n OR 0x80,
             word_of_int (drop_bit 7 n) AND 0x7F]
      else if n \<le> 0x1FFFFF then
        Ret [word_of_int n OR 0x80,
             word_of_int (drop_bit 7 n) OR 0x80,
             word_of_int (drop_bit 14 n) AND 0x7F]
      else if n \<le> 0xFFFFFFF then
        Ret [word_of_int n OR 0x80,
             word_of_int (drop_bit 7 n) OR 0x80,
             word_of_int (drop_bit 14 n) OR 0x80,
             word_of_int (drop_bit 21 n) AND 0x7F]
      else Panic ''remaining length overflow'')"

definition contentsLength :: "byte list list \<Rightarrow> int" where
  "contentsLength contents = foldl (\<lambda>n c. n + int (length c)) 0 contents"

definition pack :: "byte \<Rightarrow> byte list list \<Rightarrow> byte list result" where
  "pack packetType contents =
     (let pkt = [packetType];
          n = contentsLength contents
      in bindO (remainingLength n) (\<lambda>rl.
         Ret (foldl (@) (pkt @ rl) contents)))"

lemma contentsLength_concat: "contentsLength contents = int (length (concat contents))"
proof -
  have "foldl (\<lambda>n c. n + int (length c)) k cs = k + int (length (concat cs))" for k and cs :: "byte list list"
    by (induction cs arbitrary: k) auto
  then show ?thesis by (simp add: contentsLength_def)
qed

lemma foldl_append_concat: "foldl (@) acc contents = acc @ concat contents"
  by (induction contents arbitrary: acc) auto

lemma pack_eq:
  "pack t contents =
     bindO (remainingLength (int (length (concat contents)))) (\<lambda>rl. Ret (t # rl @ concat contents))"
  by (simp add: pack_def contentsLength_concat foldl_append_concat)

subsection \<open>Integers and strings\<close>

definition appendUint16 :: "byte list \<Rightarrow> uint16 \<Rightarrow> byte list" where
  "appendUint16 b v = b @ [hi_byte v, lo_byte v]"

definition appendBytes :: "byte list \<Rightarrow> byte list \<Rightarrow> byte list result" where
  "appendBytes b s =
     (let n = length s in
      if n > 0xFFFF then Panic ''string length overflow''
      else Ret (appendUint16 b (of_nat n) @ s))"

definition appendString :: "byte list \<Rightarrow> gostring \<Rightarrow> byte list result" where
  "appendString b s = appendBytes b s"

definition packBytes :: "byte list \<Rightarrow> byte list result" where
  "packBytes s = appendBytes [] s"

definition packString :: "gostring \<Rightarrow> byte list result" where
  "packString s = packBytes s"

definition packUint16 :: "uint16 \<Rightarrow> byte list" where
  "packUint16 v = appendUint16 [] v"

definition unpackUint16 :: "byte list \<Rightarrow> (nat \<times> uint16) result" where
  "unpackUint16 b = bindO (index b 0) (\<lambda>b0. bindO (index b 1) (\<lambda>b1. Ret (2, join_bytes b0 b1)))"

definition badRune :: "nat \<Rightarrow> bool" where
  "badRune r \<longleftrightarrow> r = 0x0000 \<or> (0xD800 \<le> r \<and> r \<le> 0xDFFF)"

definition unpackString :: "byte list \<Rightarrow> (nat \<times> gostring) result" where
  "unpackString b =
     (if length b < 2 then failE ErrInvalidPacketLength ''unpacking string length''
      else bindO (unpackUint16 b) (\<lambda>(nHeader, n).
        if unat n + nHeader > length b
        then failE ErrInvalidPacketLength ''unpacking string contents''
        else bindO (slice b (int nHeader) (int (unat n + nHeader))) (\<lambda>s.
          let rs = runes s in
          case find badRune rs of
            Some r \<Rightarrow> failE ErrInvalidRune (''unpacked string contains 0x'' @ fmt_int 16 (int r))
          | None \<Rightarrow> Ret (unat n + nHeader, string_of_runes rs))))"

lemmas append_defs [codec_simps] =
  appendUint16_def appendBytes_def appendString_def packBytes_def packString_def packUint16_def

lemma unpackUint16_Cons [simp]: "unpackUint16 (h # l # rest) = Ret (2, join_bytes h l)"
  by (simp add: unpackUint16_def)

lemma unpackUint16_short: "length b < 2 \<Longrightarrow> is_Panic (unpackUint16 b)"
  by (cases b; cases "tl b") (auto simp: unpackUint16_def index_def)

lemma unpackUint16_long: "2 \<le> length b \<Longrightarrow> unpackUint16 b = Ret (2, join_bytes (b ! 0) (b ! 1))"
  by (cases b; cases "tl b") auto

text \<open>The header of a string and its contents, without the rune check.\<close>

lemma unpackString_Cons:
  "unpackString (h # l # rest) =
     (let n = unat (join_bytes h l) in
      if n > length rest then failE ErrInvalidPacketLength ''unpacking string contents''
      else let rs = runes (take n rest) in
        case find badRune rs of
          Some r \<Rightarrow> failE ErrInvalidRune (''unpacked string contains 0x'' @ fmt_int 16 (int r))
        | None \<Rightarrow> Ret (n + 2, string_of_runes rs))"
  by (simp add: unpackString_def slice_def Let_def nat_add_distrib uint_le_int_iff)

text \<open>Decoded runes are never surrogates, so only U+0000 can make the check fail.\<close>

lemma badRune_scalar: "scalar r \<Longrightarrow> badRune r \<longleftrightarrow> r = 0"
  by (auto simp: badRune_def scalar_def)

lemma find_badRune_runes: "find badRune (runes s) = (if 0 \<in> set (runes s) then Some 0 else None)"
proof -
  have "find badRune rs = (if 0 \<in> set rs then Some 0 else None)" if "\<forall>r \<in> set rs. scalar r" for rs
    using that by (induction rs) (auto simp: badRune_scalar)
  then show ?thesis by (simp add: scalar_runes)
qed

text \<open>A well-formed string without U+0000: what MQTT 1.5.3 requires of a UTF-8 encoded string.\<close>

definition mqtt_string :: "gostring \<Rightarrow> bool" where
  "mqtt_string s \<longleftrightarrow> valid_utf8 s \<and> 0 \<notin> set (runes s) \<and> length s \<le> 0xFFFF"

lemma unpackString_mqtt:
  assumes "mqtt_string s"
  shows "unpackString (hi_byte (of_nat (length s)) # lo_byte (of_nat (length s)) # s @ rest)
         = Ret (length s + 2, s)"
proof -
  have n: "unat (of_nat (length s) :: uint16) = length s"
    using assms by (simp add: mqtt_string_def unat_of_nat_uint16)
  show ?thesis
    using assms
    by (simp add: unpackString_Cons n find_badRune_runes mqtt_string_def valid_utf8_def)
qed

subsection \<open>Properties\<close>

text \<open>Every string that MQTT 1.5.3 allows (well-formed UTF-8, no U+0000, at most 65535 bytes)
  survives encoding by \<open>packString\<close> and decoding by \<open>unpackString\<close>, whatever bytes follow, and the
  number of consumed bytes is the length of the encoding.\<close>

theorem unpackString_packString:
  assumes "mqtt_string s"
  shows "\<exists>b. packString s = Ret b \<and> unpackString (b @ rest) = Ret (length b, s)"
  using assms unpackString_mqtt [OF assms, of rest]
  by (simp add: codec_simps mqtt_string_def Let_def)

theorem unpackString_packString_witness:
  "\<exists>b. packString (str ''sport/tennis'') = Ret b
     \<and> unpackString (b @ [1, 2, 3]) = Ret (length b, str ''sport/tennis'')"
  by (rule unpackString_packString)
    (simp add: mqtt_string_def str_def valid_utf8_ascii runes_ascii del: runes.simps)

text \<open>\<open>unpackString\<close> never panics. It fails with an invalid-length error exactly when the
  two-byte length or the announced contents are cut off; it fails with an invalid-rune error exactly
  when the decoded contents hold U+0000 (the surrogate range named in the check is never reached);
  otherwise it consumes the announced bytes and returns well-formed UTF-8.\<close>

theorem unpackString_total:
  "unpackString b =
     (if length b < 2 then failE ErrInvalidPacketLength ''unpacking string length''
      else let n = unat (join_bytes (b ! 0) (b ! 1)); s = take n (drop 2 b) in
        if length b < n + 2 then failE ErrInvalidPacketLength ''unpacking string contents''
        else if 0 \<in> set (runes s)
          then failE ErrInvalidRune (''unpacked string contains 0x'' @ fmt_int 16 0)
          else Ret (n + 2, string_of_runes (runes s)))
   \<and> valid_utf8 (string_of_runes (runes (take (unat (join_bytes (b ! 0) (b ! 1))) (drop 2 b))))"
proof (cases "length b < 2")
  case True
  then show ?thesis
    using valid_utf8_reencode [of "[]"] by (simp add: unpackString_def)
next
  case False
  then obtain h l rest where "b = h # l # rest"
    by (cases b; cases "tl b") auto
  then show ?thesis
    by (auto simp: unpackString_Cons find_badRune_runes Let_def valid_utf8_reencode)
qed

lemmas decode_eval = unpackString_Cons decode1_def accept_lo_def accept_hi_def cont_byte_def
  RuneError_def badRune_def string_of_runes_def encode_rune_def scalar_def join_bytes_def

text \<open>A string that is not well-formed UTF-8 is not rejected: the single byte \<open>0xFF\<close>, which no
  UTF-8 string contains, is accepted and delivered as the three bytes of U+FFFD, and so is an encoded
  surrogate (U+D800), as three replacement characters.\<close>

theorem unpackString_accepts_malformed:
  "unpackString [0x00, 0x01, 0xFF] = Ret (3, [0xEF, 0xBF, 0xBD])
   \<and> \<not> valid_utf8 [0xFF]
   \<and> unpackString [0x00, 0x03, 0xED, 0xA0, 0x80]
       = Ret (5, [0xEF, 0xBF, 0xBD, 0xEF, 0xBF, 0xBD, 0xEF, 0xBF, 0xBD])"
proof (intro conjI)
  show "unpackString [0x00, 0x01, 0xFF] = Ret (3, [0xEF, 0xBF, 0xBD])"
    by (simp add: decode_eval)
  show "\<not> valid_utf8 [0xFF]"
    by (simp add: decode_eval valid_utf8_def)
  show "unpackString [0x00, 0x03, 0xED, 0xA0, 0x80]
       = Ret (5, [0xEF, 0xBF, 0xBD, 0xEF, 0xBF, 0xBD, 0xEF, 0xBF, 0xBD])"
    by (simp add: decode_eval)
qed

end
