(* ===== verification/Wire.thy ===== *)
theory Wire
  imports Packet
begin

text \<open>
  \<open>readPacket\<close> of \<open>serve.go\<close>: reading one packet from the transport.

  A reader is the bytes that will still arrive and the error that the transport reports after them
  (\<open>io.EOF\<close> when the peer closes). How the bytes are split into reads does not matter to
  \<open>io.ReadFull\<close>. The remaining length is a Go \<open>int\<close>, 64 bits wide here; \<open>make\<close> panics on a
  negative length. Memory exhaustion is not modelled.
\<close>

record reader =
  rBytes :: "byte list"
  rEnd :: goerror

definition ReadFull :: "nat \<Rightarrow> reader \<Rightarrow> (byte list \<times> reader) result" where
  "ReadFull n r =
     (if n \<le> length (rBytes r) then Ret (take n (rBytes r), r\<lparr>rBytes := drop n (rBytes r)\<rparr>)
      else if rBytes r = [] then Fail (rEnd r)
      else if rEnd r = Sentinel io_EOF then Fail (Sentinel io_ErrUnexpectedEOF)
      else Fail (rEnd r))"

text \<open>
  The loop over the length bytes: \<open>b1\<close> is \<open>buf[1]\<close>. Go shifts by any unsigned amount, a shift by
  64 or more gives 0, as \<open>push_bit\<close> does.
\<close>

fun readLength :: "nat \<Rightarrow> 64 word \<Rightarrow> byte \<Rightarrow> byte list \<Rightarrow> goerror \<Rightarrow> (64 word \<times> byte list) result" where
  "readLength shift acc b1 bs end =
     (let acc' = acc OR push_bit shift (ucast b1 AND 0x7F) in
      if b1 AND 0x80 = 0 then Ret (acc', bs)
      else case bs of
             [] \<Rightarrow> Fail end
           | b # bs' \<Rightarrow> readLength (shift + 7) acc' b bs' end)"

declare readLength.simps [simp del]

text \<open>\<open>make([]byte, n)\<close> panics on a negative length and on one above the maximum of an allocation, \<open>2^48\<close> bytes
  on amd64. Running out of memory below that ends a Go program without a panic and is not modelled.\<close>

definition maxAlloc :: nat where
  "maxAlloc = 2 ^ 48"

definition makeBytes :: "64 word \<Rightarrow> nat result" where
  "makeBytes n = (if sint n < 0 \<or> maxAlloc < unat n then Panic ''makeslice: len out of range'' else Ret (unat n))"

definition readPacket :: "reader \<Rightarrow> (packetType \<times> byte \<times> byte list \<times> reader) result" where
  "readPacket r =
     bindO (ReadFull 2 r) (\<lambda>(buf, r1).
       let pktType = (buf ! 0) AND 0xF0; pktFlag = (buf ! 0) AND 0x0F in
       bindO (readLength 0 0 (buf ! 1) (rBytes r1) (rEnd r1)) (\<lambda>(n, bs).
         bindO (makeBytes n) (\<lambda>len.
           bindO (ReadFull len (r1\<lparr>rBytes := bs\<rparr>)) (\<lambda>(contents, r2).
             Ret (pktType, pktFlag, contents, r2)))))"

lemma ReadFull_append [simp]:
  "ReadFull (length xs) \<lparr>rBytes = xs @ ys, rEnd = e\<rparr> = Ret (xs, \<lparr>rBytes = ys, rEnd = e\<rparr>)"
  by (simp add: ReadFull_def)

lemma readPacket_Cons:
  "readPacket \<lparr>rBytes = h # b1 # bs, rEnd = e\<rparr> =
     bindO (readLength 0 0 b1 bs e) (\<lambda>(n, bs').
       bindO (makeBytes n) (\<lambda>len.
         bindO (ReadFull len \<lparr>rBytes = bs', rEnd = e\<rparr>) (\<lambda>(contents, r2).
           Ret (h AND 0xF0, h AND 0x0F, contents, r2))))"
  by (simp add: readPacket_def ReadFull_def [of 2] Let_def case_prod_beta)

subsection \<open>The length bytes\<close>

lemma mask7: "(0x7F :: 'a :: len word) = mask 7"
  by (simp add: mask_eq_exp_minus_1)

lemma bit_0x80: "bit (0x80 :: byte) n \<longleftrightarrow> n = 7"
proof -
  have "bit (2 ^ 7 :: byte) n \<longleftrightarrow> n = 7" by (auto simp only: bit_exp_iff possible_bit_word) simp
  then show ?thesis by simp
qed

lemma bit_128_int: "bit (128 :: int) n \<longleftrightarrow> n = 7"
  using bit_exp_iff [of 7 n, where 'a = int] by auto

text \<open>A byte with the continuation bit, and one without, as the encoder makes them.\<close>

lemma more_bit: "((w :: byte) OR 0x80) AND 0x80 \<noteq> 0"
proof
  assume "(w OR 0x80) AND 0x80 = 0"
  then have "\<not> bit ((w OR 0x80) AND 0x80) 7" by simp
  then show False by (simp only: bit_and_iff bit_or_iff bit_0x80) simp
qed

lemma last_bit: "((w :: byte) AND 0x7F) AND 0x80 = 0"
  by (simp add: and.assoc)

definition payload7 :: "int \<Rightarrow> 64 word" where
  "payload7 m = word_of_int (take_bit 7 m)"

lemma payload_more: "(ucast (word_of_int m OR 0x80 :: byte) AND 0x7F :: 64 word) = payload7 m"
  unfolding mask7 payload7_def by (rule bit_word_eqI) (auto simp: bit_simps bit_0x80 bit_128_int)

lemma payload_last: "(ucast (word_of_int m AND 0x7F :: byte) AND 0x7F :: 64 word) = payload7 m"
  unfolding mask7 payload7_def by (rule bit_word_eqI) (auto simp: bit_simps)

lemma readLength_more:
  "readLength shift acc (word_of_int m OR 0x80) (b # bs) e
     = readLength (shift + 7) (acc OR push_bit shift (payload7 m)) b bs e"
  by (simp add: readLength.simps [of shift] more_bit payload_more)

lemma readLength_last:
  "readLength shift acc (word_of_int m AND 0x7F) bs e = Ret (acc OR push_bit shift (payload7 m), bs)"
  by (simp add: readLength.simps [of shift] last_bit payload_last)

lemma small_no_bit: "0 \<le> n \<Longrightarrow> n < 2 ^ k \<Longrightarrow> k \<le> i \<Longrightarrow> \<not> bit (n :: int) i"
  by (metis bit_take_bit_iff leD take_bit_int_eq_self)

lemma byte_and_7F: "0 \<le> n \<Longrightarrow> n < 128 \<Longrightarrow> (word_of_int n :: byte) AND 0x7F = word_of_int n"
  unfolding mask7 using small_no_bit [of n 7]
  by (intro bit_word_eqI) (auto simp: bit_simps not_less intro: ccontr)

lemma join1: "0 \<le> n \<Longrightarrow> n < 2 ^ 7 \<Longrightarrow> payload7 n = word_of_int n"
  by (simp add: payload7_def take_bit_int_eq_self)

lemma join2:
  assumes "0 \<le> n" "n < 2 ^ 14"
  shows "payload7 n OR push_bit 7 (payload7 (drop_bit 7 n)) = word_of_int n"
  using small_no_bit [OF assms] unfolding payload7_def
  by (intro bit_word_eqI) (auto simp: bit_simps not_less intro: ccontr)

lemma join3:
  assumes "0 \<le> n" "n < 2 ^ 21"
  shows "payload7 n OR push_bit 7 (payload7 (drop_bit 7 n)) OR push_bit 14 (payload7 (drop_bit 14 n))
    = word_of_int n"
  using small_no_bit [OF assms] unfolding payload7_def
  by (intro bit_word_eqI) (auto simp: bit_simps not_less intro: ccontr)

lemma join4:
  assumes "0 \<le> n" "n < 2 ^ 28"
  shows "payload7 n OR push_bit 7 (payload7 (drop_bit 7 n)) OR push_bit 14 (payload7 (drop_bit 14 n))
    OR push_bit 21 (payload7 (drop_bit 21 n)) = word_of_int n"
  using small_no_bit [OF assms] unfolding payload7_def
  by (intro bit_word_eqI) (auto simp: bit_simps not_less intro: ccontr)


lemma ucast_small: "0 \<le> n \<Longrightarrow> n < 128 \<Longrightarrow> (word_of_int n :: byte) = word_of_int n AND 0x7F"
  by (simp add: byte_and_7F)

lemma readLength_remainingLength:
  assumes "0 \<le> n" "n < 2 ^ 28"
  shows "\<exists>b1 bs. remainingLength n = Ret (b1 # bs) \<and> length bs < 4
           \<and> readLength 0 0 b1 (bs @ rest) e = Ret (word_of_int n, rest)"
proof -
  consider "n \<le> 0x7F" | "0x7F < n" "n \<le> 0x3FFF" | "0x3FFF < n" "n \<le> 0x1FFFFF" | "0x1FFFFF < n"
    by linarith
  then show ?thesis
  proof cases
    case 1
    then have "readLength 0 0 (word_of_int n) rest e = Ret (word_of_int n, rest)"
      using assms readLength_last [of 0 0 n] join1 [of n] by (simp add: byte_and_7F)
    with 1 show ?thesis by (simp add: remainingLength_def)
  next
    case 2
    then show ?thesis
      using assms join2 [of n] by (simp add: remainingLength_def readLength_more readLength_last)
  next
    case 3
    then show ?thesis
      using assms join3 [of n]
      by (simp add: remainingLength_def readLength_more readLength_last or.assoc)
  next
    case 4
    then show ?thesis
      using assms join4 [of n]
      by (simp add: remainingLength_def readLength_more readLength_last or.assoc)
  qed
qed

lemma makeBytes_small: "0 \<le> n \<Longrightarrow> n < 2 ^ 28 \<Longrightarrow> makeBytes (word_of_int n) = Ret (nat n)"
  by (simp add: makeBytes_def maxAlloc_def signed_of_int signed_take_bit_int_eq_self unsigned_of_int take_bit_int_eq_self)

text \<open>Reading back a framed packet.\<close>

lemma readPacket_pack:
  assumes "length (concat contents) < 2 ^ 28"
  shows "\<exists>bs. pack t contents = Ret bs
     \<and> readPacket \<lparr>rBytes = bs @ rest, rEnd = e\<rparr>
         = Ret (t AND 0xF0, t AND 0x0F, concat contents, \<lparr>rBytes = rest, rEnd = e\<rparr>)"
proof -
  let ?n = "int (length (concat contents))"
  have n: "0 \<le> ?n" "?n < 2 ^ 28" using assms by simp_all
  obtain b1 bs where rl: "remainingLength ?n = Ret (b1 # bs)"
    and rd: "readLength 0 0 b1 (bs @ concat contents @ rest) e = Ret (word_of_int ?n, concat contents @ rest)"
    using readLength_remainingLength [OF n] by blast
  show ?thesis
    using makeBytes_small [OF n] ReadFull_append [of "concat contents" rest e]
    by (simp add: pack_eq rl readPacket_Cons rd del: ReadFull_append length_concat)
qed

subsection \<open>Reading is local\<close>

text \<open>What follows the bytes that are read has no influence, and nothing is lost or invented.\<close>

lemma readLength_extend:
  "readLength shift acc b1 bs e = Ret (n, bs') \<Longrightarrow>
     readLength shift acc b1 (bs @ zs) e' = Ret (n, bs' @ zs) \<and> (\<exists>hdr. bs = hdr @ bs')"
proof (induction shift acc b1 bs e rule: readLength.induct)
  case (1 shift acc b1 bs e)
  show ?case
  proof (cases "b1 AND 0x80 = 0")
    case True
    with "1.prems" show ?thesis by (simp add: readLength.simps [of shift])
  next
    case False
    with "1.prems" obtain b bs1 where bs: "bs = b # bs1"
      by (cases bs) (auto simp: readLength.simps [of shift])
    with False "1.prems" "1.IH" [OF refl False bs] show ?thesis
      by (auto simp: readLength.simps [of shift])
  qed
qed

lemma readLength_outcomes:
  "(\<exists>n bs'. readLength shift acc b1 bs e = Ret (n, bs')) \<or> readLength shift acc b1 bs e = Fail e"
proof (induction shift acc b1 bs e rule: readLength.induct)
  case (1 shift acc b1 bs e)
  then show ?case
    by (cases bs) (auto simp: readLength.simps [of shift acc b1] Let_def)
qed

lemma makeBytes_outcomes: "makeBytes n = Panic ''makeslice: len out of range'' \<or> (\<exists>k. makeBytes n = Ret k)"
  by (simp add: makeBytes_def)

lemma ReadFull_extend:
  "ReadFull k \<lparr>rBytes = xs, rEnd = e\<rparr> = Ret (c, r) \<Longrightarrow>
     ReadFull k \<lparr>rBytes = xs @ zs, rEnd = e'\<rparr> = Ret (c, \<lparr>rBytes = rBytes r @ zs, rEnd = e'\<rparr>)
     \<and> xs = c @ rBytes r \<and> rEnd r = e \<and> length c = k"
  by (auto simp: ReadFull_def split: if_splits)

lemma ReadFull_outcomes:
  "(\<exists>c r'. ReadFull k r = Ret (c, r')) \<or> (\<exists>err. ReadFull k r = Fail err
      \<and> (err = rEnd r \<or> err = Sentinel io_ErrUnexpectedEOF \<and> rEnd r = Sentinel io_EOF))"
  by (auto simp: ReadFull_def)

lemma readPacket_short:
  "length xs < 2 \<Longrightarrow> readPacket \<lparr>rBytes = xs, rEnd = e\<rparr> =
     Fail (if xs \<noteq> [] \<and> e = Sentinel io_EOF then Sentinel io_ErrUnexpectedEOF else e)"
  by (auto simp: readPacket_def ReadFull_def)

lemma readPacket_extend:
  assumes "readPacket \<lparr>rBytes = xs, rEnd = e\<rparr> = Ret (t, f, c, r)"
  shows "readPacket \<lparr>rBytes = xs @ zs, rEnd = e'\<rparr> = Ret (t, f, c, \<lparr>rBytes = rBytes r @ zs, rEnd = e'\<rparr>)
    \<and> (\<exists>hdr. 2 \<le> length hdr \<and> xs = hdr @ c @ rBytes r) \<and> rEnd r = e"
proof (cases "length xs < 2")
  case True
  with assms show ?thesis by (simp add: readPacket_short split: if_splits)
next
  case False
  then obtain h b1 bs where xs: "xs = h # b1 # bs" by (cases xs; cases "tl xs") auto
  with assms obtain n bs' k where rl: "readLength 0 0 b1 bs e = Ret (n, bs')" and mk: "makeBytes n = Ret k"
    and rf: "ReadFull k \<lparr>rBytes = bs', rEnd = e\<rparr> = Ret (c, r)" and t: "t = h AND 0xF0" "f = h AND 0x0F"
    by (auto simp: readPacket_Cons bindO_eq_Ret_iff)
  obtain hdr where bs: "bs = hdr @ bs'" and rl': "readLength 0 0 b1 (bs @ zs) e' = Ret (n, bs' @ zs)"
    using readLength_extend [OF rl] by metis
  have rf': "ReadFull k \<lparr>rBytes = bs' @ zs, rEnd = e'\<rparr> = Ret (c, \<lparr>rBytes = rBytes r @ zs, rEnd = e'\<rparr>)"
    "bs' = c @ rBytes r" "rEnd r = e"
    using ReadFull_extend [OF rf] by blast+
  have "xs = (h # b1 # hdr) @ c @ rBytes r" using xs bs rf' by simp
  moreover have "2 \<le> length (h # b1 # hdr)" by simp
  ultimately show ?thesis
    using rl' mk rf'(1,3) t by (simp add: xs readPacket_Cons)
qed

lemma readPacket_outcomes:
  "(\<exists>t f c r'. readPacket \<lparr>rBytes = xs, rEnd = e\<rparr> = Ret (t, f, c, r'))
   \<or> readPacket \<lparr>rBytes = xs, rEnd = e\<rparr> = Panic ''makeslice: len out of range''
   \<or> (\<exists>err. readPacket \<lparr>rBytes = xs, rEnd = e\<rparr> = Fail err
        \<and> (err = e \<or> err = Sentinel io_ErrUnexpectedEOF \<and> e = Sentinel io_EOF))"
proof (cases "length xs < 2")
  case True
  then show ?thesis by (auto simp: readPacket_short)
next
  case False
  then obtain h b1 bs where xs: "xs = h # b1 # bs" by (cases xs; cases "tl xs") auto
  consider "readLength 0 0 b1 bs e = Fail e" | n bs' where "readLength 0 0 b1 bs e = Ret (n, bs')"
    using readLength_outcomes by blast
  then show ?thesis
  proof cases
    case 1
    then show ?thesis by (simp add: xs readPacket_Cons)
  next
    case (2 n bs')
    consider "makeBytes n = Panic ''makeslice: len out of range''" | k where "makeBytes n = Ret k"
      using makeBytes_outcomes by blast
    then show ?thesis
    proof cases
      case 1
      with 2 show ?thesis by (simp add: xs readPacket_Cons)
    next
      case (2 k)
      then show ?thesis
        using \<open>readLength 0 0 b1 bs e = Ret (n, bs')\<close>
          ReadFull_outcomes [of k "\<lparr>rBytes = bs', rEnd = e\<rparr>"]
        by (auto simp: xs readPacket_Cons)
    qed
  qed
qed

lemma readPacket_panic_extend:
  assumes "readPacket \<lparr>rBytes = xs, rEnd = e\<rparr> = Panic m"
  shows "readPacket \<lparr>rBytes = xs @ zs, rEnd = e'\<rparr> = Panic m"
proof (cases "length xs < 2")
  case True
  with assms show ?thesis by (simp add: readPacket_short split: if_splits)
next
  case False
  then obtain h b1 bs where xs: "xs = h # b1 # bs" by (cases xs; cases "tl xs") auto
  obtain n bs' where rl: "readLength 0 0 b1 bs e = Ret (n, bs')"
    using assms readLength_outcomes [of 0 0 b1 bs e] by (auto simp: xs readPacket_Cons)
  from assms have "makeBytes n = Panic m"
    using ReadFull_outcomes [of "unat n" "\<lparr>rBytes = bs', rEnd = e\<rparr>"]
    by (auto simp: xs readPacket_Cons rl makeBytes_def split: if_splits)
  then show ?thesis
    using readLength_extend [OF rl] by (auto simp: xs readPacket_Cons)
qed

subsection \<open>How large a length can get\<close>

lemma readLength_bits:
  assumes "readLength shift acc b1 bs e = Ret (n, bs')" "\<And>i. shift \<le> i \<Longrightarrow> \<not> bit acc i"
  shows "\<exists>hdr. bs = hdr @ bs' \<and> (\<forall>i \<ge> shift + 7 * (length hdr + 1). \<not> bit n i)
           \<and> (\<forall>b \<in> set (butlast (b1 # hdr)). b AND 0x80 \<noteq> 0)"
  using assms
proof (induction shift acc b1 bs e rule: readLength.induct)
  case (1 shift acc b1 bs e)
  let ?acc = "acc OR push_bit shift (ucast b1 AND 0x7F)"
  have bits: "\<not> bit ?acc i" if "shift + 7 \<le> i" for i
    using "1.prems"(2) [of i] that unfolding mask7 by (auto simp: bit_simps)
  show ?case
  proof (cases "b1 AND 0x80 = 0")
    case True
    then have "n = ?acc" "bs' = bs" using "1.prems"(1) by (simp_all add: readLength.simps [of shift] Let_def)
    then show ?thesis using bits by (intro exI [of _ "[]"]) simp
  next
    case False
    with "1.prems"(1) obtain b bs1 where bs: "bs = b # bs1"
      and rd: "readLength (shift + 7) ?acc b bs1 e = Ret (n, bs')"
      by (cases bs) (auto simp: readLength.simps [of shift] Let_def)
    from "1.IH" [OF refl False bs rd bits] obtain hdr where "bs1 = hdr @ bs'"
      "\<forall>i \<ge> shift + 7 + 7 * (length hdr + 1). \<not> bit n i"
      "\<forall>b \<in> set (butlast (b # hdr)). b AND 0x80 \<noteq> 0" by blast
    with bs False show ?thesis
      by (intro exI [of _ "b # hdr"]) (auto simp: algebra_simps)
  qed
qed

lemma large_bit:
  assumes "maxAlloc < unat (n :: 64 word)"
  shows "\<exists>i \<ge> 48. bit n i"
proof (rule ccontr)
  assume no: "\<not> (\<exists>i \<ge> 48. bit n i)"
  have "take_bit 48 n = n" by (rule bit_eqI) (use no in \<open>auto simp: bit_take_bit_iff not_le\<close>)
  then have "take_bit 48 (unat n) = unat n" by (metis unsigned_take_bit_eq)
  then have "unat n < 2 ^ 48" by (metis take_bit_nat_less_exp)
  then show False using assms by (simp add: maxAlloc_def)
qed

subsection \<open>Properties\<close>

text \<open>C24: framing round trip. A packet that \<open>pack\<close> makes of contents shorter than 2^28 bytes is
  read back by \<open>readPacket\<close> as the same type, flags and contents, whatever follows in the stream,
  and the reader stops exactly after the packet.\<close>

theorem readPacket_pack_roundtrip:
  assumes "length (concat contents) < 2 ^ 28"
  shows "\<exists>bs. pack t contents = Ret bs
     \<and> readPacket \<lparr>rBytes = bs @ rest, rEnd = e\<rparr>
         = Ret (t AND 0xF0, t AND 0x0F, concat contents, \<lparr>rBytes = rest, rEnd = e\<rparr>)"
  using assms by (rule readPacket_pack)

theorem readPacket_pack_roundtrip_witness:
  "\<exists>bs. pack 0x62 [replicate 300 7, [1, 2]] = Ret bs
     \<and> readPacket \<lparr>rBytes = bs @ [9, 9], rEnd = Sentinel io_EOF\<rparr>
         = Ret (0x62 AND 0xF0, 0x62 AND 0x0F, concat [replicate 300 7, [1, 2]],
                \<lparr>rBytes = [9, 9], rEnd = Sentinel io_EOF\<rparr>)"
  by (rule readPacket_pack_roundtrip) simp

text \<open>\<open>pack\<close> returns a packet when the contents are shorter than 2^28 bytes, the largest length
  the protocol can express, and panics otherwise; the header it adds is one type byte and at most
  four length bytes.\<close>

theorem pack_total:
  "(length (concat contents) < 2 ^ 28 \<longrightarrow>
      (\<exists>rl. pack t contents = Ret (t # rl @ concat contents) \<and> 1 \<le> length rl \<and> length rl \<le> 4))
   \<and> (2 ^ 28 \<le> length (concat contents) \<longrightarrow>
      pack t contents = Panic ''remaining length overflow'')"
proof (intro conjI impI)
  assume "length (concat contents) < 2 ^ 28"
  then have "0 \<le> int (length (concat contents))" "int (length (concat contents)) < 2 ^ 28"
    by simp_all
  from readLength_remainingLength [OF this] obtain b1 bs
    where "remainingLength (int (length (concat contents))) = Ret (b1 # bs)" "length bs < 4"
    by blast
  then show "\<exists>rl. pack t contents = Ret (t # rl @ concat contents) \<and> 1 \<le> length rl \<and> length rl \<le> 4"
    by (auto simp: pack_eq)
next
  assume "2 ^ 28 \<le> length (concat contents)"
  then show "pack t contents = Panic ''remaining length overflow''"
    by (simp add: pack_eq remainingLength_def)
qed

theorem pack_total_witness:
  "pack 0x30 [[1, 2, 3]] \<noteq> Panic ''remaining length overflow''"
  using pack_total [of "[[1, 2, 3]]" "0x30"] by auto

text \<open>\<open>readPacket\<close> neither loses nor invents bytes: the input is the header, the contents it
  returns and what is left in the reader.\<close>

theorem readPacket_consumes:
  assumes "readPacket \<lparr>rBytes = xs, rEnd = e\<rparr> = Ret (t, f, c, r)"
  shows "\<exists>hdr. 2 \<le> length hdr \<and> xs = hdr @ c @ rBytes r \<and> rEnd r = e"
  using readPacket_extend [OF assms] by blast

theorem readPacket_consumes_witness:
  "\<exists>hdr. 2 \<le> length hdr \<and> [0x40, 0x02, 0x00, 0x07, 0xD0] = hdr @ [0x00, 0x07] @ [0xD0 :: byte]"
proof -
  have "readPacket \<lparr>rBytes = [0x40, 0x02, 0x00, 0x07, 0xD0], rEnd = Sentinel io_EOF\<rparr>
      = Ret (0x40, 0, [0x00, 0x07], \<lparr>rBytes = [0xD0], rEnd = Sentinel io_EOF\<rparr>)"
    by (simp add: readPacket_Cons readLength.simps makeBytes_def maxAlloc_def ReadFull_def)
  from readPacket_consumes [OF this] show ?thesis by simp
qed

text \<open>C32: a packet cut off at any byte before its end makes \<open>readPacket\<close> return \<open>io.EOF\<close> or
  \<open>io.ErrUnexpectedEOF\<close> when the peer closes; a truncated packet is never taken for a whole one.\<close>

theorem readPacket_truncated:
  assumes "length (concat contents) < 2 ^ 28" "pack t contents = Ret bs" "k < length bs"
  shows "readPacket \<lparr>rBytes = take k bs, rEnd = Sentinel io_EOF\<rparr>
           \<in> {Fail (Sentinel io_EOF), Fail (Sentinel io_ErrUnexpectedEOF)}"
proof -
  let ?r = "\<lparr>rBytes = take k bs, rEnd = Sentinel io_EOF\<rparr>"
  have full: "readPacket \<lparr>rBytes = take k bs @ drop k bs, rEnd = Sentinel io_EOF\<rparr>
      = Ret (t AND 0xF0, t AND 0x0F, concat contents, \<lparr>rBytes = [], rEnd = Sentinel io_EOF\<rparr>)"
    using readPacket_pack [OF assms(1), of t "[]" "Sentinel io_EOF"] assms(2) by simp
  have "readPacket ?r \<noteq> Panic m" for m
    using readPacket_panic_extend [of "take k bs" "Sentinel io_EOF" m "drop k bs" "Sentinel io_EOF"]
      full by auto
  moreover have "readPacket ?r \<noteq> Ret (t', f', c', r')" for t' f' c' r'
    using readPacket_extend [of "take k bs" "Sentinel io_EOF" t' f' c' r' "drop k bs" "Sentinel io_EOF"]
      full assms(3) by auto
  ultimately show ?thesis
    using readPacket_outcomes [of "take k bs" "Sentinel io_EOF"] by auto
qed

theorem readPacket_truncated_witness:
  "readPacket \<lparr>rBytes = take 3 [0x40, 0x02, 0x00, 0x07], rEnd = Sentinel io_EOF\<rparr>
     \<in> {Fail (Sentinel io_EOF), Fail (Sentinel io_ErrUnexpectedEOF)}"
  by (rule readPacket_truncated [of "[[0x00, 0x07]]" "0x40"])
    (simp_all add: pack_eq remainingLength_def)

text \<open>C33: \<open>readPacket\<close> panics only on a length field of at least seven bytes: the first six length bytes all
  announce another one. A peer that keeps to MQTT's four-byte limit cannot reach it. With seven bytes
  the length can exceed what \<open>make\<close> accepts, with ten it can also be negative.\<close>

theorem readPacket_panic_needs_long_length:
  assumes "readPacket \<lparr>rBytes = xs, rEnd = e\<rparr> = Panic m"
  shows "8 \<le> length xs \<and> list_all (\<lambda>b. b AND 0x80 \<noteq> 0) (take 6 (drop 1 xs))"
proof (cases "length xs < 2")
  case True
  with assms show ?thesis by (simp add: readPacket_short split: if_splits)
next
  case False
  then obtain h b1 bs where xs: "xs = h # b1 # bs" by (cases xs; cases "tl xs") auto
  obtain n bs' where rl: "readLength 0 0 b1 bs e = Ret (n, bs')"
    using assms readLength_outcomes [of 0 0 b1 bs e] by (auto simp: xs readPacket_Cons)
  from assms have "sint n < 0 \<or> maxAlloc < unat n"
    using ReadFull_outcomes [of "unat n" "\<lparr>rBytes = bs', rEnd = e\<rparr>"]
    by (auto simp: xs readPacket_Cons rl makeBytes_def split: if_splits)
  then have "\<exists>i \<ge> 48. bit n i"
  proof
    assume "sint n < 0"
    then have "bit n 63" using bit_last_iff [of n] by simp
    then show ?thesis by (intro exI [of _ 63]) simp
  qed (rule large_bit)
  with readLength_bits [OF rl] obtain hdr where hdr: "bs = hdr @ bs'" "6 \<le> length hdr"
    and more: "\<forall>b \<in> set (butlast (b1 # hdr)). b AND 0x80 \<noteq> 0"
    by (force simp: not_le)
  have "xs ! i AND 0x80 \<noteq> 0" if "i \<in> {1..6}" for i
  proof -
    have "xs ! i = (b1 # hdr) ! (i - 1)" "i - 1 < length (butlast (b1 # hdr))"
      using that hdr by (auto simp: xs nth_Cons' nth_append)
    then show ?thesis
      using more nth_butlast [of "i - 1" "b1 # hdr"] by (metis nth_mem)
  qed
  moreover have "8 \<le> length xs" using hdr by (simp add: xs)
  ultimately show ?thesis by (auto simp: list_all_length nth_append)
qed

theorem readPacket_panic_needs_long_length_witness:
  "8 \<le> length [0x30, 0xFF, 0xFF, 0xFF, 0xFF, 0xFF, 0xFF, 0x7F :: byte]
   \<and> list_all (\<lambda>b. b AND 0x80 \<noteq> 0) (take 6 (drop 1 [0x30, 0xFF, 0xFF, 0xFF, 0xFF, 0xFF, 0xFF, 0x7F :: byte]))"
  by (rule readPacket_panic_needs_long_length
      [where e = "Sentinel io_EOF" and m = "''makeslice: len out of range''"])
    (simp add: readPacket_Cons readLength.simps makeBytes_def maxAlloc_def)

text \<open>A length field of more than four bytes, which MQTT forbids, is not rejected: these bytes from the
  broker make the client panic, by a negative length and by one that is too large.\<close>

theorem readPacket_panics:
  "readPacket \<lparr>rBytes = [0x30, 0x80, 0x80, 0x80, 0x80, 0x80, 0x80, 0x80, 0x80, 0x80, 0x01],
     rEnd = Sentinel io_EOF\<rparr> = Panic ''makeslice: len out of range''
   \<and> readPacket \<lparr>rBytes = [0x30, 0xFF, 0xFF, 0xFF, 0xFF, 0xFF, 0xFF, 0x7F], rEnd = Sentinel io_EOF\<rparr>
     = Panic ''makeslice: len out of range''"
  by (simp add: readPacket_Cons readLength.simps makeBytes_def maxAlloc_def)

end
