(* ===== verification/ControlPackets.thy ===== *)
theory ControlPackets
  imports Wire
begin

text \<open>
  The control packets: \<open>Pack\<close> and \<open>Parse\<close> of every \<open>pkt...\<close> type of the package (\<open>connect.go\<close>,
  \<open>connack.go\<close>, \<open>publish.go\<close>, \<open>puback.go\<close>, \<open>pubrec.go\<close>, \<open>pubrel.go\<close>, \<open>pubcomp.go\<close>,
  \<open>subscribe.go\<close>, \<open>suback.go\<close>, \<open>unsubscribe.go\<close>, \<open>unsuback.go\<close>, \<open>pingresp.go\<close>).

  A packet whose only field is its packet identifier is represented by that identifier. The locale
  \<open>packet_codec\<close> is the contract of a packet type that the client both packs and parses; it is
  interpreted for PUBLISH, PUBACK, PUBREC, PUBREL and PUBCOMP. The packets that the client only
  sends are checked against decoders written from the MQTT 3.1.1 packet formats.
\<close>

subsection \<open>Acknowledgements: PUBACK, PUBREC, PUBREL, PUBCOMP, UNSUBACK\<close>

type_synonym pktPubAck = uint16
type_synonym pktPubRec = uint16
type_synonym pktPubRel = uint16
type_synonym pktPubComp = uint16
type_synonym pktUnsubAck = uint16

definition pktPubAck_Parse :: "byte \<Rightarrow> byte list \<Rightarrow> pktPubAck result" where
  "pktPubAck_Parse flag contents =
     (if flag \<noteq> 0 then failE ErrInvalidPacket ''parsing PUBACK''
      else if length contents < 2 then failE ErrInvalidPacketLength ''parsing PUBACK''
      else bindO (unpackUint16 contents) (\<lambda>(_, id). Ret id))"

definition pktPubAck_Pack :: "pktPubAck \<Rightarrow> byte list result" where
  "pktPubAck_Pack p = pack packetPubAck [packUint16 p]"

definition pktPubRec_Parse :: "byte \<Rightarrow> byte list \<Rightarrow> pktPubRec result" where
  "pktPubRec_Parse flag contents =
     (if flag \<noteq> 0 then failE ErrInvalidPacket ''parsing PUBREC''
      else if length contents < 2 then failE ErrInvalidPacketLength ''parsing PUBREC''
      else bindO (unpackUint16 contents) (\<lambda>(_, id). Ret id))"

definition pktPubRec_Pack :: "pktPubRec \<Rightarrow> byte list result" where
  "pktPubRec_Pack p = pack packetPubRec [packUint16 p]"

definition pktPubRel_Parse :: "byte \<Rightarrow> byte list \<Rightarrow> pktPubRel result" where
  "pktPubRel_Parse flag contents =
     (if flag \<noteq> 0x02 then failE ErrInvalidPacket ''parsing PUBREL''
      else if length contents < 2 then failE ErrInvalidPacketLength ''parsing PUBREL''
      else bindO (unpackUint16 contents) (\<lambda>(_, id). Ret id))"

definition pktPubRel_Pack :: "pktPubRel \<Rightarrow> byte list result" where
  "pktPubRel_Pack p = pack (packetPubRel OR packetFromClient) [packUint16 p]"

definition pktPubComp_Parse :: "byte \<Rightarrow> byte list \<Rightarrow> pktPubComp result" where
  "pktPubComp_Parse flag contents =
     (if flag \<noteq> 0 then failE ErrInvalidPacket ''parsing PUBCOMP''
      else if length contents < 2 then failE ErrInvalidPacketLength ''parsing PUBCOMP''
      else bindO (unpackUint16 contents) (\<lambda>(_, id). Ret id))"

definition pktPubComp_Pack :: "pktPubComp \<Rightarrow> byte list result" where
  "pktPubComp_Pack p = pack packetPubComp [packUint16 p]"

definition pktUnsubAck_Parse :: "byte \<Rightarrow> byte list \<Rightarrow> pktUnsubAck result" where
  "pktUnsubAck_Parse flag contents =
     (if flag \<noteq> 0 then failE ErrInvalidPacket ''parsing UNSUBACK''
      else if length contents < 2 then failE ErrInvalidPacketLength ''parsing UNSUBACK''
      else bindO (index contents 0) (\<lambda>c0. bindO (index contents 1) (\<lambda>c1.
        Ret (push_bit 8 (ucast c0) OR ucast c1))))"

subsection \<open>CONNACK, SUBACK, PINGRESP\<close>

definition ConnectionAccepted :: byte where "ConnectionAccepted = 0"
definition UnacceptableProtocolVersion :: byte where "UnacceptableProtocolVersion = 1"
definition IdentifierRejected :: byte where "IdentifierRejected = 2"
definition ServerUnavailable :: byte where "ServerUnavailable = 3"
definition BadUserNameOrPassword :: byte where "BadUserNameOrPassword = 4"
definition NotAuthorized :: byte where "NotAuthorized = 5"

definition ConnectionReturnCode_String :: "byte \<Rightarrow> string" where
  "ConnectionReturnCode_String c =
     (if c = ConnectionAccepted then ''connection accepted''
      else if c = UnacceptableProtocolVersion then ''connection refused, unacceptable protocol version''
      else if c = IdentifierRejected then ''connection refused, identifier rejected''
      else if c = ServerUnavailable then ''connection refused, Server unavailable''
      else if c = BadUserNameOrPassword then ''connection refused, bad user name or password''
      else if c = NotAuthorized then ''connection refused, not authorized''
      else ''unknown ConnectionReturnCode '' @ fmt_int 16 (uint c))"

record pktConnAck =
  SessionPresent :: bool
  Code :: byte

definition pktConnAck_Parse :: "byte \<Rightarrow> byte list \<Rightarrow> pktConnAck result" where
  "pktConnAck_Parse flag contents =
     (if flag \<noteq> 0 then failE ErrInvalidPacket ''parsing CONNACK''
      else if length contents \<noteq> 2 then failE ErrInvalidPacketLength ''parsing CONNACK''
      else bindO (index contents 0) (\<lambda>c0. bindO (index contents 1) (\<lambda>c1.
        Ret \<lparr>SessionPresent = (c0 AND 0x01 \<noteq> 0), Code = c1\<rparr>)))"

record pktSubAck =
  subAckID :: uint16
  Codes :: "byte list"

definition pktSubAck_Parse :: "byte \<Rightarrow> byte list \<Rightarrow> pktSubAck result" where
  "pktSubAck_Parse flag contents =
     (if flag \<noteq> 0 then failE ErrInvalidPacket ''parsing SUBSCK''
      else bindO (index contents 0) (\<lambda>c0. bindO (index contents 1) (\<lambda>c1.
        bindO (slice contents 2 (int (length contents))) (\<lambda>cs.
          Ret \<lparr>subAckID = push_bit 8 (ucast c0) OR ucast c1, Codes = [] @ cs\<rparr>))))"

definition pktPingResp_Parse :: "byte \<Rightarrow> byte list \<Rightarrow> unit result" where
  "pktPingResp_Parse flag contents =
     (if flag \<noteq> 0 then failE ErrInvalidPacket ''parsing PINGRESP'' else Ret ())"

subsection \<open>PUBLISH\<close>

definition publishFlagRetain :: byte where "publishFlagRetain = 0x01"
definition publishFlagQoS0 :: byte where "publishFlagQoS0 = 0x00"
definition publishFlagQoS1 :: byte where "publishFlagQoS1 = 0x02"
definition publishFlagQoS2 :: byte where "publishFlagQoS2 = 0x04"
definition publishFlagQoSMask :: byte where "publishFlagQoSMask = 0x06"
definition publishFlagDup :: byte where "publishFlagDup = 0x08"

lemmas publishFlag_defs = publishFlagRetain_def publishFlagQoS0_def publishFlagQoS1_def
  publishFlagQoS2_def publishFlagQoSMask_def publishFlagDup_def

definition publishQoS :: "byte \<Rightarrow> QoS result" where
  "publishQoS flag =
     (let q = flag AND publishFlagQoSMask in
      if q = publishFlagQoS0 then Ret QoS0
      else if q = publishFlagQoS1 then Ret QoS1
      else if q = publishFlagQoS2 then Ret QoS2
      else failE ErrInvalidPacket (''parsing PUBLISH: QoS '' @ fmt_int 10 (uint q)))"

definition pktPublish_Parse :: "byte \<Rightarrow> byte list \<Rightarrow> Message result" where
  "pktPublish_Parse flag contents =
     (let dup = (flag AND publishFlagDup) \<noteq> 0; retain = (flag AND publishFlagRetain) \<noteq> 0 in
      bindO (publishQoS flag) (\<lambda>qos.
      bindO (unpackString contents) (\<lambda>(n, topic).
      bindO (if qos \<noteq> QoS0
             then if length contents < n + 2 then failE ErrInvalidPacketLength ''parsing PUBLISH''
                  else bindO (slice contents (int n) (int (length contents))) unpackUint16
             else Ret (0, 0)) (\<lambda>(nID, id).
      bindO (slice contents (int (n + nID)) (int (length contents))) (\<lambda>payload.
        Ret \<lparr>mTopic = topic, mID = id, mQoS = qos, mRetain = retain, mDup = dup,
             mPayload = payload\<rparr>)))))"

definition publishHeader :: "Message \<Rightarrow> byte result" where
  "publishHeader m =
     (let h0 = packetPublish;
          h1 = (if mRetain m then h0 OR publishFlagRetain else h0)
      in bindO (if mQoS m = QoS0 then Ret (h1 OR publishFlagQoS0)
                else if mQoS m = QoS1 then Ret (h1 OR publishFlagQoS1)
                else if mQoS m = QoS2 then Ret (h1 OR publishFlagQoS2)
                else Panic ''invalid QoS'') (\<lambda>h2.
         Ret (if mDup m then h2 OR publishFlagDup else h2)))"

definition pktPublish_Pack :: "Message \<Rightarrow> byte list result" where
  "pktPublish_Pack m =
     bindO (publishHeader m) (\<lambda>pktHeader.
     bindO (appendString [] (mTopic m)) (\<lambda>header.
       let header' = (if mQoS m \<noteq> QoS0 then appendUint16 header (mID m) else header)
       in pack pktHeader [header', mPayload m]))"

subsection \<open>CONNECT\<close>

record pktConnect =
  cProtocolLevel :: byte
  cCleanSession :: bool
  cKeepAlive :: uint16
  cClientID :: gostring
  cUserName :: gostring
  cPassword :: gostring
  cWill :: "Message option"

definition connectFlagCleanSession :: byte where "connectFlagCleanSession = 0x02"
definition connectFlagWill :: byte where "connectFlagWill = 0x04"
definition connectFlagWillQoS0 :: byte where "connectFlagWillQoS0 = 0x00"
definition connectFlagWillQoS1 :: byte where "connectFlagWillQoS1 = 0x08"
definition connectFlagWillQoS2 :: byte where "connectFlagWillQoS2 = 0x10"
definition connectFlagWillRetain :: byte where "connectFlagWillRetain = 0x20"
definition connectFlagPassword :: byte where "connectFlagPassword = 0x40"
definition connectFlagUserName :: byte where "connectFlagUserName = 0x80"

lemmas connectFlag_defs = connectFlagCleanSession_def connectFlagWill_def connectFlagWillQoS0_def
  connectFlagWillQoS1_def connectFlagWillQoS2_def connectFlagWillRetain_def connectFlagPassword_def
  connectFlagUserName_def

definition connectWill :: "Message option \<Rightarrow> byte \<times> byte list \<Rightarrow> (byte \<times> byte list) result" where
  "connectWill will = (\<lambda>(flag, payload).
     case will of
       None \<Rightarrow> Ret (flag, payload)
     | Some w \<Rightarrow>
         let f1 = flag OR connectFlagWill;
             f2 = (if mQoS w = QoS0 then f1 OR connectFlagWillQoS0
                   else if mQoS w = QoS1 then f1 OR connectFlagWillQoS1
                   else if mQoS w = QoS2 then f1 OR connectFlagWillQoS2
                   else f1);
             f3 = (if mRetain w then f2 OR connectFlagWillRetain else f2)
         in bindO (appendString payload (mTopic w)) (\<lambda>p1.
            bindO (appendBytes p1 (mPayload w)) (\<lambda>p2. Ret (f3, p2))))"

definition connectString :: "gostring \<Rightarrow> byte \<Rightarrow> byte \<times> byte list \<Rightarrow> (byte \<times> byte list) result" where
  "connectString s f = (\<lambda>(flag, payload).
     if s \<noteq> [] then bindO (appendString payload s) (\<lambda>p. Ret (flag OR f, p)) else Ret (flag, payload))"

definition pktConnect_Pack :: "pktConnect \<Rightarrow> byte list result" where
  "pktConnect_Pack p =
     bindO (appendString [] (cClientID p)) (\<lambda>payload.
     bindO (connectWill (cWill p) ((if cCleanSession p then 0 OR connectFlagCleanSession else 0), payload)) (\<lambda>s1.
     bindO (connectString (cUserName p) connectFlagUserName s1) (\<lambda>s2.
     bindO (connectString (cPassword p) connectFlagPassword s2) (\<lambda>(flag, payload').
       pack packetConnect
         [[0x00, 0x04, 0x4D, 0x51, 0x54, 0x54, cProtocolLevel p, flag],
          packUint16 (cKeepAlive p), payload']))))"

subsection \<open>SUBSCRIBE and UNSUBSCRIBE\<close>

definition subscribeFlagQoS0 :: byte where "subscribeFlagQoS0 = 0x00"
definition subscribeFlagQoS1 :: byte where "subscribeFlagQoS1 = 0x01"
definition subscribeFlagQoS2 :: byte where "subscribeFlagQoS2 = 0x02"

lemmas subscribeFlag_defs = subscribeFlagQoS0_def subscribeFlagQoS1_def subscribeFlagQoS2_def

fun subscribePayload :: "byte list \<Rightarrow> Subscription list \<Rightarrow> byte list result" where
  "subscribePayload payload [] = Ret payload"
| "subscribePayload payload (sub # subs) =
     bindO (appendString payload (sTopic sub)) (\<lambda>p.
     bindO (if sQoS sub = QoS0 then Ret (0 OR subscribeFlagQoS0)
            else if sQoS sub = QoS1 then Ret (0 OR subscribeFlagQoS1)
            else if sQoS sub = QoS2 then Ret (0 OR subscribeFlagQoS2)
            else Panic ''invalid QoS'') (\<lambda>flag.
       subscribePayload (p @ [flag]) subs))"

definition pktSubscribe_Pack :: "uint16 \<Rightarrow> Subscription list \<Rightarrow> byte list result" where
  "pktSubscribe_Pack pid subs =
     bindO (subscribePayload [] subs) (\<lambda>payload.
       pack (packetSubscribe OR packetFromClient) [packUint16 pid, payload])"

fun unsubscribePayload :: "byte list \<Rightarrow> gostring list \<Rightarrow> byte list result" where
  "unsubscribePayload payload [] = Ret payload"
| "unsubscribePayload payload (sub # subs) =
     bindO (appendString payload sub) (\<lambda>p. unsubscribePayload p subs)"

definition pktUnsubscribe_Pack :: "uint16 \<Rightarrow> gostring list \<Rightarrow> byte list result" where
  "pktUnsubscribe_Pack pid topics =
     bindO (unsubscribePayload [] topics) (\<lambda>payload.
       pack (packetUnsubscribe OR packetFromClient) [packUint16 pid, payload])"

subsection \<open>The contract of a packet type that is packed and parsed\<close>

text \<open>
  \<open>norm\<close> is what the wire format keeps of a packet: parsing gives back \<open>norm p\<close>.
\<close>

locale packet_codec =
  fixes Pack :: "'p \<Rightarrow> byte list result"
    and Parse :: "byte \<Rightarrow> byte list \<Rightarrow> 'p result"
    and ptype :: packetType
    and ok :: "'p \<Rightarrow> bool"
    and norm :: "'p \<Rightarrow> 'p"
  assumes frame: "ok p \<Longrightarrow> \<exists>h contents. Pack p = pack h contents \<and> h AND 0xF0 = ptype
      \<and> length (concat contents) < 2 ^ 28 \<and> Parse (h AND 0x0F) (concat contents) = Ret (norm p)"
begin

lemma transmit:
  assumes "ok p"
  shows "\<exists>bs flag contents. Pack p = Ret bs
     \<and> readPacket \<lparr>rBytes = bs @ rest, rEnd = e\<rparr> = Ret (ptype, flag, contents, \<lparr>rBytes = rest, rEnd = e\<rparr>)
     \<and> Parse flag contents = Ret (norm p)"
proof -
  obtain h contents where "Pack p = pack h contents" "h AND 0xF0 = ptype"
      "length (concat contents) < 2 ^ 28" "Parse (h AND 0x0F) (concat contents) = Ret (norm p)"
    using frame [OF assms] by blast
  then show ?thesis
    using readPacket_pack [of contents h rest e] by auto
qed

lemma injective_on_wire:
  assumes "ok p" "ok q" "Pack p = Pack q"
  shows "norm p = norm q"
  using transmit [OF assms(1), of "[]" "Sentinel io_EOF"] transmit [OF assms(2), of "[]" "Sentinel io_EOF"]
    assms(3) by auto

end

lemma ack_frame:
  "\<exists>contents. pack h [packUint16 pid] = pack h contents \<and> length (concat contents) < 2 ^ 28
     \<and> length (concat contents) = 2 \<and> unpackUint16 (concat contents) = Ret (2, pid)"
  by (rule exI [of _ "[packUint16 pid]"]) (simp add: codec_simps)

interpretation pubAck: packet_codec pktPubAck_Pack pktPubAck_Parse packetPubAck "\<lambda>_. True" "\<lambda>p. p"
  using ack_frame [of packetPubAck]
  by unfold_locales (fastforce simp: pktPubAck_Pack_def pktPubAck_Parse_def packetType_defs)

interpretation pubRec: packet_codec pktPubRec_Pack pktPubRec_Parse packetPubRec "\<lambda>_. True" "\<lambda>p. p"
  using ack_frame [of packetPubRec]
  by unfold_locales (fastforce simp: pktPubRec_Pack_def pktPubRec_Parse_def packetType_defs)

interpretation pubRel: packet_codec pktPubRel_Pack pktPubRel_Parse packetPubRel "\<lambda>_. True" "\<lambda>p. p"
  using ack_frame [of "packetPubRel OR packetFromClient"]
  by unfold_locales (fastforce simp: pktPubRel_Pack_def pktPubRel_Parse_def packetType_defs)

interpretation pubComp: packet_codec pktPubComp_Pack pktPubComp_Parse packetPubComp "\<lambda>_. True" "\<lambda>p. p"
  using ack_frame [of packetPubComp]
  by unfold_locales (fastforce simp: pktPubComp_Pack_def pktPubComp_Parse_def packetType_defs)

text \<open>The packets that only a broker packs, as MQTT 3.1.1 lays them out.\<close>

definition spec_connAck :: "pktConnAck \<Rightarrow> byte list result" where
  "spec_connAck a = pack packetConnAck [[if SessionPresent a then 1 else 0, Code a]]"

definition spec_subAck :: "pktSubAck \<Rightarrow> byte list result" where
  "spec_subAck a = pack packetSubAck [packUint16 (subAckID a) @ Codes a]"

definition spec_unsubAck :: "uint16 \<Rightarrow> byte list result" where
  "spec_unsubAck pid = pack packetUnsubAck [packUint16 pid]"

definition spec_pingResp :: "unit \<Rightarrow> byte list result" where
  "spec_pingResp u = pack packetPingResp []"

interpretation connAck: packet_codec spec_connAck pktConnAck_Parse packetConnAck "\<lambda>_. True" "\<lambda>p. p"
proof
  fix a :: pktConnAck
  show "\<exists>h contents. spec_connAck a = pack h contents \<and> h AND 0xF0 = packetConnAck
      \<and> length (concat contents) < 2 ^ 28 \<and> pktConnAck_Parse (h AND 0x0F) (concat contents) = Ret a"
    by (rule exI [of _ packetConnAck], rule exI [of _ "[[if SessionPresent a then 1 else 0, Code a]]"])
      (cases a; simp add: spec_connAck_def packetType_defs pktConnAck_Parse_def)
qed

interpretation subAck: packet_codec spec_subAck pktSubAck_Parse packetSubAck "\<lambda>a. length (Codes a) < 2 ^ 28 - 2" "\<lambda>p. p"
proof
  fix a :: pktSubAck
  assume "length (Codes a) < 2 ^ 28 - 2"
  then show "\<exists>h contents. spec_subAck a = pack h contents \<and> h AND 0xF0 = packetSubAck
      \<and> length (concat contents) < 2 ^ 28 \<and> pktSubAck_Parse (h AND 0x0F) (concat contents) = Ret a"
    by (intro exI [of _ packetSubAck] exI [of _ "[packUint16 (subAckID a) @ Codes a]"])
      (cases a; simp add: spec_subAck_def packetType_defs pktSubAck_Parse_def codec_simps slice_def
        flip: join_bytes_def)
qed

interpretation unsubAck: packet_codec spec_unsubAck pktUnsubAck_Parse packetUnsubAck "\<lambda>_. True" "\<lambda>p. p"
proof
  fix pid :: uint16
  show "\<exists>h contents. spec_unsubAck pid = pack h contents \<and> h AND 0xF0 = packetUnsubAck
      \<and> length (concat contents) < 2 ^ 28 \<and> pktUnsubAck_Parse (h AND 0x0F) (concat contents) = Ret pid"
    by (intro exI [of _ packetUnsubAck] exI [of _ "[packUint16 pid]"])
      (simp add: spec_unsubAck_def packetType_defs pktUnsubAck_Parse_def codec_simps flip: join_bytes_def)
qed

interpretation pingResp: packet_codec spec_pingResp pktPingResp_Parse packetPingResp "\<lambda>_. True" "\<lambda>p. p"
  by unfold_locales (auto simp: spec_pingResp_def packetType_defs pktPingResp_Parse_def
      intro!: exI [of _ packetPingResp] exI [of _ "[]"])

subsection \<open>PUBLISH on the wire\<close>

text \<open>Messages that the PUBLISH format can carry, and what it carries of them: at QoS 0 there is
  no packet identifier.\<close>

definition publishable :: "Message \<Rightarrow> bool" where
  "publishable m \<longleftrightarrow> mQoS m \<in> {QoS0, QoS1, QoS2} \<and> mqtt_string (mTopic m)
     \<and> length (mTopic m) + length (mPayload m) + 4 < 2 ^ 28"

definition publishNorm :: "Message \<Rightarrow> Message" where
  "publishNorm m = (if mQoS m = QoS0 then m\<lparr>mID := 0\<rparr> else m)"

lemma publishHeader_ok:
  assumes "mQoS m \<in> {QoS0, QoS1, QoS2}"
  shows "\<exists>h. publishHeader m = Ret h \<and> h AND 0xF0 = packetPublish
     \<and> ((h AND 0x0F) AND publishFlagDup \<noteq> 0) = mDup m
     \<and> ((h AND 0x0F) AND publishFlagRetain \<noteq> 0) = mRetain m
     \<and> publishQoS (h AND 0x0F) = Ret (mQoS m)"
  using assms
  by (cases "mDup m"; cases "mRetain m")
    (auto simp: publishHeader_def publishQoS_def publishFlag_defs QoS_defs packetPublish_def Let_def)

definition publishContents :: "Message \<Rightarrow> byte list" where
  "publishContents m =
     (let n = of_nat (length (mTopic m)) in
      hi_byte n # lo_byte n # mTopic m @ (if mQoS m \<noteq> QoS0 then [hi_byte (mID m), lo_byte (mID m)] else [])
        @ mPayload m)"

lemma slice_from: "n \<le> length xs \<Longrightarrow> slice xs (int n) (int (length xs)) = Ret (drop n xs)"
  by (simp add: slice_def)

lemma slice_from2: "n + 2 \<le> length xs \<Longrightarrow> slice xs (int n + 2) (int (length xs)) = Ret (drop (n + 2) xs)"
  using slice_from [of "n + 2" xs] by (simp add: add.commute)

lemma publish_parse_contents:
  assumes "publishQoS flag = Ret (mQoS m)" "(flag AND publishFlagDup \<noteq> 0) = mDup m"
    "(flag AND publishFlagRetain \<noteq> 0) = mRetain m" "mqtt_string (mTopic m)"
  shows "pktPublish_Parse flag (publishContents m) = Ret (publishNorm m)"
proof -
  let ?n = "length (mTopic m)"
  let ?tail = "(if mQoS m \<noteq> QoS0 then [hi_byte (mID m), lo_byte (mID m)] else []) @ mPayload m"
  let ?c = "publishContents m"
  have c: "?c = hi_byte (of_nat ?n) # lo_byte (of_nat ?n) # mTopic m @ ?tail"
    by (simp add: publishContents_def Let_def)
  have u: "unpackString ?c = Ret (?n + 2, mTopic m)"
    unfolding c by (rule unpackString_mqtt [OF assms(4)])
  have d: "drop (?n + 2) ?c = ?tail" and l: "length ?c = ?n + 2 + length ?tail"
    by (simp_all add: c)
  have d': "drop (?n + 2 + 2) ?c = drop 2 ?tail"
    by (simp add: d [symmetric] drop_drop add.commute)
  have s: "slice ?c (int (?n + 2)) (int (length ?c)) = (Ret ?tail :: byte list result)"
    using slice_from [of "?n + 2" ?c] l d by simp
  show ?thesis
  proof (cases "mQoS m = QoS0")
    case True
    then show ?thesis using assms u s
      by (cases m) (simp add: pktPublish_Parse_def Let_def publishNorm_def)
  next
    case False
    then have s2: "slice ?c (int (?n + 2 + 2)) (int (length ?c)) = (Ret (mPayload m) :: byte list result)"
      using slice_from [of "?n + 2 + 2" ?c] l d' by simp
    show ?thesis using False assms u s s2 l
      by (simp add: pktPublish_Parse_def Let_def publishNorm_def algebra_simps)
  qed
qed

lemma publish_pack_contents:
  assumes "publishHeader m = Ret h" "length (mTopic m) \<le> 0xFFFF"
  shows "\<exists>cs. pktPublish_Pack m = pack h cs \<and> concat cs = publishContents m"
  using assms by (auto simp: pktPublish_Pack_def publishContents_def codec_simps Let_def)

interpretation publish: packet_codec pktPublish_Pack pktPublish_Parse packetPublish publishable publishNorm
proof
  fix m assume ok: "publishable m"
  obtain h where h: "publishHeader m = Ret h" "h AND 0xF0 = packetPublish"
     "((h AND 0x0F) AND publishFlagDup \<noteq> 0) = mDup m"
     "((h AND 0x0F) AND publishFlagRetain \<noteq> 0) = mRetain m"
     "publishQoS (h AND 0x0F) = Ret (mQoS m)"
    using publishHeader_ok [of m] ok by (auto simp: publishable_def)
  obtain cs where cs: "pktPublish_Pack m = pack h cs" "concat cs = publishContents m"
    using publish_pack_contents [OF h(1)] ok by (auto simp: publishable_def mqtt_string_def)
  have "length (publishContents m) < 2 ^ 28"
    using ok by (auto simp: publishContents_def publishable_def Let_def)
  moreover have "pktPublish_Parse (h AND 0x0F) (publishContents m) = Ret (publishNorm m)"
    using publish_parse_contents [OF h(5,3,4)] ok by (simp add: publishable_def)
  ultimately show "\<exists>h contents. pktPublish_Pack m = pack h contents \<and> h AND 0xF0 = packetPublish
      \<and> length (concat contents) < 2 ^ 28 \<and> pktPublish_Parse (h AND 0x0F) (concat contents) = Ret (publishNorm m)"
    using h(2) cs by metis
qed

subsection \<open>Decoders from the packet formats\<close>

text \<open>
  What a broker reads, written from MQTT 3.1.1 sections 3.1 (CONNECT), 3.8 (SUBSCRIBE) and 3.10
  (UNSUBSCRIBE). They are specifications: no code of the package corresponds to them.
\<close>

fun spec_field :: "byte list \<Rightarrow> (byte list \<times> byte list) option" where
  "spec_field (h # l # rest) =
     (let n = unat (join_bytes h l) in
      if n \<le> length rest then Some (take n rest, drop n rest) else None)"
| "spec_field _ = None"

fun spec_subscribe :: "nat \<Rightarrow> byte list \<Rightarrow> Subscription list option" where
  "spec_subscribe 0 bs = (if bs = [] then Some [] else None)"
| "spec_subscribe (Suc k) bs =
     (case spec_field bs of
        Some (topic, q # rest) \<Rightarrow>
          map_option (\<lambda>subs. \<lparr>sTopic = topic, sQoS = q\<rparr> # subs) (spec_subscribe k rest)
      | _ \<Rightarrow> None)"

fun spec_unsubscribe :: "nat \<Rightarrow> byte list \<Rightarrow> gostring list option" where
  "spec_unsubscribe 0 bs = (if bs = [] then Some [] else None)"
| "spec_unsubscribe (Suc k) bs =
     (case spec_field bs of
        Some (topic, rest) \<Rightarrow> map_option (Cons topic) (spec_unsubscribe k rest)
      | None \<Rightarrow> None)"

text \<open>An optional field of the CONNECT payload: present when the flag bit is set.\<close>

definition spec_optional :: "bool \<Rightarrow> byte list \<Rightarrow> (byte list \<times> byte list) option" where
  "spec_optional present bs = (if present then spec_field bs else Some ([], bs))"

definition spec_willQoS :: "byte \<Rightarrow> QoS" where
  "spec_willQoS flag = drop_bit 3 (flag AND 0x18)"

text \<open>The rules for the flag byte of CONNECT: the reserved bit is zero; without a will there is no will QoS
  and no will retain; the will QoS is not 3; there is no password without a user name
  (MQTT-3.1.2-3, -11, -13, -14, -15, -22).\<close>

definition spec_connectFlags :: "byte \<Rightarrow> bool" where
  "spec_connectFlags flag \<longleftrightarrow>
     flag AND 0x01 = 0 \<and> (flag AND 0x04 = 0 \<longrightarrow> flag AND 0x38 = 0) \<and> flag AND 0x18 \<noteq> 0x18
     \<and> (flag AND 0x80 = 0 \<longrightarrow> flag AND 0x40 = 0)"

definition spec_connect :: "byte list \<Rightarrow> pktConnect option" where
  "spec_connect bs =
     (case bs of
        n1 # n2 # c1 # c2 # c3 # c4 # level # flag # k1 # k2 # payload \<Rightarrow>
          if [n1, n2, c1, c2, c3, c4] \<noteq> [0, 4] @ str ''MQTT'' \<or> \<not> spec_connectFlags flag then None
          else Option.bind (spec_field payload) (\<lambda>(cid, p1).
               Option.bind (spec_optional (flag AND 0x04 \<noteq> 0) p1) (\<lambda>(wtopic, p2).
               Option.bind (spec_optional (flag AND 0x04 \<noteq> 0) p2) (\<lambda>(wpayload, p3).
               Option.bind (spec_optional (flag AND 0x80 \<noteq> 0) p3) (\<lambda>(user, p4).
               Option.bind (spec_optional (flag AND 0x40 \<noteq> 0) p4) (\<lambda>(pass, p5).
                 if p5 \<noteq> [] then None
                 else Some \<lparr>cProtocolLevel = level, cCleanSession = (flag AND 0x02 \<noteq> 0),
                   cKeepAlive = join_bytes k1 k2, cClientID = cid, cUserName = user,
                   cPassword = pass,
                   cWill = (if flag AND 0x04 = 0 then None
                     else Some \<lparr>mTopic = wtopic, mID = 0, mQoS = spec_willQoS flag,
                       mRetain = (flag AND 0x20 \<noteq> 0), mDup = False, mPayload = wpayload\<rparr>)\<rparr>)))))
      | _ \<Rightarrow> None)"

text \<open>A length-prefixed field is read back.\<close>

definition field :: "byte list \<Rightarrow> byte list" where
  "field s = hi_byte (of_nat (length s)) # lo_byte (of_nat (length s)) # s"

lemma spec_field_field: "length s \<le> 0xFFFF \<Longrightarrow> spec_field (field s @ rest) = Some (s, rest)"
  by (simp add: field_def unat_of_nat_uint16)

lemma appendString_field: "length s \<le> 0xFFFF \<Longrightarrow> appendString b s = Ret (b @ field s)"
  by (simp add: codec_simps field_def Let_def)

lemma appendBytes_field: "length s \<le> 0xFFFF \<Longrightarrow> appendBytes b s = Ret (b @ field s)"
  by (simp add: codec_simps field_def Let_def)

lemma appendString_overflow: "0xFFFF < length s \<Longrightarrow> appendString b s = Panic ''string length overflow''"
  by (simp add: codec_simps)

lemma subscribePayload_spec:
  assumes "\<forall>sub \<in> set subs. sQoS sub \<in> {QoS0, QoS1, QoS2} \<and> length (sTopic sub) \<le> 0xFFFF"
  shows "\<exists>bs. subscribePayload payload subs = Ret (payload @ bs)
     \<and> length bs = (\<Sum>sub\<leftarrow>subs. length (sTopic sub) + 3)
     \<and> spec_subscribe (length subs) bs = Some subs"
  using assms
proof (induction subs arbitrary: payload)
  case Nil
  then show ?case by simp
next
  case (Cons sub subs)
  obtain bs where bs: "subscribePayload (payload @ field (sTopic sub) @ [sQoS sub]) subs
      = Ret ((payload @ field (sTopic sub) @ [sQoS sub]) @ bs)"
    "length bs = (\<Sum>sub\<leftarrow>subs. length (sTopic sub) + 3)" "spec_subscribe (length subs) bs = Some subs"
    using Cons.IH [of "payload @ field (sTopic sub) @ [sQoS sub]"] Cons.prems by auto
  have "subscribePayload payload (sub # subs)
      = subscribePayload (payload @ field (sTopic sub) @ [sQoS sub]) subs"
    using Cons.prems by (auto simp: appendString_field subscribeFlag_defs QoS_defs)
  then show ?case
    using bs Cons.prems
    by (intro exI [of _ "field (sTopic sub) @ [sQoS sub] @ bs"])
      (simp add: spec_field_field del: spec_field.simps, simp add: field_def)
qed

lemma unsubscribePayload_spec:
  assumes "\<forall>t \<in> set topics. length t \<le> 0xFFFF"
  shows "\<exists>bs. unsubscribePayload payload topics = Ret (payload @ bs)
     \<and> length bs = (\<Sum>t\<leftarrow>topics. length t + 2)
     \<and> spec_unsubscribe (length topics) bs = Some topics"
  using assms
proof (induction topics arbitrary: payload)
  case Nil
  then show ?case by simp
next
  case (Cons t topics)
  obtain bs where bs: "unsubscribePayload (payload @ field t) topics = Ret ((payload @ field t) @ bs)"
    "length bs = (\<Sum>t\<leftarrow>topics. length t + 2)" "spec_unsubscribe (length topics) bs = Some topics"
    using Cons.IH [of "payload @ field t"] Cons.prems by auto
  then show ?case
    using Cons.prems
    by (intro exI [of _ "field t @ bs"])
      (simp add: spec_field_field appendString_field del: spec_field.simps, simp add: field_def)
qed

text \<open>The CONNECT packet as one frame.\<close>

definition connectable :: "pktConnect \<Rightarrow> bool" where
  "connectable p \<longleftrightarrow> length (cClientID p) \<le> 0xFFFF \<and> length (cUserName p) \<le> 0xFFFF
     \<and> length (cPassword p) \<le> 0xFFFF
     \<and> (case cWill p of None \<Rightarrow> True
        | Some w \<Rightarrow> mQoS w \<in> {QoS0, QoS1, QoS2} \<and> length (mTopic w) \<le> 0xFFFF
                    \<and> length (mPayload w) \<le> 0xFFFF)"

text \<open>A password comes with a user name.\<close>

definition credentialsOk :: "pktConnect \<Rightarrow> bool" where
  "credentialsOk p \<longleftrightarrow> cPassword p \<noteq> [] \<longrightarrow> cUserName p \<noteq> []"

definition willFlags :: "Message option \<Rightarrow> byte" where
  "willFlags will = (case will of None \<Rightarrow> 0
     | Some w \<Rightarrow> 0x04 OR (if mQoS w = QoS1 then 0x08 else if mQoS w = QoS2 then 0x10 else 0)
                 OR (if mRetain w then 0x20 else 0))"

definition connectFlags :: "pktConnect \<Rightarrow> byte" where
  "connectFlags p = (if cCleanSession p then 0x02 else 0) OR willFlags (cWill p)
     OR (if cUserName p \<noteq> [] then 0x80 else 0) OR (if cPassword p \<noteq> [] then 0x40 else 0)"

definition optField :: "gostring \<Rightarrow> byte list" where
  "optField s = (if s \<noteq> [] then field s else [])"

definition connectPayload :: "pktConnect \<Rightarrow> byte list" where
  "connectPayload p = field (cClientID p)
     @ (case cWill p of None \<Rightarrow> [] | Some w \<Rightarrow> field (mTopic w) @ field (mPayload w))
     @ optField (cUserName p) @ optField (cPassword p)"

definition connectNorm :: "pktConnect \<Rightarrow> pktConnect" where
  "connectNorm p = p\<lparr>cWill := map_option (\<lambda>w. w\<lparr>mID := 0, mDup := False\<rparr>) (cWill p)\<rparr>"

lemma connectWill_frame:
  assumes "connectable p"
  shows "connectWill (cWill p) (f, b) = Ret (f OR willFlags (cWill p),
     b @ (case cWill p of None \<Rightarrow> [] | Some w \<Rightarrow> field (mTopic w) @ field (mPayload w)))"
  using assms
  by (auto simp: connectWill_def connectable_def willFlags_def connectFlag_defs QoS_defs Let_def
      appendString_field appendBytes_field or.assoc split: option.splits)

lemma connectString_frame:
  assumes "length s \<le> 0xFFFF"
  shows "connectString s x (f, b) =
     Ret (f OR (if s \<noteq> [] then x else 0), b @ optField s)"
  using assms by (simp add: connectString_def appendString_field optField_def)

lemma connect_frame:
  assumes "connectable p"
  shows "pktConnect_Pack p = pack packetConnect
     [[0x00, 0x04, 0x4D, 0x51, 0x54, 0x54, cProtocolLevel p, connectFlags p],
      packUint16 (cKeepAlive p), connectPayload p]"
  using assms connectWill_frame [OF assms]
  by (simp add: pktConnect_Pack_def appendString_field connectString_frame connectable_def
      connectFlags_def connectPayload_def connectFlag_defs or.assoc)

lemma connectFlags_tests:
  assumes "connectable p"
  shows "connectFlags p AND 0x04 \<noteq> 0 \<longleftrightarrow> cWill p \<noteq> None"
    and "connectFlags p AND 0x80 \<noteq> 0 \<longleftrightarrow> cUserName p \<noteq> []"
    and "connectFlags p AND 0x40 \<noteq> 0 \<longleftrightarrow> cPassword p \<noteq> []"
    and "connectFlags p AND 0x02 \<noteq> 0 \<longleftrightarrow> cCleanSession p"
    and "cWill p = Some w \<Longrightarrow> connectFlags p AND 0x20 \<noteq> 0 \<longleftrightarrow> mRetain w"
    and "cWill p = Some w \<Longrightarrow> spec_willQoS (connectFlags p) = mQoS w"
    and "connectFlags p AND 0x01 = 0"
  using assms
  by (auto simp: connectFlags_def willFlags_def connectable_def spec_willQoS_def QoS_defs
      split: option.splits)

lemma connectFlags_valid:
  assumes "connectable p"
  shows "spec_connectFlags (connectFlags p) \<longleftrightarrow> credentialsOk p"
  using assms
  by (auto simp: spec_connectFlags_def credentialsOk_def connectFlags_def willFlags_def connectable_def QoS_defs
      split: option.splits)

lemma spec_optional_field:
  "length s \<le> 0xFFFF \<Longrightarrow> present = (s \<noteq> []) \<Longrightarrow> spec_optional present (optField s @ rest) = Some (s, rest)"
  by (simp add: spec_optional_def spec_field_field optField_def)

lemma will_norm_eq:
  "(w :: Message)\<lparr>mID := 0, mDup := False\<rparr> = \<lparr>mTopic = mTopic w, mID = 0, mQoS = mQoS w,
     mRetain = mRetain w, mDup = False, mPayload = mPayload w\<rparr>"
  by (cases w) simp

lemma connectNorm_eq:
  "connectNorm p = \<lparr>cProtocolLevel = cProtocolLevel p, cCleanSession = cCleanSession p,
     cKeepAlive = cKeepAlive p, cClientID = cClientID p, cUserName = cUserName p,
     cPassword = cPassword p,
     cWill = map_option (\<lambda>w. \<lparr>mTopic = mTopic w, mID = 0, mQoS = mQoS w, mRetain = mRetain w,
       mDup = False, mPayload = mPayload w\<rparr>) (cWill p)\<rparr>"
  by (cases p) (simp add: connectNorm_def will_norm_eq)

lemma length_field: "length (field s) = length s + 2"
  by (simp add: field_def)

lemma connectPayload_length: "connectable p \<Longrightarrow> length (connectPayload p) < 400000"
  by (auto simp: connectable_def connectPayload_def optField_def length_field split: option.splits)

lemma spec_connect_invalid:
  "\<not> spec_connectFlags flag \<Longrightarrow> spec_connect ([n1, n2, c1, c2, c3, c4, level, flag] @ packUint16 k @ payload) = None"
  by (simp add: spec_connect_def codec_simps)

lemma spec_connect_frame:
  assumes "connectable p" "credentialsOk p"
  shows "spec_connect ([0x00, 0x04, 0x4D, 0x51, 0x54, 0x54, cProtocolLevel p, connectFlags p]
     @ packUint16 (cKeepAlive p) @ connectPayload p) = Some (connectNorm p)"
proof -
  note t = connectFlags_tests [OF assms(1)]
  have v: "spec_connectFlags (connectFlags p)" using connectFlags_valid [OF assms(1)] assms(2) by simp
  have l: "length (cClientID p) \<le> 0xFFFF" "length (cUserName p) \<le> 0xFFFF" "length (cPassword p) \<le> 0xFFFF"
    using assms by (simp_all add: connectable_def)
  have user: "spec_optional (connectFlags p AND 0x80 \<noteq> 0) (optField (cUserName p) @ rest)
      = Some (cUserName p, rest)" for rest
    using l t by (intro spec_optional_field) auto
  have pass: "spec_optional (connectFlags p AND 0x40 \<noteq> 0) (optField (cPassword p)) = Some (cPassword p, [])"
    using l t spec_optional_field [of "cPassword p" "connectFlags p AND 0x40 \<noteq> 0" "[]"] by auto
  show ?thesis
  proof (cases "cWill p")
    case None
    then show ?thesis
      using v t(1,4) l user pass
      by (simp add: spec_connect_def connectPayload_def codec_simps str_def
          spec_field_field spec_optional_def [of False] connectNorm_eq)
  next
    case (Some w)
    then have w: "length (mTopic w) \<le> 0xFFFF" "length (mPayload w) \<le> 0xFFFF"
      using assms by (simp_all add: connectable_def)
    show ?thesis
      using v t(1,4) t(5,6) [OF Some] l user pass w Some
      by (simp add: spec_connect_def connectPayload_def codec_simps str_def
          spec_field_field spec_optional_def [of True] connectNorm_eq)
  qed
qed

subsection \<open>Outcomes of the parsers\<close>

lemma publishQoS_outcomes:
  "publishQoS flag \<in> {Ret QoS0, Ret QoS1, Ret QoS2} \<or> (\<exists>f. publishQoS flag = failE ErrInvalidPacket f)"
  by (auto simp: publishQoS_def Let_def)

lemma unpackString_outcomes:
  "(\<exists>s n. unpackString b = Ret (n, s) \<and> n \<le> length b)
   \<or> (\<exists>f. unpackString b = failE ErrInvalidPacketLength f \<or> unpackString b = failE ErrInvalidRune f)"
proof (cases "length b < 2")
  case True
  then show ?thesis by (auto simp: unpackString_def)
next
  case False
  then obtain h l rest where "b = h # l # rest" by (cases b; cases "tl b") auto
  then show ?thesis by (auto simp: unpackString_Cons find_badRune_runes Let_def)
qed

lemma publish_parse_after_topic:
  assumes "publishQoS flag = Ret q" "q \<in> {QoS0, QoS1, QoS2}" "unpackString contents = Ret (n, s)" "n \<le> length contents"
  shows "(\<exists>m. pktPublish_Parse flag contents = Ret m \<and> mQoS m \<in> {QoS0, QoS1, QoS2})
   \<or> (\<exists>s f. pktPublish_Parse flag contents = failE s f)"
proof -
  consider (qos0) "q = QoS0" | (short) "q \<noteq> QoS0" "length contents < n + 2" | (long) "q \<noteq> QoS0" "n + 2 \<le> length contents"
    by linarith
  then show ?thesis
  proof cases
    case qos0
    then show ?thesis using assms by (simp add: pktPublish_Parse_def slice_from)
  next
    case short
    then have "pktPublish_Parse flag contents = failE ErrInvalidPacketLength ''parsing PUBLISH''"
      using assms by (simp add: pktPublish_Parse_def failE_def)
    then show ?thesis by blast
  next
    case long
    then have "length (drop n contents) \<ge> 2" by simp
    then show ?thesis
      using assms long by (simp add: pktPublish_Parse_def slice_from slice_from2 unpackUint16_long)
  qed
qed

lemma publish_parse_outcomes:
  "(\<exists>m. pktPublish_Parse flag contents = Ret m \<and> mQoS m \<in> {QoS0, QoS1, QoS2})
   \<or> (\<exists>s f. pktPublish_Parse flag contents = failE s f)"
proof (cases "\<exists>f. publishQoS flag = failE ErrInvalidPacket f")
  case True
  then obtain f where "pktPublish_Parse flag contents = failE ErrInvalidPacket f"
    by (auto simp: pktPublish_Parse_def failE_def)
  then show ?thesis by blast
next
  case False
  then obtain q where q: "publishQoS flag = Ret q" "q \<in> {QoS0, QoS1, QoS2}"
    using publishQoS_outcomes [of flag] by blast
  consider (topic) n s where "unpackString contents = Ret (n, s)" "n \<le> length contents"
    | (error) s f where "unpackString contents = failE s f"
    using unpackString_outcomes [of contents] by blast
  then show ?thesis
  proof cases
    case topic
    then show ?thesis by (rule publish_parse_after_topic [OF q])
  next
    case error
    then have "pktPublish_Parse flag contents = failE s f"
      using q by (simp add: pktPublish_Parse_def failE_def)
    then show ?thesis by blast
  qed
qed

subsection \<open>Properties\<close>

text \<open>C22: a message that the PUBLISH format can carry (QoS 0 to 2, a topic that MQTT allows) is
  recovered from the wire: packing it, reading the packet from the stream and parsing it gives the
  same topic, payload, QoS, retain and dup flags and, above QoS 0, the same identifier.\<close>

theorem publish_roundtrip:
  assumes "publishable m"
  shows "\<exists>bs flag contents. pktPublish_Pack m = Ret bs
     \<and> readPacket \<lparr>rBytes = bs @ rest, rEnd = e\<rparr>
         = Ret (packetPublish, flag, contents, \<lparr>rBytes = rest, rEnd = e\<rparr>)
     \<and> pktPublish_Parse flag contents = Ret (publishNorm m)"
  using assms by (rule publish.transmit)

theorem publish_roundtrip_witness:
  "\<exists>bs flag contents.
     pktPublish_Pack \<lparr>mTopic = str ''a/b'', mID = 513, mQoS = 2, mRetain = True, mDup = True, mPayload = [1, 2]\<rparr> = Ret bs
     \<and> readPacket \<lparr>rBytes = bs @ [7], rEnd = Sentinel io_EOF\<rparr>
         = Ret (packetPublish, flag, contents, \<lparr>rBytes = [7], rEnd = Sentinel io_EOF\<rparr>)
     \<and> pktPublish_Parse flag contents = Ret (publishNorm
         \<lparr>mTopic = str ''a/b'', mID = 513, mQoS = 2, mRetain = True, mDup = True, mPayload = [1, 2]\<rparr>)"
  by (rule publish_roundtrip)
    (simp add: publishable_def QoS_defs mqtt_string_def str_def valid_utf8_ascii runes_ascii del: runes.simps)

text \<open>Every packet identifier survives the wire in each of the four publish acknowledgements,
  and each is told apart by its packet type.\<close>

theorem acks_roundtrip:
  "(\<exists>bs fl c. pktPubAck_Pack pid = Ret bs \<and> pktPubAck_Parse fl c = Ret pid
      \<and> readPacket \<lparr>rBytes = bs @ rest, rEnd = e\<rparr> = Ret (packetPubAck, fl, c, \<lparr>rBytes = rest, rEnd = e\<rparr>))
   \<and> (\<exists>bs fl c. pktPubRec_Pack pid = Ret bs \<and> pktPubRec_Parse fl c = Ret pid
      \<and> readPacket \<lparr>rBytes = bs @ rest, rEnd = e\<rparr> = Ret (packetPubRec, fl, c, \<lparr>rBytes = rest, rEnd = e\<rparr>))
   \<and> (\<exists>bs fl c. pktPubRel_Pack pid = Ret bs \<and> pktPubRel_Parse fl c = Ret pid
      \<and> readPacket \<lparr>rBytes = bs @ rest, rEnd = e\<rparr> = Ret (packetPubRel, fl, c, \<lparr>rBytes = rest, rEnd = e\<rparr>))
   \<and> (\<exists>bs fl c. pktPubComp_Pack pid = Ret bs \<and> pktPubComp_Parse fl c = Ret pid
      \<and> readPacket \<lparr>rBytes = bs @ rest, rEnd = e\<rparr> = Ret (packetPubComp, fl, c, \<lparr>rBytes = rest, rEnd = e\<rparr>))
   \<and> distinct [packetPubAck, packetPubRec, packetPubRel, packetPubComp]"
  using pubAck.transmit [of pid rest e] pubRec.transmit [of pid rest e]
    pubRel.transmit [of pid rest e] pubComp.transmit [of pid rest e]
  by (intro conjI) (blast+, simp add: packetType_defs)

text \<open>C27: the CONNECT packet says what the options say: when no password is given without a user name, the
  lengths fit in 16 bits and the will QoS is 0, 1 or 2, a broker that reads the packet by the layout and the
  flag rules of MQTT 3.1.1 accepts it and gets the protocol level, clean-session flag, keep-alive, client
  identifier, user name, password and will (topic, payload, QoS and retain flag) of the request, and
  nothing else. (That the strings are UTF-8 is not part of this reading.)\<close>

theorem connect_read_by_broker:
  assumes "connectable p" "credentialsOk p"
  shows "\<exists>bs c. pktConnect_Pack p = Ret bs
     \<and> readPacket \<lparr>rBytes = bs @ rest, rEnd = e\<rparr> = Ret (packetConnect, 0, c, \<lparr>rBytes = rest, rEnd = e\<rparr>)
     \<and> spec_connect c = Some (connectNorm p) \<and> c ! 7 AND 0x01 = 0"
proof -
  let ?cs = "[[0x00, 0x04, 0x4D, 0x51, 0x54, 0x54, cProtocolLevel p, connectFlags p],
      packUint16 (cKeepAlive p), connectPayload p]"
  have "length (concat ?cs) < 2 ^ 28"
    using connectPayload_length [OF assms(1)] by (simp add: codec_simps)
  from readPacket_pack [OF this, of packetConnect rest e] show ?thesis
    using spec_connect_frame [OF assms] connectFlags_tests(7) [OF assms(1)]
    by (auto simp: connect_frame [OF assms(1)] packetType_defs codec_simps)
qed

theorem connect_read_by_broker_witness:
  "\<exists>bs c. pktConnect_Pack \<lparr>cProtocolLevel = 4, cCleanSession = True, cKeepAlive = 60,
       cClientID = str ''cli'', cUserName = str ''u'', cPassword = str ''p'',
       cWill = Some \<lparr>mTopic = str ''w'', mID = 0, mQoS = 1, mRetain = True, mDup = False, mPayload = [1]\<rparr>\<rparr> = Ret bs
     \<and> readPacket \<lparr>rBytes = bs @ [], rEnd = Sentinel io_EOF\<rparr>
         = Ret (packetConnect, 0, c, \<lparr>rBytes = [], rEnd = Sentinel io_EOF\<rparr>)
     \<and> spec_connect c = Some (connectNorm \<lparr>cProtocolLevel = 4, cCleanSession = True, cKeepAlive = 60,
       cClientID = str ''cli'', cUserName = str ''u'', cPassword = str ''p'',
       cWill = Some \<lparr>mTopic = str ''w'', mID = 0, mQoS = 1, mRetain = True, mDup = False, mPayload = [1]\<rparr>\<rparr>)
     \<and> c ! 7 AND 0x01 = 0"
  by (rule connect_read_by_broker) (simp_all add: connectable_def credentialsOk_def QoS_defs str_def)

text \<open>A SUBSCRIBE packet carries the identifier and, in order, exactly the requested topic
  filters with their QoS.\<close>

theorem subscribe_read_by_broker:
  assumes "\<forall>sub \<in> set subs. sQoS sub \<in> {QoS0, QoS1, QoS2} \<and> length (sTopic sub) \<le> 0xFFFF"
    and "(\<Sum>sub\<leftarrow>subs. length (sTopic sub) + 3) + 2 < 2 ^ 28"
  shows "\<exists>bs c. pktSubscribe_Pack pid subs = Ret bs
     \<and> readPacket \<lparr>rBytes = bs @ rest, rEnd = e\<rparr>
         = Ret (packetSubscribe, 0x02, hi_byte pid # lo_byte pid # c, \<lparr>rBytes = rest, rEnd = e\<rparr>)
     \<and> spec_subscribe (length subs) c = Some subs"
proof -
  obtain c where "subscribePayload [] subs = Ret ([] @ c)"
    "length c = (\<Sum>sub\<leftarrow>subs. length (sTopic sub) + 3)" "spec_subscribe (length subs) c = Some subs"
    using subscribePayload_spec [OF assms(1)] by blast
  then show ?thesis
    using assms(2) readPacket_pack [of "[packUint16 pid, c]" "packetSubscribe OR packetFromClient" rest e]
    by (auto simp: pktSubscribe_Pack_def codec_simps packetType_defs)
qed

theorem subscribe_read_by_broker_witness:
  "\<exists>bs c. pktSubscribe_Pack 10 [\<lparr>sTopic = str ''a/#'', sQoS = 1\<rparr>, \<lparr>sTopic = str ''b'', sQoS = 2\<rparr>] = Ret bs
     \<and> readPacket \<lparr>rBytes = bs @ [], rEnd = Sentinel io_EOF\<rparr>
         = Ret (packetSubscribe, 0x02, hi_byte 10 # lo_byte 10 # c, \<lparr>rBytes = [], rEnd = Sentinel io_EOF\<rparr>)
     \<and> spec_subscribe (length [\<lparr>sTopic = str ''a/#'', sQoS = 1\<rparr>, \<lparr>sTopic = str ''b'', sQoS = 2\<rparr>]) c
         = Some [\<lparr>sTopic = str ''a/#'', sQoS = 1\<rparr>, \<lparr>sTopic = str ''b'', sQoS = 2\<rparr>]"
  by (rule subscribe_read_by_broker) (simp_all add: QoS_defs)

text \<open>An UNSUBSCRIBE packet carries the identifier and, in order, exactly the topic filters.\<close>

theorem unsubscribe_read_by_broker:
  assumes "\<forall>t \<in> set topics. length t \<le> 0xFFFF" and "(\<Sum>t\<leftarrow>topics. length t + 2) + 2 < 2 ^ 28"
  shows "\<exists>bs c. pktUnsubscribe_Pack pid topics = Ret bs
     \<and> readPacket \<lparr>rBytes = bs @ rest, rEnd = e\<rparr>
         = Ret (packetUnsubscribe, 0x02, hi_byte pid # lo_byte pid # c, \<lparr>rBytes = rest, rEnd = e\<rparr>)
     \<and> spec_unsubscribe (length topics) c = Some topics"
proof -
  obtain c where "unsubscribePayload [] topics = Ret ([] @ c)"
    "length c = (\<Sum>t\<leftarrow>topics. length t + 2)" "spec_unsubscribe (length topics) c = Some topics"
    using unsubscribePayload_spec [OF assms(1)] by blast
  then show ?thesis
    using assms(2) readPacket_pack [of "[packUint16 pid, c]" "packetUnsubscribe OR packetFromClient" rest e]
    by (auto simp: pktUnsubscribe_Pack_def codec_simps packetType_defs)
qed

theorem unsubscribe_read_by_broker_witness:
  "\<exists>bs c. pktUnsubscribe_Pack 10 [str ''a/#'', str ''b''] = Ret bs
     \<and> readPacket \<lparr>rBytes = bs @ [], rEnd = Sentinel io_EOF\<rparr>
         = Ret (packetUnsubscribe, 0x02, hi_byte 10 # lo_byte 10 # c, \<lparr>rBytes = [], rEnd = Sentinel io_EOF\<rparr>)
     \<and> spec_unsubscribe (length [str ''a/#'', str ''b'']) c = Some [str ''a/#'', str ''b'']"
  by (rule unsubscribe_read_by_broker) simp_all

text \<open>C34: no packet contents from the broker make the CONNACK, PUBLISH, PUBACK, PUBREC, PUBREL,
  PUBCOMP, UNSUBACK or PINGRESP parser panic; a PUBLISH is accepted only with QoS 0, 1 or 2.\<close>

theorem parsers_never_panic:
  "\<not> is_Panic (pktConnAck_Parse flag c) \<and> \<not> is_Panic (pktPublish_Parse flag c)
   \<and> \<not> is_Panic (pktPubAck_Parse flag c) \<and> \<not> is_Panic (pktPubRec_Parse flag c)
   \<and> \<not> is_Panic (pktPubRel_Parse flag c) \<and> \<not> is_Panic (pktPubComp_Parse flag c)
   \<and> \<not> is_Panic (pktUnsubAck_Parse flag c) \<and> \<not> is_Panic (pktPingResp_Parse flag c)
   \<and> pktPublish_Parse flag c \<notin> {Ret m | m. mQoS m \<notin> {QoS0, QoS1, QoS2}}"
  using publish_parse_outcomes [of flag c]
  by (auto simp: pktConnAck_Parse_def pktPubAck_Parse_def pktPubRec_Parse_def pktPubRel_Parse_def
      pktPubComp_Parse_def pktUnsubAck_Parse_def pktPingResp_Parse_def failE_def unpackUint16_long index_def)

text \<open>The SUBACK parser does not check the length of the packet: contents shorter than two bytes
  make it panic, every longer one with zero flags is accepted with one code per remaining byte.\<close>

theorem suback_parse_total:
  "pktSubAck_Parse flag contents =
     (if flag \<noteq> 0 then failE ErrInvalidPacket ''parsing SUBSCK''
      else if length contents < 2 then Panic ''index out of range''
      else Ret \<lparr>subAckID = join_bytes (contents ! 0) (contents ! 1), Codes = drop 2 contents\<rparr>)"
proof (cases contents)
  case Nil
  then show ?thesis by (simp add: pktSubAck_Parse_def)
next
  case (Cons c0 cs)
  then show ?thesis
    by (cases cs) (simp_all add: pktSubAck_Parse_def slice_def join_bytes_def)
qed

text \<open>A password without a user name is sent with the password flag set and the user name flag
  clear, which MQTT 3.1.1 forbids (MQTT-3.1.2-22); a broker that checks the flags refuses the packet.\<close>

theorem connect_password_without_username:
  assumes "connectable p" "cUserName p = []" "cPassword p \<noteq> []"
  shows "\<exists>bs c. pktConnect_Pack p = Ret bs
     \<and> readPacket \<lparr>rBytes = bs, rEnd = e\<rparr> = Ret (packetConnect, 0, c, \<lparr>rBytes = [], rEnd = e\<rparr>)
     \<and> c ! 7 AND connectFlagPassword \<noteq> 0 \<and> c ! 7 AND connectFlagUserName = 0 \<and> spec_connect c = None"
proof -
  let ?cs = "[[0x00, 0x04, 0x4D, 0x51, 0x54, 0x54, cProtocolLevel p, connectFlags p],
      packUint16 (cKeepAlive p), connectPayload p]"
  have "length (concat ?cs) < 2 ^ 28"
    using connectPayload_length [OF assms(1)] by (simp add: codec_simps)
  moreover have "\<not> spec_connectFlags (connectFlags p)"
    using connectFlags_valid [OF assms(1)] assms(2,3) by (simp add: credentialsOk_def)
  ultimately show ?thesis
    using readPacket_pack [of ?cs packetConnect "[]" e] spec_connect_invalid [of "connectFlags p"]
      connectFlags_tests(2,3) [OF assms(1)] assms(2,3)
    by (auto simp: connect_frame [OF assms(1)] packetType_defs codec_simps connectFlag_defs)
qed

theorem connect_password_without_username_witness:
  "\<exists>bs c. pktConnect_Pack \<lparr>cProtocolLevel = 4, cCleanSession = False, cKeepAlive = 0,
       cClientID = str ''cli'', cUserName = [], cPassword = str ''p'', cWill = None\<rparr> = Ret bs
     \<and> readPacket \<lparr>rBytes = bs, rEnd = Sentinel io_EOF\<rparr>
         = Ret (packetConnect, 0, c, \<lparr>rBytes = [], rEnd = Sentinel io_EOF\<rparr>)
     \<and> c ! 7 AND connectFlagPassword \<noteq> 0 \<and> c ! 7 AND connectFlagUserName = 0 \<and> spec_connect c = None"
  by (rule connect_password_without_username) (simp_all add: connectable_def str_def)

end
