(* ===== verification/UniqId.thy ===== *)
theory UniqId
  imports Prelude
begin

text \<open>
  \<open>uniqid.go\<close>: packet identifiers. \<open>idLast\<close> is the \<open>uint32\<close> counter of the client;
  \<open>atomic.AddUint32\<close> wraps at 2^32. The random start of \<open>initID\<close> is the argument \<open>r\<close>, the value
  that \<open>rand.Int31n(0xFFFE)\<close> returned, below \<open>0xFFFE\<close>.

  The locale \<open>id_source\<close> is the contract that the requests of the client rely on: identifiers are
  never zero and the identifiers of a window of 65535 calls are distinct.
\<close>

definition initID :: "uint32 \<Rightarrow> uint32" where
  "initID r = r + 1"

lemma mod_succ: "(x mod 4294967296 + 1) mod 65536 = (x + 1) mod (65536 :: int)"
proof -
  have "x mod 4294967296 mod 65536 = x mod 65536" by (simp add: mod_mod_cancel)
  then show ?thesis by (metis mod_add_left_eq)
qed

lemma ucast_succ: "(ucast (x + 1 :: uint32) :: uint16) = ucast x + 1"
  by transfer (simp add: take_bit_eq_mod mod_mod_cancel mod_succ)

function newID :: "uint32 \<Rightarrow> uint16 \<times> uint32" where
  "newID idLast =
     (let idLast' = idLast + 1; pid = ucast idLast' in
      if pid = 0 then newID idLast' else (pid, idLast'))"
  by pat_completeness auto
termination
  by (relation "measure (\<lambda>x. if (ucast x + 1 :: uint16) = 0 then 1 else 0)") (auto simp: ucast_succ)

declare newID.simps [simp del]

text \<open>The identifier given after \<open>pid\<close>, and the identifiers of \<open>k\<close> calls in a row.\<close>

definition nextID :: "uint16 \<Rightarrow> uint16" where
  "nextID pid = (if pid + 1 = 0 then 1 else pid + 1)"

lemma newID_nextID: "newID x = (nextID (ucast x), snd (newID x)) \<and> ucast (snd (newID x)) = nextID (ucast x)"
proof (cases "(ucast x + 1 :: uint16) = 0")
  case True
  have "newID x = newID (x + 1)"
    using True by (simp add: newID.simps [of x] ucast_succ)
  also have "\<dots> = (1, x + 1 + 1)"
    using True ucast_succ [of "x + 1"] ucast_succ [of x] by (simp add: newID.simps [of "x + 1"])
  finally show ?thesis
    using True ucast_succ [of "x + 1"] ucast_succ [of x] by (simp add: nextID_def)
next
  case False
  then show ?thesis by (simp add: newID.simps [of x] ucast_succ nextID_def)
qed

fun newIDs :: "nat \<Rightarrow> uint32 \<Rightarrow> uint16 list" where
  "newIDs 0 idLast = []"
| "newIDs (Suc k) idLast = (case newID idLast of (pid, idLast') \<Rightarrow> pid # newIDs k idLast')"

text \<open>On natural numbers the identifiers count \<open>1, 2, ..., 65535, 1, 2, ...\<close>.\<close>

lemma unat_nextID: "unat (nextID pid) = unat pid mod 65535 + 1"
proof (cases "pid + 1 = 0")
  case True
  then have "pid = 0xFFFF" by (simp add: eq_neg_iff_add_eq_0 [symmetric])
  with True show ?thesis by (simp add: nextID_def)
next
  case False
  then have "unat (pid + 1) = unat pid + 1" using unatSuc [of pid] by (simp add: add.commute)
  moreover have "unat (pid + 1) < 65536" using unsigned_less [of "pid + 1", where 'a = nat] by simp
  ultimately show ?thesis using False by (simp add: nextID_def)
qed

text \<open>Counting on from \<open>p\<close> by \<open>nextID\<close>.\<close>

lemma newIDs_nat:
  "map unat (newIDs k x) = map (\<lambda>j. (unat (ucast x :: uint16) + j) mod 65535 + 1) [0..<k]"
proof (induction k arbitrary: x)
  case 0
  then show ?case by simp
next
  case (Suc k)
  obtain x' where x': "newID x = (nextID (ucast x), x')" "ucast x' = nextID (ucast x)"
    using newID_nextID [of x] by (metis snd_conv)
  let ?p = "unat (ucast x :: uint16)"
  have "(unat (nextID (ucast x)) + j) mod 65535 = (?p + Suc j) mod 65535" for j
    by (simp add: unat_nextID) (metis add_Suc mod_Suc_eq mod_add_left_eq)
  then show ?case
    using Suc.IH [of x'] x' by (simp add: unat_nextID upt_conv_Cons map_Suc_upt [symmetric] del: upt_Suc)
qed

lemma mod_window_eq: "i \<le> j \<Longrightarrow> j < m \<Longrightarrow> (p + i) mod m = (p + j) mod m \<Longrightarrow> i = j" for i j m p :: nat
proof -
  assume ij: "i \<le> j" "j < m" and eq: "(p + i) mod m = (p + j) mod m"
  then have "m dvd (p + j) - (p + i)" using mod_eq_dvd_iff_nat [of "p + i" "p + j" m] by simp
  then have "m dvd j - i" by simp
  with ij show "i = j" by (auto dest: dvd_imp_le)
qed

lemma inj_mod_window: "k \<le> m \<Longrightarrow> inj_on (\<lambda>j. (p + j) mod m + 1) {0..<k}" for p m :: nat
proof (rule inj_onI)
  fix i j assume k: "k \<le> m" and ij: "i \<in> {0..<k}" "j \<in> {0..<k}"
    and eq: "(p + i) mod m + 1 = (p + j) mod m + 1"
  then show "i = j"
    using mod_window_eq [of i j m p] mod_window_eq [of j i m p] by (cases "i \<le> j") auto
qed

subsection \<open>The contract of an identifier source\<close>

locale id_source =
  fixes next_id :: "'s \<Rightarrow> uint16 \<times> 's" and window :: nat
  assumes nonzero: "fst (next_id s) \<noteq> 0"
    and window_distinct: "k \<le> window \<Longrightarrow>
      distinct (map (\<lambda>i. fst (next_id (((\<lambda>s. snd (next_id s)) ^^ i) s))) [0..<k])"
begin

text \<open>An identifier just issued differs from the next ones, up to the window: a request in flight
  keeps its identifier to itself until \<open>window\<close> later requests have been issued.\<close>

lemma no_reuse:
  assumes "0 < i" "i < window"
  shows "fst (next_id (((\<lambda>s. snd (next_id s)) ^^ i) s)) \<noteq> fst (next_id s)"
proof -
  have "distinct (map (\<lambda>i. fst (next_id (((\<lambda>s. snd (next_id s)) ^^ i) s))) [0..<Suc i])"
    using window_distinct [of "Suc i" s] assms(2) by simp
  then have "\<forall>a < Suc i. \<forall>b < Suc i. a \<noteq> b \<longrightarrow>
      fst (next_id (((\<lambda>s. snd (next_id s)) ^^ a) s)) \<noteq> fst (next_id (((\<lambda>s. snd (next_id s)) ^^ b) s))"
    by (simp add: distinct_conv_nth del: upt_Suc)
  then show ?thesis using assms(1) by (metis funpow_0 lessI less_SucI not_less_eq zero_less_Suc less_irrefl)
qed

end

lemma newIDs_eq: "newIDs k x = map (\<lambda>i. fst (newID (((\<lambda>s. snd (newID s)) ^^ i) x))) [0..<k]"
proof (induction k arbitrary: x)
  case (Suc k)
  have "((\<lambda>s. snd (newID s)) ^^ i) (snd (newID x)) = snd (newID (((\<lambda>s. snd (newID s)) ^^ i) x))" for i
    using funpow_swap1 [of "\<lambda>s. snd (newID s)" i x] by simp
  with Suc show ?case
    by (simp add: upt_conv_Cons map_Suc_upt [symmetric] case_prod_beta o_def del: upt_Suc)
qed simp

lemma newIDs_distinct: "k \<le> 65535 \<Longrightarrow> distinct (newIDs k x)"
proof -
  assume "k \<le> 65535"
  then have "distinct (map unat (newIDs k x))"
    using inj_mod_window [of k 65535] by (simp add: newIDs_nat distinct_map)
  then show ?thesis by (simp add: distinct_map)
qed

interpretation ids: id_source newID 65535
proof
  fix x :: uint32
  have "unat (fst (newID x)) \<noteq> 0"
    using newID_nextID [of x] unat_nextID [of "ucast x"] by (metis add_is_0 fst_conv one_neq_zero)
  then show "fst (newID x) \<noteq> 0" by auto
next
  fix k and x :: uint32 assume "k \<le> (65535 :: nat)"
  then show "distinct (map (\<lambda>i. fst (newID (((\<lambda>s. snd (newID s)) ^^ i) x))) [0..<k])"
    using newIDs_distinct [of k x] by (simp add: newIDs_eq)
qed

subsection \<open>Properties\<close>

text \<open>C29: identifiers are never zero and any 65535 identifiers taken in a row are pairwise distinct,
  from any state of the counter, across the wrap-around of the 16-bit identifier and of the 32-bit
  counter; and every such window contains every identifier from 1 to 65535.\<close>

theorem newIDs_unique:
  "distinct (newIDs 65535 x) \<and> set (newIDs 65535 x) = {pid. pid \<noteq> 0}"
proof -
  have d: "distinct (newIDs 65535 x)" by (rule newIDs_distinct) simp
  have nz: "set (newIDs 65535 x) \<subseteq> - {0}" by (auto simp: newIDs_eq ids.nonzero)
  have "length (newIDs 65535 x) = 65535" by (simp add: newIDs_eq)
  then have "card (set (newIDs 65535 x)) = card (- {0 :: uint16})"
    using distinct_card [OF d] by (simp add: Compl_eq_Diff_UNIV card_Diff_singleton card_word)
  with nz have "set (newIDs 65535 x) = - {0}" by (intro card_subset_eq) auto
  with d show ?thesis by auto
qed

text \<open>A request keeps its identifier to itself until 65535 later identifiers have been issued.\<close>

theorem newID_no_reuse:
  assumes "0 < i" "i < 65535"
  shows "fst (newID (((\<lambda>s. snd (newID s)) ^^ i) x)) \<noteq> fst (newID x)"
  using assms by (rule ids.no_reuse)

theorem newID_no_reuse_witness:
  "fst (newID (((\<lambda>s. snd (newID s)) ^^ 3) (initID 0xFFFD))) \<noteq> fst (newID (initID 0xFFFD))"
  by (rule newID_no_reuse) simp_all

end
