(* ===== verification/FilteredPipe.thy ===== *)
theory FilteredPipe
  imports Errors
begin

text \<open>
  \<open>internal/filteredpipe\<close>: the in-memory transports of the repository, and the writer contract that
  the client relies on.

  A pipe has two channels of chunks, of capacity 1000, and one close signal shared by both ends. The
  handler of an end is user code that inspects the written data; its verdict on a write is the
  argument \<open>detected\<close>. A transport's \<open>Write\<close> returns the new transport and its outcome: \<open>Ret n\<close> for
  \<open>(n, nil)\<close>, \<open>Fail e\<close> for an error, \<open>Hang\<close> for a write that blocks. The reading side is theory
  \<open>PipeStream\<close>.
\<close>

record pipe =
  pChan :: "bool \<Rightarrow> byte list list"
  pClosed :: bool

record filterConn =
  fPipe :: pipe
  fWCh :: bool
  fDropping :: bool

definition chanCap :: nat where
  "chanCap = 1000"

text \<open>The close function of \<open>newCloseCh\<close>: closing twice is closing once.\<close>

definition fnClose :: "filterConn \<Rightarrow> filterConn" where
  "fnClose c = c\<lparr>fPipe := (fPipe c)\<lparr>pClosed := True\<rparr>\<rparr>"

definition filterConn_Close :: "filterConn \<Rightarrow> filterConn \<times> goerror option" where
  "filterConn_Close c = (fnClose c, None)"

text \<open>The final \<open>select\<close> of both \<open>Write\<close> methods on a pipe that is not closed: the chunk is queued
  when the channel has room; a full channel blocks.\<close>

definition pipeSend :: "filterConn \<Rightarrow> byte list \<Rightarrow> filterConn \<times> int result" where
  "pipeSend c cp =
     (let q = pChan (fPipe c) (fWCh c) in
      if length q < chanCap
      then (c\<lparr>fPipe := (fPipe c)\<lparr>pChan := (pChan (fPipe c))(fWCh c := q @ [cp])\<rparr>\<rparr>, Ret (int (length cp)))
      else (c, Hang))"

definition detectAndCloseConn_Write :: "bool \<Rightarrow> filterConn \<Rightarrow> byte list \<Rightarrow> filterConn \<times> int result" where
  "detectAndCloseConn_Write detected c data =
     (if detected then (fnClose c, Fail (Sentinel io_ErrClosedPipe))
      else if pClosed (fPipe c) then (c, Fail (Sentinel io_ErrClosedPipe))
      else pipeSend c ([] @ data))"

definition detectAndDropConn_Write :: "bool \<Rightarrow> filterConn \<Rightarrow> byte list \<Rightarrow> filterConn \<times> int result" where
  "detectAndDropConn_Write detected c data =
     (let c1 = (if detected then c\<lparr>fDropping := True\<rparr> else c) in
      if pClosed (fPipe c1) then (c1, Fail (Sentinel io_ErrClosedPipe))
      else if fDropping c1 then (c1, Ret (int (length data)))
      else pipeSend c1 ([] @ data))"

text \<open>
  The contract of \<open>io.Writer\<close>: a write that returns no error has written everything, and no write
  panics. Both pipes keep it.
\<close>

locale io_writer =
  fixes tWrite :: "'t \<Rightarrow> byte list \<Rightarrow> 't \<times> int result"
  assumes full_write: "tWrite t p = (t', Ret n) \<Longrightarrow> n = int (length p)"
    and no_panic: "snd (tWrite t p) \<noteq> Panic s"

interpretation closePipe: io_writer "detectAndCloseConn_Write detected"
  by unfold_locales
    (auto simp: detectAndCloseConn_Write_def pipeSend_def Let_def split: if_splits)

interpretation dropPipe: io_writer "detectAndDropConn_Write detected"
  by unfold_locales
    (auto simp: detectAndDropConn_Write_def pipeSend_def Let_def split: if_splits)

end
