(* ===== verification/Client.thy ===== *)
theory Client
  imports ControlPackets UniqId FilteredPipe
begin

text \<open>
  The state of a \<open>BaseClient\<close> (\<open>client.go\<close>), its write loop, its ping statistics, the signaller
  that connects requests with the acknowledgements read by the serve loop, and the connection state
  (\<open>conn.go\<close>).

  The transport is code outside the client: its state is of a type \<open>'t\<close> and its \<open>Write\<close> is an argument
  \<open>tWrite\<close> of the operations. Handlers are values of a type \<open>'h\<close>. A Go channel of acknowledgements
  is an address into the store \<open>chans\<close>, which holds its buffer; all of them have capacity one. A nil
  channel map behaves as an empty one. Mutexes have no counterpart: every operation between lock and
  unlock is one step.
\<close>

subsection \<open>Statistics\<close>

text \<open>A \<open>time.Duration\<close> counts nanoseconds in 64 bits and is compared as a signed number. The difference of
  two times (\<open>Time.Sub\<close>) is cut off at the largest and smallest duration.\<close>

type_synonym Duration = "64 word"

definition timeSub :: "int \<Rightarrow> int \<Rightarrow> Duration" where
  "timeSub t u = word_of_int (max (- (2 ^ 63)) (min (2 ^ 63 - 1) (t - u)))"

record BaseStats =
  PingDelayRecent :: Duration
  PingDelayMax :: Duration
  PingDelayMin :: Duration
  CountPingError :: "64 word"

definition storePingDelay :: "Duration \<Rightarrow> BaseStats \<Rightarrow> BaseStats" where
  "storePingDelay d s =
     (let s1 = s\<lparr>PingDelayRecent := d\<rparr>;
          s2 = (if sint (PingDelayMax s1) < sint d then s1\<lparr>PingDelayMax := d\<rparr> else s1)
      in if sint (PingDelayMin s2) > sint d \<or> PingDelayMin s2 = 0 then s2\<lparr>PingDelayMin := d\<rparr> else s2)"

definition storePingError :: "BaseStats \<Rightarrow> BaseStats" where
  "storePingError s = s\<lparr>PingDelayRecent := 0, CountPingError := CountPingError s + 1\<rparr>"

definition zeroStats :: BaseStats where
  "zeroStats = \<lparr>PingDelayRecent = 0, PingDelayMax = 0, PingDelayMin = 0, CountPingError = 0\<rparr>"

subsection \<open>The write loop\<close>

partial_function (option) writeLoop ::
  "('t \<Rightarrow> byte list \<Rightarrow> 't \<times> int result) \<Rightarrow> byte list \<Rightarrow> int \<Rightarrow> 't \<Rightarrow> ('t \<times> unit result) option" where
  "writeLoop tWrite b i t =
     (let l = int (length b) in
      if i < l then
        (case slice b i (l - i) of
           Ret p \<Rightarrow>
             (case tWrite t p of
                (t', Ret n) \<Rightarrow> writeLoop tWrite b (i + n) t'
              | (t', Fail e) \<Rightarrow> Some (t', Fail e)
              | (t', Panic s) \<Rightarrow> Some (t', Panic s)
              | (t', Hang) \<Rightarrow> Some (t', Hang))
         | Fail e \<Rightarrow> Some (t, Fail e)
         | Panic s \<Rightarrow> Some (t, Panic s)
         | Hang \<Rightarrow> Some (t, Hang))
      else Some (t, Ret ()))"

text \<open>A loop that does not end never returns: \<open>Hang\<close>.\<close>

definition writeAll :: "('t \<Rightarrow> byte list \<Rightarrow> 't \<times> int result) \<Rightarrow> 't \<Rightarrow> byte list \<Rightarrow> 't \<times> unit result" where
  "writeAll tWrite t b = (case writeLoop tWrite b 0 t of Some r \<Rightarrow> r | None \<Rightarrow> (t, Hang))"

subsection \<open>Signaller\<close>

datatype ackPkt =
    AckConn pktConnAck | AckPing | AckPub uint16 | AckRec uint16 | AckComp uint16
  | AckSub pktSubAck | AckUnsub uint16

type_synonym chan = nat

record signaller =
  chConnAck :: "chan option"
  chPingResp :: "chan option"
  chPubAck :: "uint16 \<rightharpoonup> chan"
  chPubRec :: "uint16 \<rightharpoonup> chan"
  chPubComp :: "uint16 \<rightharpoonup> chan"
  chSubAck :: "uint16 \<rightharpoonup> chan"
  chUnsubAck :: "uint16 \<rightharpoonup> chan"

definition newSignaller :: signaller where
  "newSignaller = \<lparr>chConnAck = None, chPingResp = None, chPubAck = Map.empty, chPubRec = Map.empty,
     chPubComp = Map.empty, chSubAck = Map.empty, chUnsubAck = Map.empty\<rparr>"

definition sigConnAck :: "signaller \<Rightarrow> chan option" where
  "sigConnAck s = chConnAck s"

definition sigPingResp :: "signaller \<Rightarrow> chan option" where
  "sigPingResp s = chPingResp s"

text \<open>The five lookups: they return the channel of an identifier and delete its entry.\<close>

definition sigPubAck :: "signaller \<Rightarrow> uint16 \<Rightarrow> signaller \<times> chan option" where
  "sigPubAck s pid = (let ch = chPubAck s pid in (s\<lparr>chPubAck := (chPubAck s)(pid := None)\<rparr>, ch))"

definition sigPubRec :: "signaller \<Rightarrow> uint16 \<Rightarrow> signaller \<times> chan option" where
  "sigPubRec s pid = (let ch = chPubRec s pid in (s\<lparr>chPubRec := (chPubRec s)(pid := None)\<rparr>, ch))"

definition sigPubComp :: "signaller \<Rightarrow> uint16 \<Rightarrow> signaller \<times> chan option" where
  "sigPubComp s pid = (let ch = chPubComp s pid in (s\<lparr>chPubComp := (chPubComp s)(pid := None)\<rparr>, ch))"

definition sigSubAck :: "signaller \<Rightarrow> uint16 \<Rightarrow> signaller \<times> chan option" where
  "sigSubAck s pid = (let ch = chSubAck s pid in (s\<lparr>chSubAck := (chSubAck s)(pid := None)\<rparr>, ch))"

definition sigUnsubAck :: "signaller \<Rightarrow> uint16 \<Rightarrow> signaller \<times> chan option" where
  "sigUnsubAck s pid = (let ch = chUnsubAck s pid in (s\<lparr>chUnsubAck := (chUnsubAck s)(pid := None)\<rparr>, ch))"

subsection \<open>The client\<close>

text \<open>\<open>connClosed\<close> is a channel that is only ever closed.\<close>

datatype closeChan = ChanNil | ChanOpen | ChanClosed

record ('t, 'h) BaseClient =
  Transport :: 't
  MaxPayloadLen :: int
  bHandler :: "'h option"
  sig :: "signaller option"
  connState :: ConnState
  bErr :: "goerror option"
  connClosed :: closeChan
  idLast :: uint32
  stats :: BaseStats
  chans :: "chan \<Rightarrow> ackPkt list"
  nextChan :: chan
  stateCalls :: "(ConnState \<times> goerror option) list"
  serveLoops :: nat

text \<open>\<open>stateCalls\<close> records the calls of the \<open>ConnState\<close> callback, oldest first, and \<open>serveLoops\<close> counts
  the serve goroutines that are running. A client is created with a transport and otherwise zero
  values.\<close>

definition newClient :: "'t \<Rightarrow> ('t, 'h) BaseClient" where
  "newClient t = \<lparr>Transport = t, MaxPayloadLen = 0, bHandler = None, sig = None, connState = StateNew,
     bErr = None, connClosed = ChanNil, idLast = 0, stats = zeroStats, chans = (\<lambda>_. []), nextChan = 0,
     stateCalls = [], serveLoops = 0\<rparr>"

lemma newClient_sel [simp]:
  "Transport (newClient t) = t" "sig (newClient t) = None" "bHandler (newClient t) = None"
  "connState (newClient t) = StateNew" "bErr (newClient t) = None" "connClosed (newClient t) = ChanNil"
  "chans (newClient t) = (\<lambda>_. [])" "nextChan (newClient t) = 0" "serveLoops (newClient t) = 0"
  "MaxPayloadLen (newClient t) = 0" "stateCalls (newClient t) = []"
  by (simp_all add: newClient_def)

definition Stats :: "('t, 'h) BaseClient \<Rightarrow> BaseStats" where
  "Stats c = stats c"

text \<open>The accessor of the signaller (\<open>BaseClient.signaller\<close>): it is nil until \<open>Connect\<close>.\<close>

definition client_signaller :: "('t, 'h) BaseClient \<Rightarrow> signaller result" where
  "client_signaller c = (case sig c of None \<Rightarrow> Fail (Sentinel ErrNotConnected) | Some s \<Rightarrow> Ret s)"

lemma case_client_signaller [simp]:
  "(case client_signaller c of Ret s \<Rightarrow> f s | Fail e \<Rightarrow> g e | Panic x \<Rightarrow> p x | Hang \<Rightarrow> h)
     = (case sig c of None \<Rightarrow> g (Sentinel ErrNotConnected) | Some s \<Rightarrow> f s)"
  by (simp add: client_signaller_def split: option.splits)

definition Handle :: "('t, 'h) BaseClient \<Rightarrow> 'h option \<Rightarrow> ('t, 'h) BaseClient" where
  "Handle c h = c\<lparr>bHandler := h\<rparr>"

definition clientWrite ::
  "('t \<Rightarrow> byte list \<Rightarrow> 't \<times> int result) \<Rightarrow> ('t, 'h) BaseClient \<Rightarrow> byte list \<Rightarrow> ('t, 'h) BaseClient \<times> unit result" where
  "clientWrite tWrite c b = (case writeAll tWrite (Transport c) b of (t', r) \<Rightarrow> (c\<lparr>Transport := t'\<rparr>, r))"

text \<open>\<open>make(chan T, 1)\<close>, and a send in a \<open>select\<close> with \<open>default\<close>: a nil channel or a full buffer drops
  the value.\<close>

definition makeChan :: "('t, 'h) BaseClient \<Rightarrow> ('t, 'h) BaseClient \<times> chan" where
  "makeChan c = (c\<lparr>chans := (chans c)(nextChan c := []), nextChan := nextChan c + 1\<rparr>, nextChan c)"

definition trySend :: "('t, 'h) BaseClient \<Rightarrow> chan option \<Rightarrow> ackPkt \<Rightarrow> ('t, 'h) BaseClient" where
  "trySend c ch p =
     (case ch of
        None \<Rightarrow> c
      | Some k \<Rightarrow> if length (chans c k) < 1 then c\<lparr>chans := (chans c)(k := chans c k @ [p])\<rparr> else c)"

subsection \<open>Connection state (conn.go)\<close>

definition SetErrorOnce :: "('t, 'h) BaseClient \<Rightarrow> goerror option \<Rightarrow> ('t, 'h) BaseClient" where
  "SetErrorOnce c e = (if bErr c = None then c\<lparr>bErr := e\<rparr> else c)"

definition connStateUpdate :: "('t, 'h) BaseClient \<Rightarrow> ConnState \<Rightarrow> ('t, 'h) BaseClient" where
  "connStateUpdate c newState =
     (let lastState = connState c;
          c1 = (if connState c \<noteq> StateDisconnected then c\<lparr>connState := newState\<rparr> else c);
          state = connState c1;
          err = bErr c1
      in if lastState \<noteq> state then c1\<lparr>stateCalls := stateCalls c1 @ [(state, err)]\<rparr> else c1)"

definition Done :: "('t, 'h) BaseClient \<Rightarrow> closeChan" where
  "Done c = connClosed c"

definition Err :: "('t, 'h) BaseClient \<Rightarrow> goerror option" where
  "Err c = bErr c"

definition ValidateMessage :: "('t, 'h) BaseClient \<Rightarrow> Message \<Rightarrow> unit result" where
  "ValidateMessage c message =
     (if MaxPayloadLen c \<noteq> 0 \<and> int (length (mPayload message)) \<ge> MaxPayloadLen c
      then failE ErrPayloadLenExceeded (''payload length '' @ fmt_int 10 (int (length (mPayload message))))
      else if mQoS message > QoS2
      then failE ErrInvalidQoS (''QoS'' @ fmt_int 10 (uint (mQoS message)))
      else Ret ())"

subsection \<open>Writing through a transport that keeps the writer contract\<close>

lemma writeLoop_done: "writeLoop tWrite b (int (length b)) t = Some (t, Ret ())"
  by (simp add: writeLoop.simps)

context io_writer
begin

text \<open>One call of the transport with the whole packet, whose error is returned.\<close>

lemma writeAll_once:
  "writeAll tWrite t b =
     (if b = [] then (t, Ret ())
      else case tWrite t b of (t', r) \<Rightarrow> (t', bindO r (\<lambda>_. Ret ())))"
proof (cases "b = []")
  case True
  then show ?thesis by (simp add: writeAll_def writeLoop.simps)
next
  case False
  obtain t' r where tr: "tWrite t b = (t', r)" by (cases "tWrite t b")
  have slice: "slice b 0 (int (length b)) = (Ret b :: byte list result)" by simp
  show ?thesis
  proof (cases r)
    case (Ret n)
    then have "n = int (length b)" using full_write tr by blast
    then show ?thesis
      using False tr Ret slice writeLoop_done [of tWrite b t']
      by (simp add: writeAll_def writeLoop.simps [of tWrite b 0])
  qed (use False tr slice in \<open>simp_all add: writeAll_def writeLoop.simps [of tWrite b 0]\<close>)
qed

lemma clientWrite_no_panic: "snd (clientWrite tWrite c b) \<noteq> Panic s"
  using no_panic [of "Transport c" b]
  by (cases "snd (tWrite (Transport c) b)")
    (auto simp: clientWrite_def writeAll_once split: prod.splits)

end

lemma clientWrite_frame:
  "clientWrite tWrite c b = (c\<lparr>Transport := fst (writeAll tWrite (Transport c) b)\<rparr>, snd (writeAll tWrite (Transport c) b))"
  by (simp add: clientWrite_def split: prod.splits)

text \<open>A transport that accepts every write and whose written packets \<open>tlog\<close> lists.\<close>

definition accepts_all :: "('t \<Rightarrow> byte list \<Rightarrow> 't \<times> int result) \<Rightarrow> ('t \<Rightarrow> byte list list) \<Rightarrow> bool" where
  "accepts_all tWrite tlog \<longleftrightarrow>
     (\<forall>t p. \<exists>t'. tWrite t p = (t', Ret (int (length p))) \<and> tlog t' = tlog t @ [p])"

lemma accepts_all_io_writer: "accepts_all tWrite tlog \<Longrightarrow> io_writer tWrite"
  unfolding accepts_all_def io_writer_def by (metis outcome.distinct(3) outcome.inject(1) prod.inject snd_conv)

lemma clientWrite_accepts:
  assumes "accepts_all tWrite tlog" "b \<noteq> []"
  obtains t' where "clientWrite tWrite c b = (c\<lparr>Transport := t'\<rparr>, Ret ())" "tlog t' = tlog (Transport c) @ [b]"
proof -
  obtain t' where t': "tWrite (Transport c) b = (t', Ret (int (length b)))" "tlog t' = tlog (Transport c) @ [b]"
    using assms(1) unfolding accepts_all_def by blast
  have "clientWrite tWrite c b = (c\<lparr>Transport := t'\<rparr>, Ret ())"
    using io_writer.writeAll_once [OF accepts_all_io_writer [OF assms(1)], of "Transport c" b] assms(2) t'(1)
    by (simp add: clientWrite_def)
  then show ?thesis using that t'(2) by blast
qed

lemma pack_nonempty: "length (concat cs) < 2 ^ 28 \<Longrightarrow> \<exists>b. pack h cs = Ret b \<and> b \<noteq> []"
  using readPacket_pack [of cs h "[]" "Sentinel io_EOF"] by (auto simp: pack_eq bindO_eq_Ret_iff)

lemma ack_packs:
  "\<exists>b. pktPubAck_Pack pid = Ret b \<and> b \<noteq> []" "\<exists>b. pktPubRec_Pack pid = Ret b \<and> b \<noteq> []"
  "\<exists>b. pktPubComp_Pack pid = Ret b \<and> b \<noteq> []" "\<exists>b. pktPubRel_Pack pid = Ret b \<and> b \<noteq> []"
  unfolding pktPubAck_Pack_def pktPubRec_Pack_def pktPubComp_Pack_def pktPubRel_Pack_def
  by (rule pack_nonempty; simp add: codec_simps)+

text \<open>Concrete values for the examples below and in the other theories: a transport that logs what is
  written, a connected client on it, and a message.\<close>

abbreviation logWrite :: "byte list list \<Rightarrow> byte list \<Rightarrow> byte list list \<times> int result" where
  "logWrite t p \<equiv> (t @ [p], Ret (int (length p)))"

abbreviation demoClient :: "(byte list list, unit) BaseClient" where
  "demoClient \<equiv> (newClient [])\<lparr>sig := Some newSignaller, bHandler := Some ()\<rparr>"

abbreviation demoMessage :: "QoS \<Rightarrow> Message" where
  "demoMessage q \<equiv> \<lparr>mTopic = [0x61], mID = 7, mQoS = q, mRetain = False, mDup = False, mPayload = [1, 2]\<rparr>"

lemma demo_publishable: "q \<in> {0, 1, 2} \<Longrightarrow> publishable (demoMessage q)"
  by (auto simp: publishable_def QoS_defs mqtt_string_def valid_utf8_ascii runes_ascii simp del: runes.simps)

lemma demo_accepts: "accepts_all logWrite (\<lambda>t. t)"
  by (simp add: accepts_all_def)

lemma clientWrite_log: "b \<noteq> [] \<Longrightarrow> clientWrite logWrite c b = (c\<lparr>Transport := Transport c @ [b]\<rparr>, Ret ())"
  using io_writer.writeAll_once [OF accepts_all_io_writer [OF demo_accepts], of "Transport c" b]
  by (simp add: clientWrite_def)

subsection \<open>The signaller as a table of pending requests\<close>

text \<open>
  The interface between the requests, which register a channel under their identifier, and the serve
  loop, which takes it out when the acknowledgement arrives.
\<close>

locale signal_table =
  fixes get :: "'s \<Rightarrow> uint16 \<Rightarrow> chan option"
    and take_out :: "'s \<Rightarrow> uint16 \<Rightarrow> 's \<times> chan option"
    and register :: "'s \<Rightarrow> uint16 \<Rightarrow> chan \<Rightarrow> 's"
  assumes take_out_get: "snd (take_out s pid) = get s pid"
    and get_take_out: "get (fst (take_out s pid)) = (get s)(pid := None)"
    and get_register: "get (register s pid ch) = (get s)(pid := Some ch)"
begin

lemma take_registered:
  "snd (take_out (register s pid ch) pid) = Some ch"
  by (simp add: take_out_get get_register)

lemma take_once:
  "snd (take_out (fst (take_out s pid)) pid) = None"
  by (simp add: take_out_get get_take_out)

lemma take_other:
  "pid' \<noteq> pid \<Longrightarrow> snd (take_out (fst (take_out s pid)) pid') = snd (take_out s pid')"
  by (simp add: take_out_get get_take_out)

text \<open>Over a whole sequence of acknowledgements, a registered request is signalled by the first one
  with its identifier and by no later one, whatever the others are.\<close>

fun take_all :: "'s \<Rightarrow> uint16 list \<Rightarrow> chan option list" where
  "take_all s [] = []"
| "take_all s (p # ps) = snd (take_out s p) # take_all (fst (take_out s p)) ps"

lemma take_all_get:
  "i < length ps \<Longrightarrow> take_all s ps ! i = (if ps ! i \<in> set (take i ps) then None else get s (ps ! i))"
proof (induction ps arbitrary: s i)
  case (Cons p ps)
  then show ?case
    by (cases i) (auto simp: take_out_get get_take_out)
qed simp

end

definition regPubAck :: "signaller \<Rightarrow> uint16 \<Rightarrow> chan \<Rightarrow> signaller" where
  "regPubAck s pid ch = s\<lparr>chPubAck := (chPubAck s)(pid := Some ch)\<rparr>"
definition regPubRec :: "signaller \<Rightarrow> uint16 \<Rightarrow> chan \<Rightarrow> signaller" where
  "regPubRec s pid ch = s\<lparr>chPubRec := (chPubRec s)(pid := Some ch)\<rparr>"
definition regPubComp :: "signaller \<Rightarrow> uint16 \<Rightarrow> chan \<Rightarrow> signaller" where
  "regPubComp s pid ch = s\<lparr>chPubComp := (chPubComp s)(pid := Some ch)\<rparr>"
definition regSubAck :: "signaller \<Rightarrow> uint16 \<Rightarrow> chan \<Rightarrow> signaller" where
  "regSubAck s pid ch = s\<lparr>chSubAck := (chSubAck s)(pid := Some ch)\<rparr>"
definition regUnsubAck :: "signaller \<Rightarrow> uint16 \<Rightarrow> chan \<Rightarrow> signaller" where
  "regUnsubAck s pid ch = s\<lparr>chUnsubAck := (chUnsubAck s)(pid := Some ch)\<rparr>"

lemmas sig_defs [client_simps] = sigConnAck_def sigPingResp_def sigPubAck_def sigPubRec_def sigPubComp_def sigSubAck_def sigUnsubAck_def
  regPubAck_def regPubRec_def regPubComp_def regSubAck_def regUnsubAck_def

interpretation tabPubAck: signal_table chPubAck sigPubAck regPubAck
  by unfold_locales (simp_all add: client_simps)
interpretation tabPubRec: signal_table chPubRec sigPubRec regPubRec
  by unfold_locales (simp_all add: client_simps)
interpretation tabPubComp: signal_table chPubComp sigPubComp regPubComp
  by unfold_locales (simp_all add: client_simps)
interpretation tabSubAck: signal_table chSubAck sigSubAck regSubAck
  by unfold_locales (simp_all add: client_simps)
interpretation tabUnsubAck: signal_table chUnsubAck sigUnsubAck regUnsubAck
  by unfold_locales (simp_all add: client_simps)

subsection \<open>Properties\<close>

text \<open>C35: on a transport that keeps the \<open>io.Writer\<close> contract (the pipes of the repository do), \<open>write\<close>
  hands the whole packet to the transport in one call and returns its error; it always returns when
  the transport does, and never panics.\<close>

theorem write_whole_packet:
  assumes "io_writer tWrite" "b \<noteq> []" "tWrite (Transport c) b = (t', r)"
  shows "clientWrite tWrite c b = (c\<lparr>Transport := t'\<rparr>, bindO r (\<lambda>_. Ret ()))
    \<and> (r \<noteq> Hang \<longrightarrow> (\<exists>e. snd (clientWrite tWrite c b) \<in> {Ret (), Fail e}))"
proof -
  have "clientWrite tWrite c b = (c\<lparr>Transport := t'\<rparr>, bindO r (\<lambda>_. Ret ()))"
    using assms by (simp add: clientWrite_def io_writer.writeAll_once)
  moreover have "r \<noteq> Panic s" for s
    using io_writer.no_panic [OF assms(1), of "Transport c" b s] assms(3) by simp
  ultimately show ?thesis by (cases r) auto
qed

theorem write_whole_packet_witness:
  "snd (clientWrite (detectAndCloseConn_Write False)
     (newClient \<lparr>fPipe = \<lparr>pChan = (\<lambda>_. []), pClosed = False\<rparr>, fWCh = True, fDropping = False\<rparr>
        :: (filterConn, unit) BaseClient) [0xC0, 0x00]) = Ret ()"
proof -
  let ?t = "\<lparr>fPipe = \<lparr>pChan = (\<lambda>_. []), pClosed = False\<rparr>, fWCh = True, fDropping = False\<rparr>"
  let ?t' = "\<lparr>fPipe = \<lparr>pChan = (\<lambda>_. [])(True := [[0xC0, 0x00]]), pClosed = False\<rparr>, fWCh = True, fDropping = False\<rparr>"
  have "detectAndCloseConn_Write False (Transport (newClient ?t :: (filterConn, unit) BaseClient)) [0xC0, 0x00] = (?t', Ret 2)"
    by (simp add: detectAndCloseConn_Write_def pipeSend_def chanCap_def newClient_def)
  from write_whole_packet [OF closePipe.io_writer_axioms _ this] show ?thesis by simp
qed

text \<open>\<open>write\<close> loops over the rest of a packet but does not handle a short write: the second slice is taken
  as \<open>b[i : l-i]\<close>. This shows only on a transport that returns a count below the length without an error,
  against the contract of \<open>io.Writer\<close>. After a first write of more than half of the packet the slice bounds
  are inverted and \<open>write\<close> panics.\<close>

theorem write_short_panics:
  assumes "tWrite (Transport c) b = (t', Ret n)" "int (length b) < 2 * n" "n < int (length b)"
  shows "clientWrite tWrite c b = (c\<lparr>Transport := t'\<rparr>, Panic ''slice bounds out of range'')"
proof -
  have "b \<noteq> []" "0 < n" using assms by auto
  have "slice b 0 (int (length b)) = (Ret b :: byte list result)" by simp
  then have "writeLoop tWrite b 0 (Transport c) = writeLoop tWrite b n t'"
    using assms \<open>b \<noteq> []\<close> by (simp add: writeLoop.simps [of tWrite b 0])
  also have "\<dots> = Some (t', Panic ''slice bounds out of range'')"
    using assms \<open>0 < n\<close> by (simp add: writeLoop.simps [of tWrite b n] slice_def)
  finally show ?thesis by (simp add: clientWrite_def writeAll_def)
qed

theorem write_short_panics_witness:
  "clientWrite (\<lambda>t p. (t @ take 3 p, Ret (int (min 3 (length p))))) (newClient []) [1, 2, 3, 4]
     = ((newClient [])\<lparr>Transport := [1, 2, 3]\<rparr>, Panic ''slice bounds out of range'')"
  by (rule write_short_panics [where n = 3]) (simp_all add: newClient_def)

text \<open>On such a transport, after a first write of exactly half of the packet \<open>write\<close> passes empty slices to
  it forever: when it accepts an empty write, \<open>write\<close> never returns.\<close>

theorem write_half_never_returns:
  assumes "tWrite (Transport c) b = (t', Ret n)" "int (length b) = 2 * n" "0 < n"
    and "\<And>t. tWrite t [] = (t, Ret 0)"
  shows "snd (clientWrite tWrite c b) = Hang"
proof -
  have sl: "slice b n (int (length b) - n) = (Ret [] :: byte list result)"
    using assms by (simp add: slice_def)
  have never: "writeLoop tWrite b n t = None" for t
  proof (rule ccontr)
    assume "writeLoop tWrite b n t \<noteq> None"
    then obtain r where "writeLoop tWrite b n t = Some r" by blast
    moreover have "writeLoop tWrite b i t = Some r \<Longrightarrow> i = n \<Longrightarrow> False" for i t r
    proof (rule writeLoop.raw_induct [where P = "\<lambda>tw b' i t r. tw = tWrite \<longrightarrow> b' = b \<longrightarrow> i = n \<longrightarrow> False",
          THEN mp, THEN mp, THEN mp, OF _ _ refl refl])
      fix f tw b' i t r
      assume IH: "\<And>tw b' i t r. f tw b' i t = Some r \<Longrightarrow> tw = tWrite \<longrightarrow> b' = b \<longrightarrow> i = n \<longrightarrow> False"
        and eq: "(let l = int (length b') in
            if i < l then
              (case slice b' i (l - i) of
                 Ret p \<Rightarrow> (case tw t p of
                      (t', Ret n) \<Rightarrow> f tw b' (i + n) t' | (t', Fail e) \<Rightarrow> Some (t', Fail e)
                    | (t', Panic s) \<Rightarrow> Some (t', Panic s) | (t', Hang) \<Rightarrow> Some (t', Hang))
               | Fail e \<Rightarrow> Some (t, Fail e) | Panic s \<Rightarrow> Some (t, Panic s) | Hang \<Rightarrow> Some (t, Hang))
            else Some (t, Ret ())) = Some r"
      show "tw = tWrite \<longrightarrow> b' = b \<longrightarrow> i = n \<longrightarrow> False"
        using eq IH [of tWrite b n t r] assms sl by (auto simp: Let_def)
    qed
    ultimately show False by blast
  qed
  have "slice b 0 (int (length b)) = (Ret b :: byte list result)" by simp
  then have "writeLoop tWrite b 0 (Transport c) = writeLoop tWrite b n t'"
    using assms by (simp add: writeLoop.simps [of tWrite b 0])
  then show ?thesis by (simp add: clientWrite_def writeAll_def never split: prod.splits)
qed

theorem write_half_never_returns_witness:
  "snd (clientWrite (\<lambda>t p. (t @ take 2 p, Ret (int (min 2 (length p))))) (newClient []) [1, 2, 3, 4]) = Hang"
  by (rule write_half_never_returns [where n = 2]) (simp_all add: newClient_def)

text \<open>An acknowledgement is signalled at most once and to the right request. Over any sequence of
  PUBACK identifiers the channel registered for an identifier is handed out at its first occurrence
  and at no later one, and no other identifier's channel is touched.\<close>

theorem puback_signalled_once:
  assumes "i < length ps" "chPubAck s (ps ! i) = Some ch"
  shows "tabPubAck.take_all s ps ! i = (if ps ! i \<in> set (take i ps) then None else Some ch)"
  using assms by (simp add: tabPubAck.take_all_get)

theorem puback_signalled_once_witness:
  "tabPubAck.take_all (regPubAck newSignaller 7 3) [9, 7, 7] ! 1 = Some 3"
  using puback_signalled_once [of 1 "[9, 7, 7]" "regPubAck newSignaller 7 3" 3]
  by (simp add: regPubAck_def)

text \<open>The ping statistics are those of the pings that were made: over any history of answered pings, each
  with a positive delay, and failed ones, the maximum and the minimum are those of the delays (zero when
  no ping was answered), the count is the number of failures, and the recent delay is that of the last
  ping, or zero if it failed.\<close>

datatype pingOutcome = Answered Duration | Unanswered

primrec pingStored :: "pingOutcome \<Rightarrow> BaseStats \<Rightarrow> BaseStats" where
  "pingStored (Answered d) = storePingDelay d"
| "pingStored Unanswered = storePingError"

fun delays :: "pingOutcome list \<Rightarrow> Duration list" where
  "delays [] = []"
| "delays (Answered d # os) = d # delays os"
| "delays (Unanswered # os) = delays os"

lemma delays_append [simp]: "delays (xs @ ys) = delays xs @ delays ys"
  by (induction xs rule: delays.induct) simp_all

theorem ping_statistics:
  assumes "list_all (\<lambda>d. 0 < sint d) (delays os)"
  shows "PingDelayRecent (fold pingStored os zeroStats)
        = (if os = [] then 0 else case last os of Answered d \<Rightarrow> d | Unanswered \<Rightarrow> 0)
    \<and> sint (PingDelayMax (fold pingStored os zeroStats)) = (if delays os = [] then 0 else Max (sint ` set (delays os)))
    \<and> sint (PingDelayMin (fold pingStored os zeroStats)) = (if delays os = [] then 0 else Min (sint ` set (delays os)))
    \<and> CountPingError (fold pingStored os zeroStats) = of_nat (count_list os Unanswered)"
  using assms
proof (induction os rule: rev_induct)
  case Nil
  show ?case by (simp add: zeroStats_def)
next
  case (snoc x os)
  let ?s = "fold pingStored os zeroStats"
  have IH: "sint (PingDelayMax ?s) = (if delays os = [] then 0 else Max (sint ` set (delays os)))"
      "sint (PingDelayMin ?s) = (if delays os = [] then 0 else Min (sint ` set (delays os)))"
      "CountPingError ?s = of_nat (count_list os Unanswered)"
    using snoc by simp_all
  have pos: "0 < Min (sint ` set (delays os))" if "delays os \<noteq> []"
    using snoc.prems that by (simp add: list_all_iff)
  show ?case
  proof (cases x)
    case (Answered d)
    then have d: "0 < sint d" using snoc.prems by simp
    have z: "w = 0 \<longleftrightarrow> sint w = 0" for w :: Duration using signed_eq_0_iff [of w, where ?'a = int] by simp
    have "PingDelayMin ?s = 0 \<longleftrightarrow> delays os = []"
      unfolding z IH(2) using less_imp_neq [OF pos] by auto
    moreover obtain mx mn where m: "Max (sint ` set (delays os)) = mx" "Min (sint ` set (delays os)) = mn" by blast
    moreover have "delays os \<noteq> [] \<Longrightarrow> Max (insert (sint d) (sint ` set (delays os))) = max (sint d) mx"
      "delays os \<noteq> [] \<Longrightarrow> Min (insert (sint d) (sint ` set (delays os))) = min (sint d) mn" using m by simp_all
    ultimately show ?thesis
      using d Answered IH by (auto simp: storePingDelay_def Let_def)
  next
    case Unanswered
    then show ?thesis using IH by (simp add: storePingError_def)
  qed
qed

theorem ping_statistics_witness:
  "PingDelayRecent (fold pingStored [Answered 30, Unanswered, Answered 20] zeroStats) = 20
     \<and> sint (PingDelayMax (fold pingStored [Answered 30, Unanswered, Answered 20] zeroStats)) = 30
     \<and> sint (PingDelayMin (fold pingStored [Answered 30, Unanswered, Answered 20] zeroStats)) = 20
     \<and> CountPingError (fold pingStored [Answered 30, Unanswered, Answered 20] zeroStats) = 1"
  using ping_statistics [of "[Answered 30, Unanswered, Answered 20]"] by simp

text \<open>\<open>StateDisconnected\<close> is final: no update changes it or calls the state callback; any other
  state is replaced, and the callback is called exactly when the state changes, with the current
  error.\<close>

theorem connStateUpdate_cases:
  "connStateUpdate c s =
     (if connState c = StateDisconnected \<or> connState c = s then c
      else c\<lparr>connState := s, stateCalls := stateCalls c @ [(s, bErr c)]\<rparr>)"
  by (simp add: connStateUpdate_def Let_def)

text \<open>A message is accepted for publishing exactly when its QoS is at most 2 and its payload is
  shorter than \<open>MaxPayloadLen\<close>, or no maximum is set; a payload of exactly \<open>MaxPayloadLen\<close> bytes is
  refused.\<close>

theorem ValidateMessage_iff:
  "ValidateMessage c m = Ret () \<longleftrightarrow>
     (MaxPayloadLen c = 0 \<or> int (length (mPayload m)) < MaxPayloadLen c) \<and> mQoS m \<in> {QoS0, QoS1, QoS2}"
proof -
  have "mQoS m \<le> QoS2 \<longleftrightarrow> mQoS m \<in> {QoS0, QoS1, QoS2}"
  proof
    assume "mQoS m \<le> QoS2"
    then have "unat (mQoS m) \<le> 2" by (simp add: QoS_defs word_le_nat_alt)
    then have "unat (mQoS m) \<in> {0, 1, 2}" by auto
    then show "mQoS m \<in> {QoS0, QoS1, QoS2}"
      by (auto simp: QoS_defs word_unat_eq_iff)
  qed (auto simp: QoS_defs)
  then show ?thesis by (auto simp: ValidateMessage_def failE_def)
qed

end
