(* ===== verification/Requests.thy ===== *)
theory Requests
  imports Client
begin

text \<open>
  The requests of a \<open>BaseClient\<close>: \<open>publish.go\<close>, \<open>subscribe.go\<close>, \<open>unsubscribe.go\<close>, \<open>pingreq.go\<close>,
  \<open>disconnect.go\<close> and \<open>connect.go\<close>.

  A request runs until it finishes or blocks in a \<open>select\<close> over the closing of the connection, the end
  of its context and its acknowledgement channel. \<open>progress\<close> is \<open>Finished\<close> with the results of the call,
  or \<open>Waiting\<close> with what the blocked goroutine holds; \<open>resume\<close> takes a blocked request through one ready
  case of its \<open>select\<close>. Between these points a request is one step: the mutexes that the source takes
  there are released again before the step ends.

  \<open>tWrite\<close> and \<open>tClose\<close> are the \<open>Write\<close> and \<open>Close\<close> of the transport. Times are integers (nanoseconds).
\<close>

subsection \<open>Blocked requests\<close>

datatype reply = RNone | RSubs "Subscription list" | RSession bool

datatype wait =
    WPubAck Message chan | WPubRec Message chan | WPubComp Message chan
  | WSubAck uint16 "Subscription list" chan | WUnsubAck uint16 "gostring list" chan
  | WPing int chan | WConnAck chan

datatype progress = Finished "reply result" | Waiting wait

datatype selCase = SelClosed | SelCtx goerror | SelRecv

primrec waitChan :: "wait \<Rightarrow> chan" where
  "waitChan (WPubAck m ch) = ch"
| "waitChan (WPubRec m ch) = ch"
| "waitChan (WPubComp m ch) = ch"
| "waitChan (WSubAck pid subs ch) = ch"
| "waitChan (WUnsubAck pid topics ch) = ch"
| "waitChan (WPing t ch) = ch"
| "waitChan (WConnAck ch) = ch"

text \<open>\<open>return err\<close>: nil is a normal return.\<close>

primrec returnErr :: "goerror option \<Rightarrow> progress" where
  "returnErr None = Finished (Ret RNone)"
| "returnErr (Some e) = Finished (Fail e)"

text \<open>Packing a packet, writing it, and what follows each outcome.\<close>

definition sendPkt ::
  "('t \<Rightarrow> byte list \<Rightarrow> 't \<times> int result) \<Rightarrow> ('t, 'h) BaseClient \<Rightarrow> byte list result
     \<Rightarrow> (goerror \<Rightarrow> goerror option) \<Rightarrow> progress \<Rightarrow> ('t, 'h) BaseClient \<times> progress" where
  "sendPkt tWrite c pkt onErr next =
     (case pkt of
        Ret b \<Rightarrow>
          (case clientWrite tWrite c b of
             (c', Ret u) \<Rightarrow> (c', next)
           | (c', Fail e) \<Rightarrow> (c', returnErr (onErr e))
           | (c', Panic s) \<Rightarrow> (c', Finished (Panic s))
           | (c', Hang) \<Rightarrow> (c', Finished Hang))
      | Fail e \<Rightarrow> (c, Finished (Fail e))
      | Panic s \<Rightarrow> (c, Finished (Panic s))
      | Hang \<Rightarrow> (c, Finished Hang))"

definition clientNewID :: "('t, 'h) BaseClient \<Rightarrow> ('t, 'h) BaseClient \<times> uint16" where
  "clientNewID c = (case newID (idLast c) of (pid, l) \<Rightarrow> (c\<lparr>idLast := l\<rparr>, pid))"

subsection \<open>Publish\<close>

text \<open>The message is shared with the caller: its new value is returned as well. The closures
  \<open>retryPublish\<close> and \<open>retryPublish2\<close> capture it.\<close>

definition publishAssign :: "('t, 'h) BaseClient \<Rightarrow> Message \<Rightarrow> bool \<Rightarrow> ('t, 'h) BaseClient \<times> Message" where
  "publishAssign c message dup =
     (if mID message = 0
      then (case clientNewID c of (c1, pid) \<Rightarrow> (c1, message\<lparr>mID := pid, mDup := dup\<rparr>))
      else (c, message\<lparr>mDup := dup\<rparr>))"

definition publishRegister :: "('t, 'h) BaseClient \<Rightarrow> signaller \<Rightarrow> Message \<Rightarrow> ('t, 'h) BaseClient \<times> progress" where
  "publishRegister c s message =
     (if mQoS message = QoS1 then
        (case makeChan c of (c1, ch) \<Rightarrow>
           (c1\<lparr>sig := Some (regPubAck s (mID message) ch)\<rparr>, Waiting (WPubAck message ch)))
      else if mQoS message = QoS2 then
        (case makeChan c of (c1, ch) \<Rightarrow>
           (c1\<lparr>sig := Some (regPubRec s (mID message) ch)\<rparr>, Waiting (WPubRec message ch)))
      else (c, Finished (Ret RNone)))"

definition publishImpl ::
  "('t \<Rightarrow> byte list \<Rightarrow> 't \<times> int result) \<Rightarrow> ('t, 'h) BaseClient \<Rightarrow> Message \<Rightarrow> bool
     \<Rightarrow> ('t, 'h) BaseClient \<times> Message \<times> progress" where
  "publishImpl tWrite c message dup =
     (case publishAssign c message dup of (c1, msg) \<Rightarrow>
        (case client_signaller c1 of
           Fail err \<Rightarrow> (c1, msg, Finished (Fail err))
         | Panic x \<Rightarrow> (c1, msg, Finished (Panic x))
         | Hang \<Rightarrow> (c1, msg, Finished Hang)
         | Ret s \<Rightarrow>
             (case publishRegister c1 s msg of (c2, next) \<Rightarrow>
                (case sendPkt tWrite c2 (pktPublish_Pack msg)
                   (\<lambda>err. if mQoS msg > QoS0
                          then wrapErrorWithRetry (Some err) (RetryPublish msg) ''sending PUBLISH''
                          else wrapError (Some err) ''sending PUBLISH'') next of
                   (c3, p) \<Rightarrow> (c3, msg, p)))))"

definition retryPublish2 ::
  "('t \<Rightarrow> byte list \<Rightarrow> 't \<times> int result) \<Rightarrow> ('t, 'h) BaseClient \<Rightarrow> Message \<Rightarrow> ('t, 'h) BaseClient \<times> progress" where
  "retryPublish2 tWrite cli message =
     (case client_signaller cli of
        Fail err \<Rightarrow> (cli, Finished (Fail err))
      | Panic x \<Rightarrow> (cli, Finished (Panic x))
      | Hang \<Rightarrow> (cli, Finished Hang)
      | Ret s \<Rightarrow>
          (case makeChan cli of (c1, ch) \<Rightarrow>
             sendPkt tWrite (c1\<lparr>sig := Some (regPubComp s (mID message) ch)\<rparr>) (pktPubRel_Pack (mID message))
               (\<lambda>err. wrapErrorWithRetry (Some err) (RetryPublish message) ''sending PUBREL'')
               (Waiting (WPubComp message ch))))"

definition Publish ::
  "('t \<Rightarrow> byte list \<Rightarrow> 't \<times> int result) \<Rightarrow> ('t, 'h) BaseClient \<Rightarrow> Message
     \<Rightarrow> ('t, 'h) BaseClient \<times> Message \<times> progress" where
  "Publish tWrite c message =
     (case ValidateMessage c message of
        Ret u \<Rightarrow> publishImpl tWrite c message False
      | Fail e \<Rightarrow> (c, message, Finished (Fail e))
      | Panic s \<Rightarrow> (c, message, Finished (Panic s))
      | Hang \<Rightarrow> (c, message, Finished Hang))"

subsection \<open>Subscribe and Unsubscribe\<close>

definition subscribeImpl ::
  "('t \<Rightarrow> byte list \<Rightarrow> 't \<times> int result) \<Rightarrow> ('t, 'h) BaseClient \<Rightarrow> Subscription list
     \<Rightarrow> ('t, 'h) BaseClient \<times> progress" where
  "subscribeImpl tWrite c subs =
     (case clientNewID c of (c1, pid) \<Rightarrow>
        (case client_signaller c1 of
           Fail err \<Rightarrow> (c1, Finished (Fail err))
         | Panic x \<Rightarrow> (c1, Finished (Panic x))
         | Hang \<Rightarrow> (c1, Finished Hang)
         | Ret s \<Rightarrow>
             (case makeChan c1 of (c2, ch) \<Rightarrow>
                sendPkt tWrite (c2\<lparr>sig := Some (regSubAck s pid ch)\<rparr>) (pktSubscribe_Pack pid subs)
                  (\<lambda>err. wrapErrorWithRetry (Some err) (RetrySubscribe subs) ''sending SUBSCRIBE'')
                  (Waiting (WSubAck pid subs ch)))))"

definition Subscribe ::
  "('t \<Rightarrow> byte list \<Rightarrow> 't \<times> int result) \<Rightarrow> ('t, 'h) BaseClient \<Rightarrow> Subscription list
     \<Rightarrow> ('t, 'h) BaseClient \<times> progress" where
  "Subscribe tWrite c subs = subscribeImpl tWrite c subs"

definition unsubscribeImpl ::
  "('t \<Rightarrow> byte list \<Rightarrow> 't \<times> int result) \<Rightarrow> ('t, 'h) BaseClient \<Rightarrow> gostring list
     \<Rightarrow> ('t, 'h) BaseClient \<times> progress" where
  "unsubscribeImpl tWrite c subs =
     (case clientNewID c of (c1, pid) \<Rightarrow>
        (case client_signaller c1 of
           Fail err \<Rightarrow> (c1, Finished (Fail err))
         | Panic x \<Rightarrow> (c1, Finished (Panic x))
         | Hang \<Rightarrow> (c1, Finished Hang)
         | Ret s \<Rightarrow>
             (case makeChan c1 of (c2, ch) \<Rightarrow>
                sendPkt tWrite (c2\<lparr>sig := Some (regUnsubAck s pid ch)\<rparr>) (pktUnsubscribe_Pack pid subs)
                  (\<lambda>err. wrapErrorWithRetry (Some err) (RetryUnsubscribe subs) ''sending UNSUBSCRIBE'')
                  (Waiting (WUnsubAck pid subs ch)))))"

definition Unsubscribe ::
  "('t \<Rightarrow> byte list \<Rightarrow> 't \<times> int result) \<Rightarrow> ('t, 'h) BaseClient \<Rightarrow> gostring list
     \<Rightarrow> ('t, 'h) BaseClient \<times> progress" where
  "Unsubscribe tWrite c subs = unsubscribeImpl tWrite c subs"

subsection \<open>Ping and Disconnect\<close>

definition Ping ::
  "('t \<Rightarrow> byte list \<Rightarrow> 't \<times> int result) \<Rightarrow> int \<Rightarrow> ('t, 'h) BaseClient \<Rightarrow> ('t, 'h) BaseClient \<times> progress" where
  "Ping tWrite now c =
     (case client_signaller c of
        Fail err \<Rightarrow> (c, Finished (Fail err))
      | Panic x \<Rightarrow> (c, Finished (Panic x))
      | Hang \<Rightarrow> (c, Finished Hang)
      | Ret s \<Rightarrow>
          (case makeChan c of (c1, ch) \<Rightarrow>
             sendPkt tWrite (c1\<lparr>sig := Some (s\<lparr>chPingResp := Some ch\<rparr>)\<rparr>) (pack packetPingReq [])
               (\<lambda>err. wrapError (Some err) ''sending PINGREQ'') (Waiting (WPing now ch))))"

definition transportClose ::
  "('t \<Rightarrow> 't \<times> goerror option) \<Rightarrow> ('t, 'h) BaseClient \<Rightarrow> ('t, 'h) BaseClient \<times> goerror option" where
  "transportClose tClose c = (case tClose (Transport c) of (t', e) \<Rightarrow> (c\<lparr>Transport := t'\<rparr>, e))"

definition Disconnect ::
  "('t \<Rightarrow> byte list \<Rightarrow> 't \<times> int result) \<Rightarrow> ('t \<Rightarrow> 't \<times> goerror option) \<Rightarrow> ('t, 'h) BaseClient
     \<Rightarrow> ('t, 'h) BaseClient \<times> progress" where
  "Disconnect tWrite tClose c =
     (case sendPkt tWrite (connStateUpdate c StateDisconnected) (pack packetDisconnect [])
        (\<lambda>err. wrapError (Some err) ''sending DISCONNECT'') (Finished (Ret RNone)) of
        (c1, Finished (Ret u)) \<Rightarrow> (fst (transportClose tClose c1), Finished (Ret u))
      | (c1, p) \<Rightarrow> (c1, p))"

subsection \<open>Connect\<close>

record ConnectOptions =
  oUserName :: gostring
  oPassword :: gostring
  oCleanSession :: bool
  oKeepAlive :: uint16
  oWill :: "Message option"
  oProtocolLevel :: byte

definition ProtocolLevel3 :: byte where "ProtocolLevel3 = 0x03"
definition ProtocolLevel4 :: byte where "ProtocolLevel4 = 0x04"

type_synonym ConnectOption = "ConnectOptions \<Rightarrow> ConnectOptions result"

definition WithUserNamePassword :: "gostring \<Rightarrow> gostring \<Rightarrow> ConnectOption" where
  "WithUserNamePassword userName password o' = Ret (o'\<lparr>oUserName := userName, oPassword := password\<rparr>)"

definition WithKeepAlive :: "uint16 \<Rightarrow> ConnectOption" where
  "WithKeepAlive interval o' = Ret (o'\<lparr>oKeepAlive := interval\<rparr>)"

definition WithCleanSession :: "bool \<Rightarrow> ConnectOption" where
  "WithCleanSession cleanSession o' = Ret (o'\<lparr>oCleanSession := cleanSession\<rparr>)"

definition WithWill :: "Message \<Rightarrow> ConnectOption" where
  "WithWill will o' =
     (if mQoS will \<in> {QoS0, QoS1, QoS2} then Ret (o'\<lparr>oWill := Some will\<rparr>)
      else failE ErrInvalidPacket (''setting will with QoS'' @ fmt_int 10 (uint (mQoS will))))"

definition WithProtocolLevel :: "byte \<Rightarrow> ConnectOption" where
  "WithProtocolLevel level o' = Ret (o'\<lparr>oProtocolLevel := level\<rparr>)"

fun applyOptions :: "ConnectOption list \<Rightarrow> ConnectOptions \<Rightarrow> ConnectOptions result" where
  "applyOptions [] o' = Ret o'"
| "applyOptions (opt # opts) o' = bindO (opt o') (applyOptions opts)"

definition defaultOptions :: ConnectOptions where
  "defaultOptions = \<lparr>oUserName = [], oPassword = [], oCleanSession = False, oKeepAlive = 0, oWill = None,
     oProtocolLevel = ProtocolLevel4\<rparr>"

definition connectPkt :: "gostring \<Rightarrow> ConnectOptions \<Rightarrow> pktConnect" where
  "connectPkt clientID o' = \<lparr>cProtocolLevel = oProtocolLevel o', cCleanSession = oCleanSession o',
     cKeepAlive = oKeepAlive o', cClientID = clientID, cUserName = oUserName o', cPassword = oPassword o',
     cWill = oWill o'\<rparr>"

text \<open>\<open>BaseClient.init\<close>; \<open>rnd\<close> is the random number that \<open>initID\<close> draws.\<close>

definition clientInit :: "uint32 \<Rightarrow> ('t, 'h) BaseClient \<Rightarrow> ('t, 'h) BaseClient" where
  "clientInit rnd c = c\<lparr>sig := Some newSignaller, connClosed := ChanOpen, idLast := initID rnd\<rparr>"

text \<open>\<open>Connect\<close> starts the serve goroutine, whose run is modelled in theory \<open>Serve\<close>.\<close>

definition registerConnAck :: "('t, 'h) BaseClient \<Rightarrow> ('t, 'h) BaseClient \<times> chan" where
  "registerConnAck c =
     (case makeChan c of (c1, ch) \<Rightarrow>
        (c1\<lparr>sig := map_option (\<lambda>s. s\<lparr>chConnAck := Some ch\<rparr>) (sig c1)\<rparr>, ch))"

definition Connect ::
  "('t \<Rightarrow> byte list \<Rightarrow> 't \<times> int result) \<Rightarrow> uint32 \<Rightarrow> ('t, 'h) BaseClient \<Rightarrow> gostring \<Rightarrow> ConnectOption list
     \<Rightarrow> ('t, 'h) BaseClient \<times> progress" where
  "Connect tWrite rnd c clientID opts =
     (case applyOptions opts defaultOptions of
        Ret o' \<Rightarrow>
          (let c1 = clientInit rnd c;
               c2 = c1\<lparr>serveLoops := serveLoops c1 + 1\<rparr>
           in case registerConnAck c2 of (c3, ch) \<Rightarrow>
                sendPkt tWrite c3 (pktConnect_Pack (connectPkt clientID o'))
                  (\<lambda>err. wrapError (Some err) ''sending CONNECT'') (Waiting (WConnAck ch)))
      | Fail err \<Rightarrow> (c, returnErr (wrapError (Some err) ''applying options''))
      | Panic s \<Rightarrow> (c, Finished (Panic s))
      | Hang \<Rightarrow> (c, Finished Hang))"

subsection \<open>The select statements\<close>

text \<open>\<open>case <-c.connClosed\<close>.\<close>

primrec onClosed :: "wait \<Rightarrow> goerror option" where
  "onClosed (WPubAck m ch) =
     wrapErrorWithRetry (Some (Sentinel ErrClosedTransport)) (RetryPublish m) ''waiting PUBACK''"
| "onClosed (WPubRec m ch) =
     wrapErrorWithRetry (Some (Sentinel ErrClosedTransport)) (RetryPublish m) ''waiting PUBREC''"
| "onClosed (WPubComp m ch) =
     wrapErrorWithRetry (Some (Sentinel ErrClosedTransport)) (RetryPublish2 m) ''waiting PUBCOMP''"
| "onClosed (WSubAck pid subs ch) =
     wrapErrorWithRetry (Some (Sentinel ErrClosedTransport)) (RetrySubscribe subs) ''waiting SUBACK''"
| "onClosed (WUnsubAck pid topics ch) =
     wrapErrorWithRetry (Some (Sentinel ErrClosedTransport)) (RetryUnsubscribe topics) ''waiting UNSUBACK''"
| "onClosed (WPing t ch) = wrapError (Some (Sentinel ErrClosedTransport)) ''sending PINGREQ''"
| "onClosed (WConnAck ch) = Some (Sentinel ErrClosedTransport)"

text \<open>\<open>case <-ctx.Done()\<close>; \<open>err\<close> is \<open>ctx.Err()\<close>.\<close>

primrec onCtxErr :: "wait \<Rightarrow> goerror \<Rightarrow> goerror option" where
  "onCtxErr (WPubAck m ch) err = wrapErrorWithRetry (Some err) (RetryPublish m) ''waiting PUBACK''"
| "onCtxErr (WPubRec m ch) err = wrapErrorWithRetry (Some err) (RetryPublish m) ''waiting PUBREC''"
| "onCtxErr (WPubComp m ch) err = wrapErrorWithRetry (Some err) (RetryPublish2 m) ''waiting PUBCOMP''"
| "onCtxErr (WSubAck pid subs ch) err = wrapErrorWithRetry (Some err) (RetrySubscribe subs) ''waiting SUBACK''"
| "onCtxErr (WUnsubAck pid topics ch) err =
     wrapErrorWithRetry (Some err) (RetryUnsubscribe topics) ''waiting UNSUBACK''"
| "onCtxErr (WPing t ch) err = wrapError (Some err) ''waiting PINGRESP''"
| "onCtxErr (WConnAck ch) err = wrapError (Some err) ''waiting CONNACK''"

definition onCtx :: "('t, 'h) BaseClient \<Rightarrow> wait \<Rightarrow> goerror \<Rightarrow> ('t, 'h) BaseClient \<times> progress" where
  "onCtx c w err =
     ((case w of WPing t ch \<Rightarrow> c\<lparr>stats := storePingError (stats c)\<rparr> | _ \<Rightarrow> c), returnErr (onCtxErr w err))"

text \<open>The case of the acknowledgement. A channel of the source has an element type: a packet of another
  kind cannot be received from it, and the cases with \<open>Hang\<close> are never reached (theory \<open>System\<close>).\<close>

definition onSubAck ::
  "('t \<Rightarrow> 't \<times> goerror option) \<Rightarrow> ('t, 'h) BaseClient \<Rightarrow> Subscription list \<Rightarrow> pktSubAck
     \<Rightarrow> ('t, 'h) BaseClient \<times> progress" where
  "onSubAck tClose c subs subAck =
     (if length (Codes subAck) \<noteq> length subs
      then (fst (transportClose tClose c),
            Finished (failE ErrInvalidSubAck
              (''subscribing '' @ fmt_int 10 (int (length subs)) @ '' topics: ''
                @ fmt_int 10 (int (length (Codes subAck))) @ '' topics in SUBACK'')))
      else (c, Finished (Ret (RSubs (map2 (\<lambda>sub code. sub\<lparr>sQoS := code\<rparr>) subs (Codes subAck))))))"

definition onConnAck :: "('t, 'h) BaseClient \<Rightarrow> pktConnAck \<Rightarrow> ('t, 'h) BaseClient \<times> progress" where
  "onConnAck c connAck =
     (if Code connAck \<noteq> ConnectionAccepted
      then (c, returnErr (wrapError (Some (ConnectionError (Some (Sentinel ErrConnectionFailed)) (Code connAck)))
                 ''received CONNACK''))
      else (connStateUpdate c StateActive, Finished (Ret (RSession (SessionPresent connAck)))))"

definition onRecv ::
  "('t \<Rightarrow> byte list \<Rightarrow> 't \<times> int result) \<Rightarrow> ('t \<Rightarrow> 't \<times> goerror option) \<Rightarrow> int \<Rightarrow> ('t, 'h) BaseClient \<Rightarrow> wait
     \<Rightarrow> ackPkt \<Rightarrow> ('t, 'h) BaseClient \<times> progress" where
  "onRecv tWrite tClose now c w p =
     (case w of
        WPubAck m ch \<Rightarrow> (case p of AckPub i \<Rightarrow> (c, Finished (Ret RNone)) | _ \<Rightarrow> (c, Finished Hang))
      | WPubRec m ch \<Rightarrow> (case p of AckRec i \<Rightarrow> retryPublish2 tWrite c m | _ \<Rightarrow> (c, Finished Hang))
      | WPubComp m ch \<Rightarrow> (case p of AckComp i \<Rightarrow> (c, Finished (Ret RNone)) | _ \<Rightarrow> (c, Finished Hang))
      | WSubAck pid subs ch \<Rightarrow> (case p of AckSub subAck \<Rightarrow> onSubAck tClose c subs subAck | _ \<Rightarrow> (c, Finished Hang))
      | WUnsubAck pid topics ch \<Rightarrow> (case p of AckUnsub i \<Rightarrow> (c, Finished (Ret RNone)) | _ \<Rightarrow> (c, Finished Hang))
      | WPing tReq ch \<Rightarrow>
          (case p of
             AckPing \<Rightarrow> (c\<lparr>stats := storePingDelay (timeSub now tReq) (stats c)\<rparr>, Finished (Ret RNone))
           | _ \<Rightarrow> (c, Finished Hang))
      | WConnAck ch \<Rightarrow> (case p of AckConn connAck \<Rightarrow> onConnAck c connAck | _ \<Rightarrow> (c, Finished Hang)))"

text \<open>One ready case of the \<open>select\<close>; \<open>None\<close> when the case is not ready.\<close>

definition resume ::
  "('t \<Rightarrow> byte list \<Rightarrow> 't \<times> int result) \<Rightarrow> ('t \<Rightarrow> 't \<times> goerror option) \<Rightarrow> int \<Rightarrow> ('t, 'h) BaseClient \<Rightarrow> wait
     \<Rightarrow> selCase \<Rightarrow> (('t, 'h) BaseClient \<times> progress) option" where
  "resume tWrite tClose now c w sel =
     (case sel of
        SelClosed \<Rightarrow> if connClosed c = ChanClosed then Some (c, returnErr (onClosed w)) else None
      | SelCtx err \<Rightarrow> Some (onCtx c w err)
      | SelRecv \<Rightarrow>
          (case chans c (waitChan w) of
             [] \<Rightarrow> None
           | p # ps \<Rightarrow> Some (onRecv tWrite tClose now (c\<lparr>chans := (chans c)(waitChan w := ps)\<rparr>) w p)))"

text \<open>Calling a closure that an error carried, on a client.\<close>

fun runRetry ::
  "('t \<Rightarrow> byte list \<Rightarrow> 't \<times> int result) \<Rightarrow> ('t, 'h) BaseClient \<Rightarrow> retryFn \<Rightarrow> ('t, 'h) BaseClient \<times> progress" where
  "runRetry tWrite cli (RetryPublish message) =
     (case publishImpl tWrite cli message True of (c, m, p) \<Rightarrow> (c, p))"
| "runRetry tWrite cli (RetryPublish2 message) = retryPublish2 tWrite cli message"
| "runRetry tWrite cli (RetrySubscribe subs) = subscribeImpl tWrite cli subs"
| "runRetry tWrite cli (RetryUnsubscribe subs) = unsubscribeImpl tWrite cli subs"

subsection \<open>Lemmas\<close>

lemma newID_nonzero: "fst (newID l) \<noteq> 0"
  by (rule ids.nonzero)

lemma publishAssign_cases:
  assumes "publishAssign c m dup = (c', m')"
  shows "m' = m\<lparr>mID := mID m', mDup := dup\<rparr>" "mID m' \<noteq> 0" "mID m \<noteq> 0 \<Longrightarrow> mID m' = mID m \<and> c' = c"
    "\<exists>l. c' = c\<lparr>idLast := l\<rparr>"
proof -
  have eq: "publishAssign c m dup =
     (if mID m = 0 then (c\<lparr>idLast := snd (newID (idLast c))\<rparr>, m\<lparr>mID := fst (newID (idLast c)), mDup := dup\<rparr>)
      else (c, m\<lparr>mDup := dup\<rparr>))"
    by (simp add: publishAssign_def clientNewID_def split: prod.splits)
  show "m' = m\<lparr>mID := mID m', mDup := dup\<rparr>" "mID m \<noteq> 0 \<Longrightarrow> mID m' = mID m \<and> c' = c"
    using assms eq by (auto split: if_splits)
  show "mID m' \<noteq> 0"
    using assms eq newID_nonzero [of "idLast c"] by (auto split: if_splits)
  show "\<exists>l. c' = c\<lparr>idLast := l\<rparr>"
    using assms eq by (auto split: if_splits intro: exI [of _ "idLast c"])
qed

lemma sendPkt_Waiting:
  assumes "sendPkt tWrite c pkt onErr next = (c', Waiting w)"
  shows "next = Waiting w \<and> (\<exists>b. pkt = Ret b \<and> clientWrite tWrite c b = (c', Ret ()))"
proof (cases pkt)
  case (Ret b)
  obtain c1 r where cr: "clientWrite tWrite c b = (c1, r)" by (cases "clientWrite tWrite c b")
  show ?thesis
  proof (cases r)
    case (Fail e)
    then show ?thesis using assms Ret cr by (cases "onErr e") (simp_all add: sendPkt_def)
  qed (use assms Ret cr in \<open>simp_all add: sendPkt_def\<close>)
qed (use assms in \<open>simp_all add: sendPkt_def\<close>)

lemma publishRegister_Waiting:
  assumes "publishRegister c s m = (c', Waiting w)"
  shows "mQoS m = QoS1 \<and> w = WPubAck m (nextChan c) \<or> mQoS m = QoS2 \<and> w = WPubRec m (nextChan c)"
  using assms by (auto simp: publishRegister_def makeChan_def split: if_splits)

lemma publishImpl_Waiting:
  assumes "publishImpl tWrite c m dup = (c', m', Waiting w)"
  obtains c1 s c2 where "publishAssign c m dup = (c1, m')" "sig c1 = Some s"
    "publishRegister c1 s m' = (c2, Waiting w)" "\<exists>b. pktPublish_Pack m' = Ret b \<and> clientWrite tWrite c2 b = (c', Ret ())"
proof -
  obtain c1 m1 where a: "publishAssign c m dup = (c1, m1)" by (cases "publishAssign c m dup")
  obtain s where s: "sig c1 = Some s" using assms a by (cases "sig c1") (auto simp: publishImpl_def)
  obtain c2 nxt where r: "publishRegister c1 s m1 = (c2, nxt)" by (cases "publishRegister c1 s m1")
  let ?oe = "\<lambda>err. if mQoS m1 > QoS0 then wrapErrorWithRetry (Some err) (RetryPublish m1) ''sending PUBLISH''
                  else wrapError (Some err) ''sending PUBLISH''"
  have "m1 = m'" and "sendPkt tWrite c2 (pktPublish_Pack m1) ?oe nxt = (c', Waiting w)"
    using assms a s r by (simp_all add: publishImpl_def split: prod.splits)
  then show ?thesis using that a s r sendPkt_Waiting by blast
qed

lemma wrapE_chain: "Sentinel s \<in> set (chain (wrapE (Sentinel s) f))"
  by (cases "s = io_EOF") (simp_all add: wrapE_def)

lemma publish_pack_nonempty:
  assumes "publishable m"
  shows "\<exists>b. pktPublish_Pack m = Ret b \<and> b \<noteq> []"
proof -
  obtain h contents where "pktPublish_Pack m = pack h contents" "length (concat contents) < 2 ^ 28"
    using publish.frame [OF assms] by blast
  then show ?thesis using pack_nonempty [of contents h] by simp
qed

lemma sendPkt_accepts:
  assumes "accepts_all tWrite tlog" "\<exists>b. pkt = Ret b \<and> b \<noteq> []"
  shows "\<exists>b t'. pkt = Ret b \<and> tlog t' = tlog (Transport c) @ [b]
    \<and> sendPkt tWrite c pkt onErr nxt = (c\<lparr>Transport := t'\<rparr>, nxt)"
proof -
  obtain b where b: "pkt = Ret b" "b \<noteq> []" using assms(2) by blast
  obtain t' where "clientWrite tWrite c b = (c\<lparr>Transport := t'\<rparr>, Ret ())" "tlog t' = tlog (Transport c) @ [b]"
    using clientWrite_accepts [OF assms(1) b(2)] by blast
  with b show ?thesis by (auto simp: sendPkt_def)
qed

text \<open>Publishing with an identifier on a connected client whose transport accepts the packet.\<close>

lemma publishImpl_accepts:
  assumes "accepts_all tWrite tlog" "publishable m" "mID m \<noteq> 0" "sig c = Some s"
    and "publishRegister c s (m\<lparr>mDup := dup\<rparr>) = (c1, nxt)"
  shows "\<exists>b t'. pktPublish_Pack (m\<lparr>mDup := dup\<rparr>) = Ret b \<and> tlog t' = tlog (Transport c) @ [b]
    \<and> publishImpl tWrite c m dup = (c1\<lparr>Transport := t'\<rparr>, m\<lparr>mDup := dup\<rparr>, nxt)"
proof -
  have "publishable (m\<lparr>mDup := dup\<rparr>)" using assms(2) by (simp add: publishable_def)
  then have pkt: "\<exists>b. pktPublish_Pack (m\<lparr>mDup := dup\<rparr>) = Ret b \<and> b \<noteq> []" by (rule publish_pack_nonempty)
  have "Transport c1 = Transport c"
    using assms(5) by (auto simp: publishRegister_def makeChan_def split: if_splits)
  moreover have "publishAssign c m dup = (c, m\<lparr>mDup := dup\<rparr>)"
    using assms(3) by (simp add: publishAssign_def)
  moreover obtain b t' where "pktPublish_Pack (m\<lparr>mDup := dup\<rparr>) = Ret b" "tlog t' = tlog (Transport c1) @ [b]"
      "sendPkt tWrite c1 (pktPublish_Pack (m\<lparr>mDup := dup\<rparr>))
         (\<lambda>err. if mQoS (m\<lparr>mDup := dup\<rparr>) > QoS0
                then wrapErrorWithRetry (Some err) (RetryPublish (m\<lparr>mDup := dup\<rparr>)) ''sending PUBLISH''
                else wrapError (Some err) ''sending PUBLISH'') nxt = (c1\<lparr>Transport := t'\<rparr>, nxt)"
    using sendPkt_accepts [OF assms(1) pkt] by blast
  ultimately show ?thesis
    using assms(4,5) by (intro exI [of _ b] exI [of _ t']) (simp add: publishImpl_def)
qed

subsection \<open>Properties\<close>

text \<open>Before \<open>Connect\<close> (no signaller) every request returns \<open>ErrNotConnected\<close> without writing
  anything.\<close>

theorem requests_need_connect:
  assumes "sig c = None"
  shows "(\<exists>l m'. publishImpl tWrite c m dup = (c\<lparr>idLast := l\<rparr>, m', Finished (Fail (Sentinel ErrNotConnected))))
    \<and> (\<exists>l. Subscribe tWrite c subs = (c\<lparr>idLast := l\<rparr>, Finished (Fail (Sentinel ErrNotConnected))))
    \<and> (\<exists>l. Unsubscribe tWrite c topics = (c\<lparr>idLast := l\<rparr>, Finished (Fail (Sentinel ErrNotConnected))))
    \<and> Ping tWrite now c = (c, Finished (Fail (Sentinel ErrNotConnected)))
    \<and> retryPublish2 tWrite c m = (c, Finished (Fail (Sentinel ErrNotConnected)))"
proof (intro conjI)
  obtain c1 m1 where a: "publishAssign c m dup = (c1, m1)" by (cases "publishAssign c m dup")
  then obtain l where "c1 = c\<lparr>idLast := l\<rparr>" using publishAssign_cases(4) by blast
  then show "\<exists>l m'. publishImpl tWrite c m dup = (c\<lparr>idLast := l\<rparr>, m', Finished (Fail (Sentinel ErrNotConnected)))"
    using a assms by (auto simp: publishImpl_def)
qed (use assms in \<open>auto simp: Subscribe_def subscribeImpl_def Unsubscribe_def unsubscribeImpl_def Ping_def
      retryPublish2_def clientNewID_def split: prod.splits\<close>)

theorem requests_need_connect_witness:
  "Ping logWrite 0 (newClient [] :: (byte list list, unit) BaseClient)
     = (newClient [], Finished (Fail (Sentinel ErrNotConnected)))"
  using requests_need_connect [of "newClient [] :: (byte list list, unit) BaseClient" logWrite]
  by (simp add: newClient_def)

text \<open>C25: a publish that waits for its acknowledgement has a non-zero identifier (the caller's, if
  given); when the connection closes, or its context ends with an error other than \<open>io.EOF\<close>, the error
  carries a retry of the same message with the same identifier. Calling that retry on a connected client
  whose transport accepts the packet writes one packet, the same message with the same identifier and the
  DUP flag set, and waits again; the message must be publishable, that is fit in a packet.\<close>

theorem publish_retransmission:
  assumes "publishImpl tWrite c m dup = (c', m', Waiting w)" "err \<noteq> Sentinel io_EOF" "publishable m"
    and "accepts_all tWrite2 tlog" "sig c2 = Some s2"
  shows "m' = m\<lparr>mID := mID m', mDup := dup\<rparr> \<and> mID m' \<noteq> 0 \<and> (mID m \<noteq> 0 \<longrightarrow> mID m' = mID m)
    \<and> as_ErrorWithRetry (onClosed w) = Some (RetryPublish m')
    \<and> as_ErrorWithRetry (onCtxErr w err) = Some (RetryPublish m')
    \<and> (\<exists>c3 w2 b. runRetry tWrite2 c2 (RetryPublish m') = (c3, Waiting w2)
        \<and> pktPublish_Pack (m'\<lparr>mDup := True\<rparr>) = Ret b \<and> tlog (Transport c3) = tlog (Transport c2) @ [b]
        \<and> w2 \<in> {WPubAck (m'\<lparr>mDup := True\<rparr>) (nextChan c2), WPubRec (m'\<lparr>mDup := True\<rparr>) (nextChan c2)})"
proof -
  obtain c1 s c3 where w: "publishAssign c m dup = (c1, m')" "publishRegister c1 s m' = (c3, Waiting w)"
    using publishImpl_Waiting [OF assms(1)] by blast
  have q: "mQoS m' = QoS1 \<and> w = WPubAck m' (nextChan c1) \<or> mQoS m' = QoS2 \<and> w = WPubRec m' (nextChan c1)"
    by (rule publishRegister_Waiting [OF w(2)])
  note a = publishAssign_cases [OF w(1)]
  let ?m = "m'\<lparr>mDup := True\<rparr>"
  obtain c4 w2 where r: "publishRegister c2 s2 ?m = (c4, Waiting w2)"
      "w2 \<in> {WPubAck ?m (nextChan c2), WPubRec ?m (nextChan c2)}"
    using q by (auto simp: publishRegister_def makeChan_def QoS_defs)
  have "publishable (m\<lparr>mID := mID m', mDup := dup\<rparr>)" using assms(3) a(2) by (simp add: publishable_def)
  then have "publishable m'" using a(1) by simp
  from publishImpl_accepts [OF assms(4) this a(2) assms(5) r(1)] have
    "\<exists>c3 w2 b. runRetry tWrite2 c2 (RetryPublish m') = (c3, Waiting w2)
        \<and> pktPublish_Pack ?m = Ret b \<and> tlog (Transport c3) = tlog (Transport c2) @ [b]
        \<and> w2 \<in> {WPubAck ?m (nextChan c2), WPubRec ?m (nextChan c2)}"
    using r(2) by auto
  moreover have "as_ErrorWithRetry (onClosed w) = Some (RetryPublish m')"
      "as_ErrorWithRetry (onCtxErr w err) = Some (RetryPublish m')"
    using q assms(2) by (auto simp: wrapErrorWithRetry_def wrapE_def)
  ultimately show ?thesis using a(1-3) by blast
qed

theorem publish_retransmission_witness:
  "\<exists>c' w c3 w2 b. publishImpl logWrite demoClient (demoMessage 1) False = (c', demoMessage 1, Waiting w)
     \<and> as_ErrorWithRetry (onClosed w) = Some (RetryPublish (demoMessage 1))
     \<and> runRetry logWrite demoClient (RetryPublish (demoMessage 1)) = (c3, Waiting w2)
     \<and> pktPublish_Pack ((demoMessage 1)\<lparr>mDup := True\<rparr>) = Ret b \<and> Transport c3 = [b]"
proof -
  have pub: "publishable (demoMessage 1)" by (rule demo_publishable) simp
  moreover have "publishRegister demoClient newSignaller ((demoMessage 1)\<lparr>mDup := False\<rparr>)
      = (fst (publishRegister demoClient newSignaller (demoMessage 1)), Waiting (WPubAck (demoMessage 1) 0))"
    by (simp add: publishRegister_def makeChan_def QoS_defs newClient_def)
  moreover have sig: "mID (demoMessage 1) \<noteq> 0" "sig demoClient = Some newSignaller" by simp_all
  ultimately have "\<exists>b t'. pktPublish_Pack ((demoMessage 1)\<lparr>mDup := False\<rparr>) = Ret b
      \<and> t' = Transport demoClient @ [b] \<and> publishImpl logWrite demoClient (demoMessage 1) False
        = ((fst (publishRegister demoClient newSignaller (demoMessage 1)))\<lparr>Transport := t'\<rparr>,
           (demoMessage 1)\<lparr>mDup := False\<rparr>, Waiting (WPubAck (demoMessage 1) 0))"
    by (intro publishImpl_accepts [OF demo_accepts])
  then obtain c' w where
    "publishImpl logWrite demoClient (demoMessage 1) False = (c', demoMessage 1, Waiting w)"
    by auto
  with publish_retransmission [OF this, of "Sentinel io_ErrClosedPipe", OF _ pub demo_accepts sig(2)]
  show ?thesis by fastforce
qed

text \<open>C26: once the connection is closed no request stays blocked: every \<open>select\<close> has a ready case, which
  returns an error that \<open>Is\<close> finds to be \<open>ErrClosedTransport\<close>; all but pings and connects carry a retry.\<close>

theorem closed_releases_requests:
  assumes "connClosed c = ChanClosed"
  shows "\<exists>e. resume tWrite tClose now c w SelClosed = Some (c, Finished (Fail e))
    \<and> Sentinel ErrClosedTransport \<in> set (chain e)
    \<and> (as_ErrorWithRetry (Some e) = None \<longleftrightarrow> (\<exists>t ch. w = WPing t ch \<or> w = WConnAck ch))"
  using assms
  by (cases w) (auto simp: resume_def wrapErrorWithRetry_def wrapError_def wrapE_def)

theorem closed_releases_requests_witness:
  "\<exists>e. resume logWrite (\<lambda>t. (t, None)) 0 (demoClient\<lparr>connClosed := ChanClosed\<rparr>) (WPubAck (demoMessage 1) 0) SelClosed
      = Some (demoClient\<lparr>connClosed := ChanClosed\<rparr>, Finished (Fail e))
    \<and> Sentinel ErrClosedTransport \<in> set (chain e)"
  using closed_releases_requests [of "demoClient\<lparr>connClosed := ChanClosed\<rparr>" logWrite "\<lambda>t. (t, None)" 0
      "WPubAck (demoMessage 1) 0"]
  by auto

text \<open>C36: a SUBACK with one code per requested topic makes \<open>Subscribe\<close> return the topics in their order
  with the granted QoS (or 0x80); any other number of codes closes the transport and is reported as an
  invalid SUBACK.\<close>

theorem subscribe_reply:
  "if length (Codes a) = length subs
   then \<exists>subs'. onRecv tWrite tClose now c (WSubAck pid subs ch) (AckSub a) = (c, Finished (Ret (RSubs subs')))
          \<and> map sTopic subs' = map sTopic subs \<and> map sQoS subs' = Codes a
   else \<exists>f. onRecv tWrite tClose now c (WSubAck pid subs ch) (AckSub a)
          = (c\<lparr>Transport := fst (tClose (Transport c))\<rparr>, Finished (failE ErrInvalidSubAck f))"
proof -
  have "length xs = length subs \<Longrightarrow>
      map sTopic (map2 (\<lambda>sub code. sub\<lparr>sQoS := code\<rparr>) subs xs) = map sTopic subs
      \<and> map sQoS (map2 (\<lambda>sub code. sub\<lparr>sQoS := code\<rparr>) subs xs) = xs" for xs :: "byte list"
    by (induction subs arbitrary: xs) (auto simp: length_Suc_conv Suc_length_conv)
  then show ?thesis
    by (auto simp: onRecv_def onSubAck_def transportClose_def split: prod.splits)
qed

text \<open>\<open>Connect\<close> succeeds only on a CONNACK with return code 0, and then the state becomes active;
  with any other code the error carries the code of the CONNACK and \<open>Is\<close> finds it to be
  \<open>ErrConnectionFailed\<close>, and the state is left alone.\<close>

theorem connect_reply:
  "onRecv tWrite tClose now c (WConnAck ch) (AckConn a) =
     (if Code a = ConnectionAccepted then (connStateUpdate c StateActive, Finished (Ret (RSession (SessionPresent a))))
      else (c, Finished (Fail (Error (Some (ConnectionError (Some (Sentinel ErrConnectionFailed)) (Code a)))
                 ''received CONNACK''))))
   \<and> Sentinel ErrConnectionFailed \<in> set (chain (Error (Some (ConnectionError (Some (Sentinel ErrConnectionFailed)) (Code a)))
                 ''received CONNACK''))"
  by (simp add: onRecv_def onConnAck_def wrapError_def wrapE_def)

text \<open>\<open>Disconnect\<close> on a transport that accepts the packet makes the state final, writes one
  DISCONNECT packet and closes the transport.\<close>

theorem disconnect_outcome:
  assumes "accepts_all tWrite tlog"
  shows "\<exists>c' t'. Disconnect tWrite tClose c = (c', Finished (Ret RNone)) \<and> connState c' = StateDisconnected
    \<and> tlog t' = tlog (Transport c) @ [[0xE0, 0x00]] \<and> Transport c' = fst (tClose t') \<and> Err c' = Err c"
proof -
  let ?c = "connStateUpdate c StateDisconnected"
  have pkt: "pack packetDisconnect [] = Ret [0xE0, 0x00]"
    by (simp add: pack_eq remainingLength_def packetType_defs)
  then have "\<exists>b. pack packetDisconnect [] = Ret b \<and> b \<noteq> []" by simp
  from sendPkt_accepts [OF assms this, of ?c] pkt obtain t' where
    "tlog t' = tlog (Transport ?c) @ [[0xE0, 0x00]]"
    "sendPkt tWrite ?c (pack packetDisconnect []) (\<lambda>err. wrapError (Some err) ''sending DISCONNECT'') (Finished (Ret RNone))
       = (?c\<lparr>Transport := t'\<rparr>, Finished (Ret RNone))"
    by fastforce
  moreover have "Transport ?c = Transport c" "connState ?c = StateDisconnected" "bErr ?c = bErr c"
    by (simp_all add: connStateUpdate_def Let_def)
  ultimately show ?thesis
    by (intro exI [of _ "?c\<lparr>Transport := fst (tClose t')\<rparr>"] exI [of _ t'])
      (simp add: Disconnect_def transportClose_def Err_def split: prod.splits)
qed

theorem disconnect_outcome_witness:
  "\<exists>c' t'. Disconnect logWrite (\<lambda>t. (t, None)) demoClient = (c', Finished (Ret RNone))
     \<and> connState c' = StateDisconnected \<and> t' = [] @ [[0xE0, 0x00]] \<and> Transport c' = t' \<and> Err c' = None"
  using disconnect_outcome [OF demo_accepts, of "\<lambda>t. (t, None)" demoClient]
  by (auto simp: newClient_def Err_def)

end
