(* ===== verification/TopicFilter.thy ===== *)
theory TopicFilter
  imports Errors
begin

text \<open>
  \<open>filter.go\<close>: topic filters. \<open>newTopicFilter\<close> validates a filter and splits it into levels,
  \<open>Match\<close> compares the levels with those of a topic name. The specification is the wildcard matching
  of MQTT 3.1.1 section 4.7.1, as an inductive relation on levels.
\<close>

type_synonym topicFilter = "gostring list"

abbreviation slash :: byte where "slash \<equiv> 0x2F"
abbreviation plus_char :: byte where "plus_char \<equiv> 0x2B"
abbreviation hash_char :: byte where "hash_char \<equiv> 0x23"

text \<open>\<open>strings.Split(s, "/")\<close>.\<close>

fun splitSlash :: "gostring \<Rightarrow> gostring list" where
  "splitSlash [] = [[]]"
| "splitSlash (c # s) =
     (if c = slash then [] # splitSlash s
      else case splitSlash s of [] \<Rightarrow> [[c]] | l # ls \<Rightarrow> (c # l) # ls)"

definition contains :: "gostring \<Rightarrow> byte \<Rightarrow> bool" where
  "contains s c \<longleftrightarrow> c \<in> set s"

text \<open>The validation loop from level \<open>i\<close> on; \<open>n\<close> is the number of levels.\<close>

fun checkLevels :: "nat \<Rightarrow> nat \<Rightarrow> gostring list \<Rightarrow> unit result" where
  "checkLevels i n [] = Ret ()"
| "checkLevels i n (f # fs) =
     (if contains f plus_char \<and> length f \<noteq> 1 then failE ErrInvalidTopicFilter ''invalid + usage''
      else if contains f hash_char \<and> (length f \<noteq> 1 \<or> int i \<noteq> int n - 1)
           then failE ErrInvalidTopicFilter ''invalid # usage''
      else checkLevels (i + 1) n fs)"

definition newTopicFilter :: "gostring \<Rightarrow> topicFilter result" where
  "newTopicFilter flt =
     (if length flt = 0 then failE ErrInvalidTopicFilter ''empty filter''
      else let tf = splitSlash flt
           in bindO (checkLevels 0 (length tf) tf) (\<lambda>_. Ret tf))"

function matchLoop :: "topicFilter \<Rightarrow> gostring list \<Rightarrow> nat \<Rightarrow> bool" where
  "matchLoop f ts i =
     (if i < length f then
        (let t = f ! i in
         if t = [hash_char] then True
         else if i \<ge> length ts then False
         else if t \<noteq> [plus_char] \<and> t \<noteq> ts ! i then False
         else matchLoop f ts (i + 1))
      else i = length ts)"
  by pat_completeness auto
termination
  by (relation "measure (\<lambda>(f, ts, i). length f - i)") auto

declare matchLoop.simps [simp del]

definition Match :: "topicFilter \<Rightarrow> gostring \<Rightarrow> bool" where
  "Match f topic = (let ts = splitSlash topic in matchLoop f ts 0)"

subsection \<open>Specification\<close>

text \<open>Which topic levels a filter's levels match: \<open>#\<close>, only at the end, matches the parent level and
  everything below it, \<open>+\<close> matches one level, any other level matches itself.\<close>

inductive levels_match :: "gostring list \<Rightarrow> gostring list \<Rightarrow> bool" where
  match_end: "levels_match [] []"
| match_multi: "levels_match [[hash_char]] ts"
| match_single: "levels_match fs ts \<Longrightarrow> levels_match ([plus_char] # fs) (t # ts)"
| match_level: "levels_match fs ts \<Longrightarrow> levels_match (t # fs) (t # ts)"

inductive_simps levels_match_Nil [simp]: "levels_match [] ts"
inductive_simps levels_match_Cons_Nil: "levels_match (f # fs) []"
inductive_simps levels_match_Cons_Cons: "levels_match (f # fs) (t # ts)"

text \<open>MQTT 4.7.1: \<open>+\<close> occupies a whole level, \<open>#\<close> occupies a whole level and is the last one.\<close>

definition valid_levels :: "gostring list \<Rightarrow> bool" where
  "valid_levels fs \<longleftrightarrow>
     (\<forall>f \<in> set fs. plus_char \<in> set f \<longrightarrow> f = [plus_char])
     \<and> (\<forall>f \<in> set fs. hash_char \<in> set f \<longrightarrow> f = [hash_char])
     \<and> (\<forall>f \<in> set (butlast fs). hash_char \<notin> set f)"

fun joinSlash :: "gostring list \<Rightarrow> gostring" where
  "joinSlash [] = []"
| "joinSlash [l] = l"
| "joinSlash (l # ls) = l @ slash # joinSlash ls"

subsection \<open>Splitting\<close>

lemma splitSlash_nonempty [simp]: "splitSlash s \<noteq> []"
  by (induction s) (auto split: list.splits)

lemma join_splitSlash [simp]: "joinSlash (splitSlash s) = s"
proof (induction s)
  case (Cons c s)
  obtain l ls where "splitSlash s = l # ls" by (cases "splitSlash s") auto
  with Cons show ?case by (cases ls) auto
qed simp

lemma splitSlash_inject: "splitSlash s = splitSlash t \<longleftrightarrow> s = t"
  by (metis join_splitSlash)

lemma set_splitSlash: "(\<exists>l \<in> set (splitSlash s). c \<in> set l) \<longleftrightarrow> c \<in> set s \<and> c \<noteq> slash"
proof (induction s)
  case (Cons x s)
  obtain l ls where "splitSlash s = l # ls" by (cases "splitSlash s") auto
  with Cons show ?case by auto
qed simp

subsection \<open>Validation\<close>

lemma length_1_mem: "length f = Suc 0 \<Longrightarrow> c \<in> set f \<Longrightarrow> f = [c]"
  by (cases f) auto

lemma valid_levels_Cons:
  "valid_levels (f # fs) \<longleftrightarrow>
     (plus_char \<in> set f \<longrightarrow> f = [plus_char]) \<and> (hash_char \<in> set f \<longrightarrow> f = [hash_char] \<and> fs = [])
     \<and> valid_levels fs"
  by (auto simp: valid_levels_def)

lemma checkLevels_Ret:
  "n = i + length fs \<Longrightarrow> checkLevels i n fs = Ret () \<longleftrightarrow> valid_levels fs"
proof (induction i n fs rule: checkLevels.induct)
  case (1 i n)
  then show ?case by (simp add: valid_levels_def)
next
  case (2 i n f fs)
  then have last: "int i = int n - 1 \<longleftrightarrow> fs = []" by auto
  show ?case
    using 2 by (auto simp: valid_levels_Cons contains_def failE_def last dest: length_1_mem)
qed

lemma checkLevels_outcomes:
  "checkLevels i n fs = Ret () \<or> (\<exists>m. checkLevels i n fs = failE ErrInvalidTopicFilter m)"
  by (induction i n fs rule: checkLevels.induct) auto

lemma newTopicFilter_Ret_iff:
  "newTopicFilter s = Ret f \<longleftrightarrow> s \<noteq> [] \<and> f = splitSlash s \<and> valid_levels f"
  using checkLevels_Ret [of "length (splitSlash s)" 0 "splitSlash s"]
  by (auto simp: newTopicFilter_def Let_def failE_def bindO_eq_Ret_iff)

lemma newTopicFilter_invalid:
  assumes "\<not> (s \<noteq> [] \<and> valid_levels (splitSlash s))"
  shows "\<exists>m. newTopicFilter s = failE ErrInvalidTopicFilter m"
proof (cases "s = []")
  case False
  with assms have "checkLevels 0 (length (splitSlash s)) (splitSlash s) \<noteq> Ret ()"
    using checkLevels_Ret [of "length (splitSlash s)" 0 "splitSlash s"] by simp
  then obtain m where "checkLevels 0 (length (splitSlash s)) (splitSlash s) = failE ErrInvalidTopicFilter m"
    using checkLevels_outcomes by blast
  with False show ?thesis by (auto simp: newTopicFilter_def Let_def failE_def)
qed (auto simp: newTopicFilter_def)

subsection \<open>Matching\<close>

lemma matchLoop_drop:
  assumes "valid_levels (drop i f)" "i \<le> length ts"
  shows "matchLoop f ts i \<longleftrightarrow> levels_match (drop i f) (drop i ts)"
  using assms
proof (induction f ts i rule: matchLoop.induct)
  case (1 f ts i)
  show ?case
  proof (cases "i < length f")
    case False
    with "1.prems"(2) show ?thesis by (auto simp: matchLoop.simps [of f ts i])
  next
    case True
    then have f: "drop i f = f ! i # drop (i + 1) f" by (simp add: Cons_nth_drop_Suc)
    with "1.prems"(1) have v: "valid_levels (drop (i + 1) f)"
      and multi: "f ! i = [hash_char] \<Longrightarrow> drop (i + 1) f = []"
      by (auto simp: valid_levels_Cons)
    show ?thesis
    proof (cases "f ! i = [hash_char]")
      case h: True
      then show ?thesis
        using True f multi by (auto simp: matchLoop.simps [of f ts i] intro: match_multi)
    next
      case h: False
      show ?thesis
      proof (cases "i < length ts")
        case False
        then show ?thesis
          using True h f "1.prems"(2)
          by (subst matchLoop.simps) (simp add: levels_match_Cons_Nil)
      next
        case t: True
        then have ts: "drop i ts = ts ! i # drop (i + 1) ts" by (simp add: Cons_nth_drop_Suc)
        show ?thesis
          using True h t v "1.IH" [OF True refl]
          by (auto simp: matchLoop.simps [of f ts i] Let_def f ts levels_match_Cons_Cons)
      qed
    qed
  qed
qed

lemma Match_levels: "valid_levels f \<Longrightarrow> Match f topic \<longleftrightarrow> levels_match f (splitSlash topic)"
  using matchLoop_drop [of 0 f "splitSlash topic"] by (simp add: Match_def)

lemma levels_match_literal:
  "\<forall>f \<in> set fs. f \<noteq> [hash_char] \<and> f \<noteq> [plus_char] \<Longrightarrow> levels_match fs ts \<longleftrightarrow> ts = fs"
proof (induction fs arbitrary: ts)
  case (Cons f fs)
  then show ?case
    by (cases ts) (auto simp: levels_match_Cons_Nil levels_match_Cons_Cons)
qed simp

subsection \<open>Properties\<close>

text \<open>C31: \<open>newTopicFilter\<close> accepts exactly the filters that MQTT 3.1.1 section 4.7.1 allows (not
  empty, \<open>+\<close> only as a whole level, \<open>#\<close> only as a whole and last level), returns their levels, and
  reports every other one as an invalid topic filter.\<close>

theorem newTopicFilter_valid_iff:
  "if s \<noteq> [] \<and> valid_levels (splitSlash s) then newTopicFilter s = Ret (splitSlash s)
   else \<exists>m. newTopicFilter s = failE ErrInvalidTopicFilter m"
  by (auto simp: newTopicFilter_Ret_iff intro: newTopicFilter_invalid)

text \<open>C23: for a filter that \<open>newTopicFilter\<close> accepts, \<open>Match\<close> decides the matching relation of MQTT
  3.1.1 section 4.7.1 between the levels of the filter and of the topic name.\<close>

theorem Match_correct:
  assumes "newTopicFilter s = Ret f"
  shows "Match f topic \<longleftrightarrow> levels_match (splitSlash s) (splitSlash topic)"
  using assms by (auto simp: newTopicFilter_Ret_iff Match_levels)

theorem Match_correct_witness:
  "Match [str ''sport'', str ''+'', str ''#''] (str ''sport/a'')
     \<longleftrightarrow> levels_match (splitSlash (str ''sport/+/#'')) (splitSlash (str ''sport/a''))"
  by (rule Match_correct) (simp add: newTopicFilter_Ret_iff str_def valid_levels_def)

text \<open>A filter without wildcard characters matches its own topic name and no other.\<close>

theorem Match_no_wildcard:
  assumes "newTopicFilter s = Ret f" "plus_char \<notin> set s" "hash_char \<notin> set s"
  shows "Match f topic \<longleftrightarrow> topic = s"
proof -
  have "\<forall>l \<in> set (splitSlash s). l \<noteq> [hash_char] \<and> l \<noteq> [plus_char]"
    using set_splitSlash [of s plus_char] set_splitSlash [of s hash_char] assms(2,3)
    by (metis list.set_intros(1))
  moreover have "f = splitSlash s" "valid_levels f"
    using assms(1) unfolding newTopicFilter_Ret_iff by blast+
  ultimately show ?thesis
    using splitSlash_inject [of topic s] by (simp add: Match_levels levels_match_literal)
qed

theorem Match_no_wildcard_witness:
  "Match [str ''a'', [], str ''b''] (str ''a//b'') \<and> \<not> Match [str ''a'', [], str ''b''] (str ''a/b'')"
  using Match_no_wildcard [of "str ''a//b''" "[str ''a'', [], str ''b'']" "str ''a//b''"]
    Match_no_wildcard [of "str ''a//b''" "[str ''a'', [], str ''b'']" "str ''a/b''"]
  by (simp add: newTopicFilter_Ret_iff str_def valid_levels_def)

end
