(* ===== verification/ServeMux.thy ===== *)
theory ServeMux
  imports TopicFilter
begin

text \<open>
  \<open>servemux.go\<close>: the handler multiplexer. A handler is code of the user, so handlers are values of a
  type \<open>'h\<close>; serving a message is the list of handler calls it makes, in order, each with the message
  it passes.
\<close>

record 'h serveMuxHandler =
  hFilter :: topicFilter
  hHandler :: 'h

record 'h ServeMux =
  handlers :: "'h serveMuxHandler list"

definition emptyMux :: "'h ServeMux" where
  "emptyMux = \<lparr>handlers = []\<rparr>"

definition ServeMux_Handle :: "'h ServeMux \<Rightarrow> gostring \<Rightarrow> 'h \<Rightarrow> 'h ServeMux \<times> unit result" where
  "ServeMux_Handle m flt handler =
     (case newTopicFilter flt of
        Ret f \<Rightarrow> (m\<lparr>handlers := handlers m @ [\<lparr>hFilter = f, hHandler = handler\<rparr>]\<rparr>, Ret ())
      | Fail e \<Rightarrow> (m, Fail e)
      | Panic s \<Rightarrow> (m, Panic s)
      | Hang \<Rightarrow> (m, Hang))"

fun serveHandlers :: "'h serveMuxHandler list \<Rightarrow> Message \<Rightarrow> ('h \<times> Message) list" where
  "serveHandlers [] message = []"
| "serveHandlers (h # hs) message =
     (if Match (hFilter h) (mTopic message) then [(hHandler h, clone message)] else [])
     @ serveHandlers hs message"

definition ServeMux_Serve :: "'h ServeMux \<Rightarrow> Message \<Rightarrow> ('h \<times> Message) list" where
  "ServeMux_Serve m message = serveHandlers (handlers m) message"

text \<open>A function as a handler (\<open>HandlerFunc\<close> of \<open>mqtt.go\<close>); it acts on a state of type \<open>'s\<close>.\<close>

type_synonym 's HandlerFunc = "Message \<Rightarrow> 's \<Rightarrow> 's"

definition HandlerFunc_Serve :: "'s HandlerFunc \<Rightarrow> Message \<Rightarrow> 's \<Rightarrow> 's" where
  "HandlerFunc_Serve h message = h message"

definition ServeMux_HandleFunc ::
  "'s HandlerFunc ServeMux \<Rightarrow> gostring \<Rightarrow> (Message \<Rightarrow> 's \<Rightarrow> 's) \<Rightarrow> 's HandlerFunc ServeMux \<times> unit result" where
  "ServeMux_HandleFunc m flt handler = ServeMux_Handle m flt handler"

text \<open>Registering a list of filters and handlers one after the other.\<close>

definition registerAll :: "(gostring \<times> 'h) list \<Rightarrow> 'h ServeMux \<Rightarrow> 'h ServeMux" where
  "registerAll regs m = fold (\<lambda>(flt, h) m. fst (ServeMux_Handle m flt h)) regs m"

lemma Handle_valid:
  "newTopicFilter flt = Ret f \<Longrightarrow>
     ServeMux_Handle m flt h = (m\<lparr>handlers := handlers m @ [\<lparr>hFilter = f, hHandler = h\<rparr>]\<rparr>, Ret ())"
  by (simp add: ServeMux_Handle_def)

lemma Handle_invalid:
  "\<nexists>f. newTopicFilter flt = Ret f \<Longrightarrow> fst (ServeMux_Handle m flt h) = m \<and> \<not> is_Ret (snd (ServeMux_Handle m flt h))"
  by (cases "newTopicFilter flt") (auto simp: ServeMux_Handle_def)

lemma serveHandlers_append:
  "serveHandlers (hs @ hs') msg = serveHandlers hs msg @ serveHandlers hs' msg"
  by (induction hs) auto

lemma registerAll_Serve:
  "ServeMux_Serve (registerAll regs m) msg = ServeMux_Serve m msg
     @ [(h, msg). (flt, h) \<leftarrow> regs, flt \<noteq> [], valid_levels (splitSlash flt),
                  levels_match (splitSlash flt) (splitSlash (mTopic msg))]"
proof (induction regs arbitrary: m)
  case Nil
  then show ?case by (simp add: registerAll_def)
next
  case (Cons reg regs)
  obtain flt h where reg: "reg = (flt, h)" by (cases reg)
  have step: "registerAll (reg # regs) m = registerAll regs (fst (ServeMux_Handle m flt h))"
    by (simp add: registerAll_def reg)
  show ?case
  proof (cases "\<exists>f. newTopicFilter flt = Ret f")
    case True
    then obtain f where f: "newTopicFilter flt = Ret f" by blast
    then have "flt \<noteq> []" "valid_levels (splitSlash flt)" "f = splitSlash flt"
      by (auto simp: newTopicFilter_Ret_iff)
    then show ?thesis
      unfolding step Cons.IH
      by (simp add: reg Handle_valid [OF f] ServeMux_Serve_def serveHandlers_append Match_levels)
  next
    case False
    then have "\<not> (flt \<noteq> [] \<and> valid_levels (splitSlash flt))"
      by (auto simp: newTopicFilter_Ret_iff)
    with Handle_invalid [OF False, of m h] show ?thesis
      unfolding step Cons.IH by (auto simp: reg)
  qed
qed

subsection \<open>Properties\<close>

text \<open>C30: after any sequence of registrations, \<open>Serve\<close> calls exactly the handlers whose filter is
  valid and matches the topic, in the order of registration and once per registration, and passes each
  a message equal to the one served. Registrations with an invalid filter have no effect.\<close>

theorem Serve_dispatch:
  "ServeMux_Serve (registerAll regs emptyMux) msg =
     [(h, msg). (flt, h) \<leftarrow> regs, flt \<noteq> [], valid_levels (splitSlash flt),
                levels_match (splitSlash flt) (splitSlash (mTopic msg))]"
  by (simp add: registerAll_Serve) (simp add: ServeMux_Serve_def emptyMux_def)

text \<open>\<open>Handle\<close> either appends the handler and returns nil, or leaves the multiplexer unchanged
  and reports an invalid topic filter.\<close>

theorem Handle_cases:
  "if flt \<noteq> [] \<and> valid_levels (splitSlash flt)
   then ServeMux_Handle m flt h
          = (m\<lparr>handlers := handlers m @ [\<lparr>hFilter = splitSlash flt, hHandler = h\<rparr>]\<rparr>, Ret ())
   else \<exists>f. ServeMux_Handle m flt h = (m, failE ErrInvalidTopicFilter f)"
proof (cases "flt \<noteq> [] \<and> valid_levels (splitSlash flt)")
  case True
  then have "newTopicFilter flt = Ret (splitSlash flt)" by (simp add: newTopicFilter_Ret_iff)
  then show ?thesis using True by (simp add: Handle_valid)
next
  case False
  then obtain f where "newTopicFilter flt = failE ErrInvalidTopicFilter f"
    using newTopicFilter_invalid by blast
  then show ?thesis using False by (auto simp: ServeMux_Handle_def failE_def)
qed

end
