(* ===== verification/Serve.thy ===== *)
theory Serve
  imports Requests ServeMux
begin

text \<open>
  \<open>serve.go\<close>: the loop that reads packets, answers them, dispatches messages to the handler and signals
  acknowledgements to the waiting requests; and the end of the serve goroutine that \<open>Connect\<close> starts.

  \<open>hServe\<close> is the handler's \<open>Serve\<close> method on a handler state of type \<open>'s\<close>, code of the application. The
  loop reads from a \<open>reader\<close>; the model of the whole loop hands it the bytes that arrive before the
  connection ends.
\<close>

record ('t, 'h, 's) serveState =
  scli :: "('t, 'h) BaseClient"
  subBuffer :: "uint16 \<rightharpoonup> Message"
  hstate :: 's

subsection \<open>One packet\<close>

text \<open>Loading the handler and calling it, unless it is nil.\<close>

definition callHandler ::
  "('h \<Rightarrow> Message \<Rightarrow> 's \<Rightarrow> 's) \<Rightarrow> Message \<Rightarrow> ('t, 'h, 's) serveState \<Rightarrow> ('t, 'h, 's) serveState" where
  "callHandler hServe msg st =
     (case bHandler (scli st) of None \<Rightarrow> st | Some h \<Rightarrow> st\<lparr>hstate := hServe h msg (hstate st)\<rparr>)"

text \<open>Packing and writing an answer; an error of the write ends the loop.\<close>

definition answer ::
  "('t \<Rightarrow> byte list \<Rightarrow> 't \<times> int result) \<Rightarrow> byte list result \<Rightarrow> string \<Rightarrow> ('t, 'h, 's) serveState
     \<Rightarrow> ('t, 'h, 's) serveState \<times> unit result" where
  "answer tWrite pkt failure st =
     (case pkt of
        Ret b \<Rightarrow>
          (case clientWrite tWrite (scli st) b of
             (c', Ret u) \<Rightarrow> (st\<lparr>scli := c'\<rparr>, Ret ())
           | (c', Fail err) \<Rightarrow> (st\<lparr>scli := c'\<rparr>, Fail (wrapE err failure))
           | (c', Panic s) \<Rightarrow> (st\<lparr>scli := c'\<rparr>, Panic s)
           | (c', Hang) \<Rightarrow> (st\<lparr>scli := c'\<rparr>, Hang))
      | Fail e \<Rightarrow> (st, Fail e)
      | Panic s \<Rightarrow> (st, Panic s)
      | Hang \<Rightarrow> (st, Hang))"

definition servePublish ::
  "('t \<Rightarrow> byte list \<Rightarrow> 't \<times> int result) \<Rightarrow> ('h \<Rightarrow> Message \<Rightarrow> 's \<Rightarrow> 's) \<Rightarrow> Message \<Rightarrow> ('t, 'h, 's) serveState
     \<Rightarrow> ('t, 'h, 's) serveState \<times> unit result" where
  "servePublish tWrite hServe msg st =
     (if mQoS msg = QoS0 then (callHandler hServe msg st, Ret ())
      else if mQoS msg = QoS1 then
        answer tWrite (pktPubAck_Pack (mID msg)) ''sending PUBACK'' (callHandler hServe msg st)
      else if mQoS msg = QoS2 then
        (case answer tWrite (pktPubRec_Pack (mID msg)) ''sending PUBREC'' st of
           (st', Ret u) \<Rightarrow> (st'\<lparr>subBuffer := (subBuffer st')(mID msg \<mapsto> msg)\<rparr>, Ret ())
         | (st', r) \<Rightarrow> (st', r))
      else (st, Ret ()))"

definition servePubRel ::
  "('t \<Rightarrow> byte list \<Rightarrow> 't \<times> int result) \<Rightarrow> ('h \<Rightarrow> Message \<Rightarrow> 's \<Rightarrow> 's) \<Rightarrow> uint16 \<Rightarrow> ('t, 'h, 's) serveState
     \<Rightarrow> ('t, 'h, 's) serveState \<times> unit result" where
  "servePubRel tWrite hServe pid st =
     (case subBuffer st pid of
        None \<Rightarrow> (st, Ret ())
      | Some msg \<Rightarrow>
          (let st1 = callHandler hServe msg st;
               st2 = st1\<lparr>subBuffer := (subBuffer st1)(pid := None)\<rparr>
           in answer tWrite (pktPubComp_Pack pid) ''sending PUBCOMP'' st2))"

text \<open>Signalling a request: look its channel up and send without blocking. The methods of a nil
  signaller dereference it.\<close>

definition nilSig :: "'a result" where
  "nilSig = Panic ''invalid memory address or nil pointer dereference''"

definition signal ::
  "(signaller \<Rightarrow> uint16 \<Rightarrow> signaller \<times> chan option) \<Rightarrow> uint16 \<Rightarrow> ackPkt \<Rightarrow> ('t, 'h, 's) serveState
     \<Rightarrow> ('t, 'h, 's) serveState \<times> unit result" where
  "signal lookup pid p st =
     (case sig (scli st) of
        None \<Rightarrow> (st, nilSig)
      | Some s \<Rightarrow>
          (case lookup s pid of (s', ch) \<Rightarrow> (st\<lparr>scli := trySend ((scli st)\<lparr>sig := Some s'\<rparr>) ch p\<rparr>, Ret ())))"

definition signalOne ::
  "(signaller \<Rightarrow> chan option) \<Rightarrow> ackPkt \<Rightarrow> ('t, 'h, 's) serveState \<Rightarrow> ('t, 'h, 's) serveState \<times> unit result" where
  "signalOne get p st =
     (case sig (scli st) of
        None \<Rightarrow> (st, nilSig)
      | Some s \<Rightarrow> (st\<lparr>scli := trySend (scli st) (get s) p\<rparr>, Ret ()))"

definition parsed ::
  "('t, 'h, 's) serveState \<Rightarrow> 'p result \<Rightarrow> ('p \<Rightarrow> ('t, 'h, 's) serveState \<times> unit result)
     \<Rightarrow> ('t, 'h, 's) serveState \<times> unit result" where
  "parsed st r k =
     (case r of Ret p \<Rightarrow> k p | Fail e \<Rightarrow> (st, Fail e) | Panic s \<Rightarrow> (st, Panic s) | Hang \<Rightarrow> (st, Hang))"

definition servePacket ::
  "('t \<Rightarrow> byte list \<Rightarrow> 't \<times> int result) \<Rightarrow> ('h \<Rightarrow> Message \<Rightarrow> 's \<Rightarrow> 's) \<Rightarrow> packetType \<Rightarrow> byte \<Rightarrow> byte list
     \<Rightarrow> ('t, 'h, 's) serveState \<Rightarrow> ('t, 'h, 's) serveState \<times> unit result" where
  "servePacket tWrite hServe pktType pktFlag contents st =
     (if pktType = packetConnAck then
        parsed st (pktConnAck_Parse pktFlag contents) (\<lambda>connAck. signalOne sigConnAck (AckConn connAck) st)
      else if pktType = packetPublish then
        parsed st (pktPublish_Parse pktFlag contents) (\<lambda>msg. servePublish tWrite hServe msg st)
      else if pktType = packetPubAck then
        parsed st (pktPubAck_Parse pktFlag contents) (\<lambda>pid. signal sigPubAck pid (AckPub pid) st)
      else if pktType = packetPubRec then
        parsed st (pktPubRec_Parse pktFlag contents) (\<lambda>pid. signal sigPubRec pid (AckRec pid) st)
      else if pktType = packetPubRel then
        parsed st (pktPubRel_Parse pktFlag contents) (\<lambda>pid. servePubRel tWrite hServe pid st)
      else if pktType = packetPubComp then
        parsed st (pktPubComp_Parse pktFlag contents) (\<lambda>pid. signal sigPubComp pid (AckComp pid) st)
      else if pktType = packetSubAck then
        parsed st (pktSubAck_Parse pktFlag contents) (\<lambda>subAck. signal sigSubAck (subAckID subAck) (AckSub subAck) st)
      else if pktType = packetUnsubAck then
        parsed st (pktUnsubAck_Parse pktFlag contents) (\<lambda>pid. signal sigUnsubAck pid (AckUnsub pid) st)
      else if pktType = packetPingResp then
        parsed st (pktPingResp_Parse pktFlag contents) (\<lambda>u. signalOne sigPingResp AckPing st)
      else (st, failE ErrInvalidPacket (''serving incoming packet '' @ fmt_int 16 (uint pktType))))"

subsection \<open>The loop and the goroutine\<close>

lemma readPacket_shorter:
  assumes "readPacket r = Ret (t, f, cont, r')"
  shows "length (rBytes r') < length (rBytes r)"
proof -
  obtain xs e where r: "r = \<lparr>rBytes = xs, rEnd = e\<rparr>" by (cases r)
  then obtain hdr where "2 \<le> length hdr" "xs = hdr @ cont @ rBytes r'"
    using readPacket_extend [of xs e t f cont r'] assms by blast
  then show ?thesis using r by (cases hdr) auto
qed

text \<open>\<open>serve\<close> returns only with an error; \<open>Ret\<close> would be a nil error.\<close>

function serve ::
  "('t \<Rightarrow> byte list \<Rightarrow> 't \<times> int result) \<Rightarrow> ('h \<Rightarrow> Message \<Rightarrow> 's \<Rightarrow> 's) \<Rightarrow> reader \<Rightarrow> ('t, 'h, 's) serveState
     \<Rightarrow> ('t, 'h, 's) serveState \<times> unit result" where
  "serve tWrite hServe r st =
     (case readPacket r of
        Ret (pktType, pktFlag, contents, r') \<Rightarrow>
          (case servePacket tWrite hServe pktType pktFlag contents st of
             (st', Ret u) \<Rightarrow> serve tWrite hServe r' st'
           | (st', Fail err) \<Rightarrow> (st', Fail err)
           | (st', Panic s) \<Rightarrow> (st', Panic s)
           | (st', Hang) \<Rightarrow> (st', Hang))
      | Fail err \<Rightarrow> (st, Fail err)
      | Panic s \<Rightarrow> (st, Panic s)
      | Hang \<Rightarrow> (st, Hang))"
  by pat_completeness auto
termination
  by (relation "measure (\<lambda>(tw, hs, r, st). length (rBytes r))") (auto dest: readPacket_shorter)

declare serve.simps [simp del]

text \<open>The goroutine after \<open>serve\<close> returned \<open>err\<close>. Closing a channel that is nil or closed panics.\<close>

definition serveExit ::
  "('t \<Rightarrow> 't \<times> goerror option) \<Rightarrow> goerror option \<Rightarrow> ('t, 'h) BaseClient \<Rightarrow> ('t, 'h) BaseClient \<times> unit result" where
  "serveExit tClose err c =
     (case transportClose tClose c of (c1, errConn) \<Rightarrow>
        (let err' = (if errConn \<noteq> None \<and> err = None then errConn else err);
             c2 = (if connState c1 \<noteq> StateDisconnected then SetErrorOnce c1 err' else c1);
             c3 = connStateUpdate c2 StateClosed
         in if connClosed c3 = ChanOpen
            then (c3\<lparr>connClosed := ChanClosed, serveLoops := serveLoops c3 - 1\<rparr>, Ret ())
            else (c3, Panic ''close of closed channel'')))"

text \<open>The whole goroutine; a subscriber buffer is made by each run of \<open>serve\<close>.\<close>

definition serveGoroutine ::
  "('t \<Rightarrow> byte list \<Rightarrow> 't \<times> int result) \<Rightarrow> ('t \<Rightarrow> 't \<times> goerror option) \<Rightarrow> ('h \<Rightarrow> Message \<Rightarrow> 's \<Rightarrow> 's) \<Rightarrow> reader
     \<Rightarrow> ('t, 'h) BaseClient \<Rightarrow> 's \<Rightarrow> ('t, 'h) BaseClient \<times> 's \<times> unit result" where
  "serveGoroutine tWrite tClose hServe r c s =
     (case serve tWrite hServe r \<lparr>scli = c, subBuffer = Map.empty, hstate = s\<rparr> of
        (st, Ret u) \<Rightarrow> (case serveExit tClose None (scli st) of (c', x) \<Rightarrow> (c', hstate st, x))
      | (st, Fail err) \<Rightarrow> (case serveExit tClose (Some err) (scli st) of (c', x) \<Rightarrow> (c', hstate st, x))
      | (st, Panic m) \<Rightarrow> (scli st, hstate st, Panic m)
      | (st, Hang) \<Rightarrow> (scli st, hstate st, Hang))"

subsection \<open>Specification of the receiving side\<close>

text \<open>The packets that a broker may send: those of the message flow, and the answers to the client's own
  requests. Any other packet type ends the loop (see \<open>serve_rejects_unexpected\<close>).\<close>

datatype inbound =
    InPublish Message | InPubRel uint16 | InPubAck uint16 | InPubRec uint16 | InPubComp uint16
  | InConnAck pktConnAck | InSubAck pktSubAck | InUnsubAck uint16 | InPingResp

primrec inBytes :: "inbound \<Rightarrow> byte list result" where
  "inBytes (InPublish m) = pktPublish_Pack m"
| "inBytes (InPubRel pid) = pktPubRel_Pack pid"
| "inBytes (InPubAck pid) = pktPubAck_Pack pid"
| "inBytes (InPubRec pid) = pktPubRec_Pack pid"
| "inBytes (InPubComp pid) = pktPubComp_Pack pid"
| "inBytes (InConnAck a) = spec_connAck a"
| "inBytes (InSubAck a) = spec_subAck a"
| "inBytes (InUnsubAck pid) = spec_unsubAck pid"
| "inBytes InPingResp = spec_pingResp ()"

text \<open>What fits in a packet.\<close>

fun inOk :: "inbound \<Rightarrow> bool" where
  "inOk (InPublish m) = publishable m"
| "inOk (InSubAck a) = (length (Codes a) < 2 ^ 28 - 2)"
| "inOk e = True"

text \<open>The receiver of MQTT 3.1.1 section 4.3: a QoS 0 message is delivered; a QoS 1 message is
  delivered and acknowledged; a QoS 2 message is stored under its identifier and answered with PUBREC,
  and delivered when its PUBREL arrives; every PUBREL is answered with PUBCOMP, also one whose message
  is no longer stored. The state is the store; a step gives the messages delivered and the packets sent.\<close>

fun recvStep ::
  "(uint16 \<rightharpoonup> Message) \<Rightarrow> inbound \<Rightarrow> (uint16 \<rightharpoonup> Message) \<times> Message list \<times> byte list result list" where
  "recvStep b (InPublish m) =
     (if mQoS m = QoS0 then (b, [publishNorm m], [])
      else if mQoS m = QoS1 then (b, [m], [pktPubAck_Pack (mID m)])
      else (b(mID m \<mapsto> m), [], [pktPubRec_Pack (mID m)]))"
| "recvStep b (InPubRel pid) =
     (b(pid := None), (case b pid of None \<Rightarrow> [] | Some m \<Rightarrow> [m]), [pktPubComp_Pack pid])"
| "recvStep b e = (b, [], [])"

fun receiver ::
  "(uint16 \<rightharpoonup> Message) \<Rightarrow> inbound list \<Rightarrow> (uint16 \<rightharpoonup> Message) \<times> Message list \<times> byte list result list" where
  "receiver b [] = (b, [], [])"
| "receiver b (e # es) =
     (case recvStep b e of (b1, ms1, out1) \<Rightarrow>
        (case receiver b1 es of (b2, ms2, out2) \<Rightarrow> (b2, ms1 @ ms2, out1 @ out2)))"

text \<open>Where the code departs from the specification: a PUBREL whose message is not stored is not answered.
  \<open>heard\<close> is the stream without such packets.\<close>

fun unknownPubRel :: "(uint16 \<rightharpoonup> Message) \<Rightarrow> inbound \<Rightarrow> bool" where
  "unknownPubRel b (InPubRel pid) = (b pid = None)"
| "unknownPubRel b e = False"

fun heard :: "(uint16 \<rightharpoonup> Message) \<Rightarrow> inbound list \<Rightarrow> inbound list" where
  "heard b [] = []"
| "heard b (e # es) = (if unknownPubRel b e then heard b es else e # heard (fst (recvStep b e)) es)"

lemma receiver_heard:
  "fst (receiver b (heard b es)) = fst (receiver b es)
   \<and> fst (snd (receiver b (heard b es))) = fst (snd (receiver b es))"
proof (induction es arbitrary: b)
  case (Cons e es)
  obtain b1 ms1 out1 where r1: "recvStep b e = (b1, ms1, out1)" by (metis prod_cases3)
  show ?case
  proof (cases "unknownPubRel b e")
    case True
    then obtain pid where "e = InPubRel pid" "b pid = None" by (cases e) auto
    then have "b1 = b" "ms1 = []" using r1 by (auto simp: fun_upd_idem)
    then show ?thesis using True Cons.IH [of b] r1 by (auto split: prod.splits)
  next
    case False
    then show ?thesis using Cons.IH [of b1] r1 by (auto split: prod.splits)
  qed
qed simp

subsection \<open>The loop implements the receiver\<close>

lemma answer_accepts:
  assumes "accepts_all tWrite tlog" "\<exists>b. pkt = Ret b \<and> b \<noteq> []"
  shows "\<exists>t' b. pkt = Ret b \<and> tlog t' = tlog (Transport (scli st)) @ [b]
    \<and> answer tWrite pkt f st = (st\<lparr>scli := (scli st)\<lparr>Transport := t'\<rparr>\<rparr>, Ret ())"
proof -
  obtain b where b: "pkt = Ret b" "b \<noteq> []" using assms(2) by blast
  obtain t' where "clientWrite tWrite (scli st) b = ((scli st)\<lparr>Transport := t'\<rparr>, Ret ())"
      "tlog t' = tlog (Transport (scli st)) @ [b]"
    using clientWrite_accepts [OF assms(1) b(2)] by blast
  with b show ?thesis by (auto simp: answer_def)
qed

text \<open>What a stretch of the loop did: the messages it handed to the handler and the packets it wrote.
  Requests, connection state and handler registration stay as they are.\<close>

definition advances ::
  "('h \<Rightarrow> Message \<Rightarrow> 's \<Rightarrow> 's) \<Rightarrow> ('t \<Rightarrow> byte list list) \<Rightarrow> 'h \<Rightarrow> ('t, 'h, 's) serveState \<Rightarrow> Message list
     \<Rightarrow> byte list result list \<Rightarrow> ('t, 'h, 's) serveState \<Rightarrow> bool" where
  "advances hServe tlog h st ms out st' \<longleftrightarrow>
     hstate st' = fold (hServe h) ms (hstate st)
     \<and> (\<exists>pkts. out = map Ret pkts \<and> tlog (Transport (scli st')) = tlog (Transport (scli st)) @ pkts)
     \<and> sig (scli st') \<noteq> None \<and> bHandler (scli st') = Some h"

lemma advances_trans:
  "advances hServe tlog h st ms out st' \<Longrightarrow> advances hServe tlog h st' ms' out' st''
     \<Longrightarrow> advances hServe tlog h st (ms @ ms') (out @ out') st''"
  by (force simp: advances_def)

lemma trySend_frame [simp]:
  "Transport (trySend c ch p) = Transport c" "sig (trySend c ch p) = sig c"
  "bHandler (trySend c ch p) = bHandler c" "connState (trySend c ch p) = connState c"
  "bErr (trySend c ch p) = bErr c" "connClosed (trySend c ch p) = connClosed c"
  "nextChan (trySend c ch p) = nextChan c" "idLast (trySend c ch p) = idLast c"
  "serveLoops (trySend c ch p) = serveLoops c"
  by (simp_all add: trySend_def split: option.splits)

lemma signal_advances:
  assumes "sig (scli st) \<noteq> None" "bHandler (scli st) = Some h"
  shows "\<exists>st'. signal lookup pid p st = (st', Ret ()) \<and> subBuffer st' = subBuffer st
    \<and> advances hServe tlog h st [] [] st'"
  using assms by (auto simp: signal_def advances_def split: prod.splits)

lemma signalOne_advances:
  assumes "sig (scli st) \<noteq> None" "bHandler (scli st) = Some h"
  shows "\<exists>st'. signalOne get p st = (st', Ret ()) \<and> subBuffer st' = subBuffer st
    \<and> advances hServe tlog h st [] [] st'"
  using assms by (auto simp: signalOne_def advances_def)

lemma servePublish_advances:
  assumes "accepts_all tWrite tlog" "mQoS m \<in> {QoS0, QoS1, QoS2}"
    and "sig (scli st) \<noteq> None" "bHandler (scli st) = Some h"
  shows "\<exists>st'. servePublish tWrite hServe (publishNorm m) st = (st', Ret ())
    \<and> (case recvStep (subBuffer st) (InPublish m) of (b, ms, out) \<Rightarrow>
         subBuffer st' = b \<and> advances hServe tlog h st ms out st')"
proof -
  note ans = answer_accepts [OF assms(1)]
  consider "mQoS m = QoS0" | "mQoS m = QoS1" | "mQoS m = QoS2" using assms(2) by blast
  then show ?thesis
  proof cases
    case 1
    then show ?thesis
      using assms(3,4) by (auto simp: servePublish_def callHandler_def advances_def publishNorm_def)
  next
    case 2
    then show ?thesis
      using assms(3,4) ans [OF ack_packs(1) [of "mID m"], of "callHandler hServe m st" "''sending PUBACK''"]
      by (auto simp: servePublish_def callHandler_def advances_def publishNorm_def QoS_defs)
  next
    case 3
    then show ?thesis
      using assms(3,4) ans [OF ack_packs(2) [of "mID m"], of st "''sending PUBREC''"]
      by (auto simp: servePublish_def advances_def publishNorm_def QoS_defs)
  qed
qed

lemma servePubRel_advances:
  assumes "accepts_all tWrite tlog" "sig (scli st) \<noteq> None" "bHandler (scli st) = Some h"
  shows "\<exists>st'. servePubRel tWrite hServe pid st = (st', Ret ())
    \<and> (if unknownPubRel (subBuffer st) (InPubRel pid) then st' = st
       else case recvStep (subBuffer st) (InPubRel pid) of (b, ms, out) \<Rightarrow>
         subBuffer st' = b \<and> advances hServe tlog h st ms out st')"
proof (cases "subBuffer st pid")
  case None
  then show ?thesis by (simp add: servePubRel_def)
next
  case (Some m)
  let ?st = "(callHandler hServe m st)\<lparr>subBuffer := (subBuffer st)(pid := None)\<rparr>"
  have "servePubRel tWrite hServe pid st = answer tWrite (pktPubComp_Pack pid) ''sending PUBCOMP'' ?st"
    using Some assms(3) by (simp add: servePubRel_def callHandler_def)
  then show ?thesis
    using Some assms(2,3) answer_accepts [OF assms(1) ack_packs(3) [of pid], of ?st "''sending PUBCOMP''"]
    by (auto simp: callHandler_def advances_def)
qed

text \<open>A packet that the loop reads whole, dispatches to \<open>act\<close> and that \<open>act\<close> handles without error.\<close>

lemma serve_dispatched:
  assumes "\<exists>bs flag contents. pkt = Ret bs
      \<and> readPacket \<lparr>rBytes = bs @ rest, rEnd = x\<rparr> = Ret (ty, flag, contents, \<lparr>rBytes = rest, rEnd = x\<rparr>)
      \<and> Parse flag contents = Ret v"
    and "\<And>flag contents. Parse flag contents = Ret v \<Longrightarrow> servePacket tWrite hServe ty flag contents st = act st"
    and "\<exists>st'. act st = (st', Ret ()) \<and> P st'"
  shows "\<exists>bs st'. pkt = Ret bs
    \<and> serve tWrite hServe \<lparr>rBytes = bs @ rest, rEnd = x\<rparr> st = serve tWrite hServe \<lparr>rBytes = rest, rEnd = x\<rparr> st'
    \<and> P st'"
proof -
  obtain bs flag contents where r: "pkt = Ret bs"
      "readPacket \<lparr>rBytes = bs @ rest, rEnd = x\<rparr> = Ret (ty, flag, contents, \<lparr>rBytes = rest, rEnd = x\<rparr>)"
      "Parse flag contents = Ret v"
    using assms(1) by blast
  obtain st' where st': "act st = (st', Ret ())" "P st'" using assms(3) by blast
  with r assms(2) [OF r(3)] have "serve tWrite hServe \<lparr>rBytes = bs @ rest, rEnd = x\<rparr> st
      = serve tWrite hServe \<lparr>rBytes = rest, rEnd = x\<rparr> st'"
    by (simp add: serve.simps [of tWrite hServe "\<lparr>rBytes = bs @ rest, rEnd = x\<rparr>"])
  with r(1) st'(2) show ?thesis by blast
qed

text \<open>The operation that a packet is dispatched to, by its type.\<close>

lemma servePacket_dispatch:
  "pktPublish_Parse flag contents = Ret m \<Longrightarrow> servePacket tWrite hServe packetPublish flag contents st = servePublish tWrite hServe m st"
  "pktPubRel_Parse flag contents = Ret pid \<Longrightarrow> servePacket tWrite hServe packetPubRel flag contents st = servePubRel tWrite hServe pid st"
  "pktPubAck_Parse flag contents = Ret pid \<Longrightarrow> servePacket tWrite hServe packetPubAck flag contents st = signal sigPubAck pid (AckPub pid) st"
  "pktPubRec_Parse flag contents = Ret pid \<Longrightarrow> servePacket tWrite hServe packetPubRec flag contents st = signal sigPubRec pid (AckRec pid) st"
  "pktPubComp_Parse flag contents = Ret pid \<Longrightarrow> servePacket tWrite hServe packetPubComp flag contents st = signal sigPubComp pid (AckComp pid) st"
  "pktConnAck_Parse flag contents = Ret a \<Longrightarrow> servePacket tWrite hServe packetConnAck flag contents st = signalOne sigConnAck (AckConn a) st"
  "pktSubAck_Parse flag contents = Ret b \<Longrightarrow> servePacket tWrite hServe packetSubAck flag contents st = signal sigSubAck (subAckID b) (AckSub b) st"
  "pktUnsubAck_Parse flag contents = Ret pid \<Longrightarrow> servePacket tWrite hServe packetUnsubAck flag contents st = signal sigUnsubAck pid (AckUnsub pid) st"
  "pktPingResp_Parse flag contents = Ret u \<Longrightarrow> servePacket tWrite hServe packetPingResp flag contents st = signalOne sigPingResp AckPing st"
  by (simp_all add: servePacket_def parsed_def packetType_defs)

text \<open>What one packet does to the loop: nothing if it is a PUBREL that is not heard, else a step of the
  specification.\<close>

definition stepEffect ::
  "('h \<Rightarrow> Message \<Rightarrow> 's \<Rightarrow> 's) \<Rightarrow> ('t \<Rightarrow> byte list list) \<Rightarrow> 'h \<Rightarrow> ('t, 'h, 's) serveState \<Rightarrow> inbound
     \<Rightarrow> ('t, 'h, 's) serveState \<Rightarrow> bool" where
  "stepEffect hServe tlog h st e st' \<longleftrightarrow>
     (if unknownPubRel (subBuffer st) e then st' = st
      else case recvStep (subBuffer st) e of (b, ms, out) \<Rightarrow>
        subBuffer st' = b \<and> advances hServe tlog h st ms out st')"

lemma serve_event:
  assumes ok: "accepts_all tWrite tlog" "inOk e" and st: "sig (scli st) \<noteq> None" "bHandler (scli st) = Some h"
  shows "\<exists>bs st'. inBytes e = Ret bs
    \<and> serve tWrite hServe \<lparr>rBytes = bs @ rest, rEnd = x\<rparr> st = serve tWrite hServe \<lparr>rBytes = rest, rEnd = x\<rparr> st'
    \<and> stepEffect hServe tlog h st e st'"
proof -
  note disp = serve_dispatched [where P = "stepEffect hServe tlog h st e"]
  have sil: "\<exists>st'. signal l i p st = (st', Ret ()) \<and> stepEffect hServe tlog h st e st'"
      "\<exists>st'. signalOne g p st = (st', Ret ()) \<and> stepEffect hServe tlog h st e st'"
    if "\<forall>b. recvStep b e = (b, [], []) \<and> \<not> unknownPubRel b e" for l i p g
    using signal_advances [OF st, of l i p hServe tlog] signalOne_advances [OF st, of g p hServe tlog] that
    by (simp_all add: stepEffect_def)
  show ?thesis
  proof (cases e)
    case (InPublish m)
    with ok have m: "publishable m" "mQoS m \<in> {QoS0, QoS1, QoS2}" by (simp_all add: publishable_def)
    have "\<exists>st'. servePublish tWrite hServe (publishNorm m) st = (st', Ret ()) \<and> stepEffect hServe tlog h st e st'"
      using servePublish_advances [OF ok(1) m(2) st, of hServe] InPublish by (simp add: stepEffect_def)
    then show ?thesis
      using disp [where act = "servePublish tWrite hServe (publishNorm m)", OF publish.transmit [OF m(1)]]
        servePacket_dispatch(1) InPublish by fastforce
  next
    case (InPubRel pid)
    have "\<exists>st'. servePubRel tWrite hServe pid st = (st', Ret ()) \<and> stepEffect hServe tlog h st e st'"
      using servePubRel_advances [OF ok(1) st, of hServe pid] InPubRel by (simp add: stepEffect_def)
    then show ?thesis
      using disp [where act = "servePubRel tWrite hServe pid", OF pubRel.transmit [OF TrueI]]
        servePacket_dispatch(2) InPubRel by fastforce
  next
    case (InPubAck pid)
    show ?thesis unfolding InPubAck inBytes.simps
      by (rule serve_dispatched [where act = "signal sigPubAck pid (AckPub pid)", OF pubAck.transmit [OF TrueI]])
        (erule servePacket_dispatch(3), rule sil(1) [unfolded InPubAck], simp)
  next
    case (InPubRec pid)
    show ?thesis unfolding InPubRec inBytes.simps
      by (rule serve_dispatched [where act = "signal sigPubRec pid (AckRec pid)", OF pubRec.transmit [OF TrueI]])
        (erule servePacket_dispatch(4), rule sil(1) [unfolded InPubRec], simp)
  next
    case (InPubComp pid)
    show ?thesis unfolding InPubComp inBytes.simps
      by (rule serve_dispatched [where act = "signal sigPubComp pid (AckComp pid)", OF pubComp.transmit [OF TrueI]])
        (erule servePacket_dispatch(5), rule sil(1) [unfolded InPubComp], simp)
  next
    case (InConnAck a)
    show ?thesis unfolding InConnAck inBytes.simps
      by (rule serve_dispatched [where act = "signalOne sigConnAck (AckConn a)", OF connAck.transmit [OF TrueI]])
        (erule servePacket_dispatch(6), rule sil(2) [unfolded InConnAck], simp)
  next
    case (InSubAck a)
    with ok(2) have "length (Codes a) < 2 ^ 28 - 2" by simp
    show ?thesis unfolding InSubAck inBytes.simps
      by (rule serve_dispatched [where act = "signal sigSubAck (subAckID a) (AckSub a)", OF subAck.transmit])
        (fact, erule servePacket_dispatch(7), rule sil(1) [unfolded InSubAck], simp)
  next
    case (InUnsubAck pid)
    show ?thesis unfolding InUnsubAck inBytes.simps
      by (rule serve_dispatched [where act = "signal sigUnsubAck pid (AckUnsub pid)", OF unsubAck.transmit [OF TrueI]])
        (erule servePacket_dispatch(8), rule sil(1) [unfolded InUnsubAck], simp)
  next
    case InPingResp
    show ?thesis unfolding InPingResp inBytes.simps
      by (rule serve_dispatched [where act = "signalOne sigPingResp AckPing", OF pingResp.transmit [OF TrueI]])
        (erule servePacket_dispatch(9), rule sil(2) [unfolded InPingResp], simp)
  qed
qed

lemma inBytes_Ret: "inOk e \<Longrightarrow> \<exists>bs. inBytes e = Ret bs"
  using publish.transmit ack_packs connAck.transmit subAck.transmit unsubAck.transmit pingResp.transmit
  by (cases e) fastforce+

lemma map_inBytes_Ret: "list_all inOk es \<Longrightarrow> \<exists>bss. map inBytes es = map Ret bss"
proof (induction es)
  case (Cons e es)
  then obtain bs bss where "inBytes e = Ret bs" "map inBytes es = map Ret bss"
    using inBytes_Ret [of e] by auto
  then show ?case by (intro exI [of _ "bs # bss"]) simp
qed simp

lemma serve_receiver:
  assumes "accepts_all tWrite tlog" "list_all inOk es" "map inBytes es = map Ret bss"
    and "sig (scli st) \<noteq> None" "bHandler (scli st) = Some h"
  shows "\<exists>st'. serve tWrite hServe \<lparr>rBytes = concat bss @ rest, rEnd = x\<rparr> st
        = serve tWrite hServe \<lparr>rBytes = rest, rEnd = x\<rparr> st'
    \<and> (case receiver (subBuffer st) (heard (subBuffer st) es) of (b, ms, out) \<Rightarrow>
         subBuffer st' = b \<and> advances hServe tlog h st ms out st')"
  using assms(2-)
proof (induction es arbitrary: st bss)
  case Nil
  then show ?case by (auto simp: advances_def intro!: exI [of _ st])
next
  case (Cons e es)
  obtain bs bss' where bss: "bss = bs # bss'" "inBytes e = Ret bs" "map inBytes es = map Ret bss'"
    using Cons.prems(2) by (cases bss) auto
  have "inOk e" "list_all inOk es" using Cons.prems(1) by simp_all
  obtain st1 where st1: "serve tWrite hServe \<lparr>rBytes = bs @ concat bss' @ rest, rEnd = x\<rparr> st
        = serve tWrite hServe \<lparr>rBytes = concat bss' @ rest, rEnd = x\<rparr> st1" "stepEffect hServe tlog h st e st1"
    using serve_event [OF assms(1) \<open>inOk e\<close> Cons.prems(3,4), of hServe "concat bss' @ rest" x] bss(2) by auto
  show ?case
  proof (cases "unknownPubRel (subBuffer st) e")
    case True
    then have "st1 = st" using st1(2) by (simp add: stepEffect_def)
    with True st1(1) Cons.IH [OF \<open>list_all inOk es\<close> bss(3) Cons.prems(3,4)] bss(1) show ?thesis by simp
  next
    case False
    obtain b1 ms1 out1 where r1: "recvStep (subBuffer st) e = (b1, ms1, out1)" by (metis prod_cases3)
    obtain b2 ms2 out2 where r2: "receiver b1 (heard b1 es) = (b2, ms2, out2)" by (metis prod_cases3)
    have st1': "subBuffer st1 = b1" "advances hServe tlog h st ms1 out1 st1"
      using st1(2) False r1 by (simp_all add: stepEffect_def)
    then have st1_ok: "sig (scli st1) \<noteq> None" "bHandler (scli st1) = Some h"
      unfolding advances_def by blast+
    obtain st2 where "serve tWrite hServe \<lparr>rBytes = concat bss' @ rest, rEnd = x\<rparr> st1
          = serve tWrite hServe \<lparr>rBytes = rest, rEnd = x\<rparr> st2"
        "subBuffer st2 = b2" "advances hServe tlog h st1 ms2 out2 st2"
      using Cons.IH [OF \<open>list_all inOk es\<close> bss(3) st1_ok] r2 st1'(1) by auto
    then show ?thesis
      using st1 st1' r1 r2 bss(1) False advances_trans by (fastforce intro!: exI [of _ st2])
  qed
qed

lemma serve_end: "serve tWrite hServe \<lparr>rBytes = [], rEnd = x\<rparr> st = (st, Fail x)"
  by (simp add: serve.simps [of tWrite hServe "\<lparr>rBytes = [], rEnd = x\<rparr>"] readPacket_def ReadFull_def)

subsection \<open>Exactly once\<close>

text \<open>The packets of the QoS 2 exchange with identifier \<open>pid\<close>, and the deliveries that belong to it.\<close>

fun concerns :: "uint16 \<Rightarrow> inbound \<Rightarrow> bool" where
  "concerns pid (InPublish m) = (mQoS m = QoS2 \<and> mID m = pid)"
| "concerns pid (InPubRel p) = (p = pid)"
| "concerns pid e = False"

definition ofExchange :: "uint16 \<Rightarrow> Message \<Rightarrow> bool" where
  "ofExchange pid m \<longleftrightarrow> mQoS m = QoS2 \<and> mID m = pid"

definition delivered :: "(uint16 \<rightharpoonup> Message) \<Rightarrow> inbound list \<Rightarrow> Message list" where
  "delivered b es = fst (snd (receiver b es))"

text \<open>The store holds QoS 2 messages under their identifiers.\<close>

definition storeOk :: "(uint16 \<rightharpoonup> Message) \<Rightarrow> bool" where
  "storeOk b \<longleftrightarrow> (\<forall>pid m. b pid = Some m \<longrightarrow> ofExchange pid m)"

text \<open>One exchange on its own: the message held, if any, and the deliveries.\<close>

fun exchange :: "Message option \<Rightarrow> inbound list \<Rightarrow> Message list" where
  "exchange held (InPublish m # es) = exchange (Some m) es"
| "exchange held (InPubRel pid # es) =
     (case held of None \<Rightarrow> exchange None es | Some m \<Rightarrow> m # exchange None es)"
| "exchange held (e # es) = exchange held es"
| "exchange held [] = []"

lemma recvStep_other:
  assumes "storeOk b" "inOk e" "\<not> concerns pid e" "recvStep b e = (b', ms, out)"
  shows "storeOk b'" "b' pid = b pid" "filter (ofExchange pid) ms = []"
  using assms
  by (cases e; auto simp: storeOk_def ofExchange_def publishNorm_def QoS_defs publishable_def
        split: option.splits if_splits)+

lemma recvStep_concerns:
  assumes "storeOk b" "concerns pid e" "recvStep b e = (b', ms, out)"
  shows "storeOk b'" "filter (ofExchange pid) ms @ exchange (b' pid) es = exchange (b pid) (e # es)"
  using assms
  by (cases e; auto simp: storeOk_def ofExchange_def QoS_defs split: option.splits if_splits)+

lemma delivered_exchange:
  assumes "storeOk b" "list_all inOk es"
  shows "filter (ofExchange pid) (delivered b es) = exchange (b pid) (filter (concerns pid) es)"
  using assms
proof (induction es arbitrary: b)
  case Nil
  then show ?case by (simp add: delivered_def)
next
  case (Cons e es)
  obtain b1 ms1 out1 where r1: "recvStep b e = (b1, ms1, out1)" by (metis prod_cases3)
  have e: "inOk e" and es: "list_all inOk es" using Cons.prems by simp_all
  have d: "delivered b (e # es) = ms1 @ delivered b1 es"
    by (simp add: delivered_def r1 split: prod.splits)
  show ?case
  proof (cases "concerns pid e")
    case True
    then show ?thesis
      using recvStep_concerns [OF Cons.prems(1) True r1] Cons.IH [OF _ es, of b1] by (simp add: d)
  next
    case False
    then show ?thesis
      using recvStep_other [OF Cons.prems(1) e False r1] Cons.IH [OF _ es, of b1] by (simp add: d)
  qed
qed

lemma exchange_publishes: "exchange held (map InPublish ms @ es) = exchange (if ms = [] then held else Some (last ms)) es"
  by (induction ms arbitrary: held) auto

lemma exchange_released: "exchange None (replicate k (InPubRel pid)) = []"
  by (induction k) auto

subsection \<open>Properties\<close>

text \<open>C4: \<open>serve\<close> against the receiver of MQTT 3.1.1 section 4.3. On any stream of encoded packets that a
  broker may send, followed by the end of the connection, on a connected client with a handler and a
  transport that accepts every write, the loop delivers to the handler exactly the messages of the
  specification in their order, ends with the specification's store of QoS 2 messages and returns the
  reader's error. It writes exactly the answers of the specification in their order, but for one
  disagreement: a PUBREL whose message is not stored gets no PUBCOMP, so the answers are those of the
  specification on the stream without such packets, and all of them when the stream has none.\<close>

theorem serve_refines_receiver:
  assumes "accepts_all tWrite tlog" "list_all inOk es" "map inBytes es = map Ret bss"
    and "sig (scli st) \<noteq> None" "bHandler (scli st) = Some h"
    and "receiver (subBuffer st) es = (b, ms, out)"
  shows "\<exists>st' pkts. serve tWrite hServe \<lparr>rBytes = concat bss, rEnd = x\<rparr> st = (st', Fail x)
    \<and> subBuffer st' = b \<and> hstate st' = fold (hServe h) ms (hstate st)
    \<and> tlog (Transport (scli st')) = tlog (Transport (scli st)) @ pkts
    \<and> snd (snd (receiver (subBuffer st) (heard (subBuffer st) es))) = map Ret pkts
    \<and> (heard (subBuffer st) es = es \<longrightarrow> out = map Ret pkts)"
proof -
  let ?es = "heard (subBuffer st) es"
  obtain out' where "receiver (subBuffer st) ?es = (b, ms, out')"
    using receiver_heard [of "subBuffer st" es] assms(6)
    by (cases "receiver (subBuffer st) ?es") auto
  then show ?thesis
    using serve_receiver [OF assms(1-5), of hServe "[]" x] assms(6)
    by (auto simp: serve_end advances_def)
qed

theorem serve_refines_receiver_witness:
  "\<exists>bss st' pkts. map inBytes [InConnAck \<lparr>SessionPresent = False, Code = 0\<rparr>, InPublish (demoMessage 2), InPubRel 7, InPubRel 7]
        = map Ret bss
    \<and> serve logWrite (\<lambda>h m s. s @ [m])
        \<lparr>rBytes = concat bss, rEnd = Sentinel io_EOF\<rparr> \<lparr>scli = demoClient, subBuffer = Map.empty, hstate = []\<rparr>
      = (st', Fail (Sentinel io_EOF)) \<and> hstate st' = [demoMessage 2]
    \<and> Transport (scli st') = pkts \<and> map Ret pkts = [pktPubRec_Pack 7, pktPubComp_Pack 7]"
proof -
  let ?es = "[InConnAck \<lparr>SessionPresent = False, Code = 0\<rparr>, InPublish (demoMessage 2), InPubRel 7, InPubRel 7]"
  let ?st = "\<lparr>scli = demoClient, subBuffer = Map.empty, hstate = []\<rparr>"
  have ok: "list_all inOk ?es" using demo_publishable [of 2] by simp
  then obtain bss where bss: "map inBytes ?es = map Ret bss" using map_inBytes_Ret by blast
  have r: "receiver (subBuffer ?st) ?es
      = (Map.empty(7 := None), [demoMessage 2], [pktPubRec_Pack 7, pktPubComp_Pack 7, pktPubComp_Pack 7])"
    by (simp add: QoS_defs)
  have h: "snd (snd (receiver (subBuffer ?st) (heard (subBuffer ?st) ?es))) = [pktPubRec_Pack 7, pktPubComp_Pack 7]"
    by (simp add: QoS_defs)
  have "sig (scli ?st) \<noteq> None" "bHandler (scli ?st) = Some ()" by simp_all
  from serve_refines_receiver [OF demo_accepts ok bss this r, of "\<lambda>h m s. s @ [m]" "Sentinel io_EOF"] bss
  show ?thesis unfolding h by auto
qed

text \<open>C1: QoS 2 messages are delivered exactly once per connection. On a connected client with a handler and
  a transport that accepts every write, starting with an empty store: when the packets of one identifier
  in the stream are any number of PUBLISH packets (the first and its retransmissions) followed by any
  number of PUBREL packets, then the handler is called exactly once for that identifier, with the
  message of the last PUBLISH, whatever other packets that a broker may send are interleaved.\<close>

theorem qos2_exactly_once:
  assumes "accepts_all tWrite tlog" "list_all inOk es" "map inBytes es = map Ret bss"
    and "sig (scli st) \<noteq> None" "bHandler (scli st) = Some h" "subBuffer st = Map.empty"
    and "filter (concerns pid) es = map InPublish ms @ replicate (Suc k) (InPubRel pid)" "ms \<noteq> []"
  shows "\<exists>st'. serve tWrite (\<lambda>h m s. s @ [m]) \<lparr>rBytes = concat bss, rEnd = x\<rparr> st = (st', Fail x)
    \<and> filter (ofExchange pid) (hstate st') = filter (ofExchange pid) (hstate st) @ [last ms]"
proof -
  obtain b dl out where r: "receiver (subBuffer st) (heard (subBuffer st) es) = (b, dl, out)" by (metis prod_cases3)
  obtain st' where st': "serve tWrite (\<lambda>h m s. s @ [m]) \<lparr>rBytes = concat bss, rEnd = x\<rparr> st = (st', Fail x)"
      "hstate st' = fold (\<lambda>m s. s @ [m]) dl (hstate st)"
    using serve_receiver [OF assms(1-5), of "\<lambda>h m s. s @ [m]" "[]" x] r by (auto simp: serve_end advances_def)
  have log: "fold (\<lambda>m s. s @ [m]) dl s = s @ dl" for s by (induction dl arbitrary: s) simp_all
  have "delivered Map.empty es = dl"
    using receiver_heard [of "subBuffer st" es] r assms(6) by (simp add: delivered_def)
  then have "filter (ofExchange pid) dl = exchange None (filter (concerns pid) es)"
    using delivered_exchange [of Map.empty es pid] assms(2) by (simp add: storeOk_def)
  also have "\<dots> = [last ms]"
    using assms(7,8) by (simp add: exchange_publishes exchange_released)
  finally show ?thesis using st' log by simp
qed

theorem qos2_exactly_once_witness:
  "\<exists>bss st'. map inBytes [InConnAck \<lparr>SessionPresent = False, Code = 0\<rparr>, InPublish (demoMessage 2), InPingResp,
          InPublish (demoMessage 2), InPubRel 7, InPubRel 7] = map Ret bss
    \<and> serve logWrite (\<lambda>h m s. s @ [m])
        \<lparr>rBytes = concat bss, rEnd = Sentinel io_EOF\<rparr> \<lparr>scli = demoClient, subBuffer = Map.empty, hstate = []\<rparr>
      = (st', Fail (Sentinel io_EOF)) \<and> filter (ofExchange 7) (hstate st') = [demoMessage 2]"
proof -
  let ?es = "[InConnAck \<lparr>SessionPresent = False, Code = 0\<rparr>, InPublish (demoMessage 2), InPingResp,
          InPublish (demoMessage 2), InPubRel 7, InPubRel 7]"
  let ?st = "\<lparr>scli = demoClient, subBuffer = Map.empty, hstate = []\<rparr>"
  have ok: "list_all inOk ?es" using demo_publishable [of 2] by simp
  then obtain bss where bss: "map inBytes ?es = map Ret bss" using map_inBytes_Ret by blast
  have st: "sig (scli ?st) \<noteq> None" "bHandler (scli ?st) = Some ()" "subBuffer ?st = Map.empty" by simp_all
  have "filter (concerns 7) ?es
      = map InPublish [demoMessage 2, demoMessage 2] @ replicate (Suc 1) (InPubRel 7)"
    by (simp add: QoS_defs)
  from qos2_exactly_once [OF demo_accepts ok bss st this, of "Sentinel io_EOF"] bss
  show ?thesis by auto
qed

text \<open>\<open>serve\<close> never returns a nil error, on any input: the goroutine of \<open>Connect\<close> always has an
  error to record.\<close>

theorem serve_returns_error: "snd (serve tWrite hServe r st) \<noteq> Ret ()"
proof (induction tWrite hServe r st rule: serve.induct)
  case (1 tWrite hServe r st)
  then show ?case
    by (subst serve.simps) (auto split: outcome.splits prod.splits)
qed

text \<open>A packet that a client must not receive (CONNECT, SUBSCRIBE, UNSUBSCRIBE, PINGREQ, DISCONNECT
  or an undefined type) ends the loop with an invalid-packet error; nothing is written, delivered or
  signalled.\<close>

theorem serve_rejects_unexpected:
  assumes "pktType \<notin> {packetConnAck, packetPublish, packetPubAck, packetPubRec, packetPubRel, packetPubComp,
     packetSubAck, packetUnsubAck, packetPingResp}"
  shows "\<exists>f. servePacket tWrite hServe pktType pktFlag contents st = (st, failE ErrInvalidPacket f)"
  using assms by (simp add: servePacket_def) blast

theorem serve_rejects_unexpected_witness:
  "\<exists>f. servePacket logWrite (\<lambda>h m s. s @ [m]) packetConnect 0 []
      \<lparr>scli = demoClient, subBuffer = Map.empty, hstate = []\<rparr>
    = (\<lparr>scli = demoClient, subBuffer = Map.empty, hstate = []\<rparr>, failE ErrInvalidPacket f)"
  by (rule serve_rejects_unexpected) (simp add: packetType_defs)

text \<open>A PUBREL for an identifier that is not in the store, such as a retransmitted PUBREL or one that
  follows a reconnection, is ignored: nothing is written, so the broker never gets the PUBCOMP that MQTT
  3.1.1 section 4.3.3 requires.\<close>

theorem pubrel_unknown_unanswered:
  assumes "subBuffer st pid = None"
  shows "servePacket tWrite hServe packetPubRel 0x02 (packUint16 pid) st = (st, Ret ())"
  using assms
  by (simp add: servePacket_def packetType_defs parsed_def pktPubRel_Parse_def servePubRel_def codec_simps)

theorem pubrel_unknown_unanswered_witness:
  "servePacket logWrite (\<lambda>h m s. s @ [m]) packetPubRel 0x02 (packUint16 7)
      \<lparr>scli = demoClient, subBuffer = Map.empty, hstate = []\<rparr>
    = (\<lparr>scli = demoClient, subBuffer = Map.empty, hstate = []\<rparr>, Ret ())"
  by (rule pubrel_unknown_unanswered) simp

lemma serveExit_open:
  assumes "connClosed c = ChanOpen"
  shows "\<exists>c'. serveExit tClose (Some err) c = (c', Ret ()) \<and> connClosed c' = ChanClosed
    \<and> Transport c' = fst (tClose (Transport c))"
  using assms
  by (auto simp: serveExit_def transportClose_def SetErrorOnce_def connStateUpdate_def Let_def split: prod.splits)

text \<open>C28: when the serve goroutine of an open connection ends without a panic, the client is \<open>Done\<close>, its
  state is final, its error is the first one recorded (the error of \<open>serve\<close> when none was), and a
  graceful \<open>Disconnect\<close> leaves the error as it was: nil.\<close>

theorem serveExit_outcome:
  assumes "connClosed c = ChanOpen"
  shows "\<exists>c'. serveExit tClose (Some err) c = (c', Ret ())
    \<and> Done c' = ChanClosed \<and> Transport c' = fst (tClose (Transport c))
    \<and> connState c' = (if connState c = StateDisconnected then StateDisconnected else StateClosed)
    \<and> Err c' = (if connState c = StateDisconnected \<or> Err c \<noteq> None then Err c else Some err)"
  using assms
  by (auto simp: serveExit_def transportClose_def SetErrorOnce_def connStateUpdate_def Done_def Err_def Let_def
      split: prod.splits)

theorem serveExit_outcome_witness:
  "\<exists>c'. serveExit (\<lambda>t. (t, None)) (Some (Sentinel io_EOF)) (clientInit 5 (newClient () :: (unit, unit) BaseClient)) = (c', Ret ())
    \<and> Done c' = ChanClosed \<and> Transport c' = ()
    \<and> connState c' = StateClosed \<and> Err c' = Some (Sentinel io_EOF)"
  using serveExit_outcome [of "clientInit 5 (newClient () :: (unit, unit) BaseClient)" "\<lambda>t. (t, None)" "Sentinel io_EOF"]
  by (simp add: clientInit_def newClient_def Err_def)

end
