(* ===== verification/System.thy ===== *)
theory System
  imports Serve
begin

text \<open>
  A \<open>BaseClient\<close> with its goroutines: the callers of requests, blocked or not, and the serve loop. A step
  starts a request, takes a blocked request through one case of its \<open>select\<close>, handles one packet, or
  ends the serve loop; steps of different goroutines interleave in any order.

  Any request may start at any time, also a \<open>Connect\<close> while others are blocked or a serve loop is running:
  the order that the lock \<open>muConnecting\<close> enforces on some of them is not assumed. Every run of \<open>serve\<close> has a
  store of its own, so a packet is handled with any store \<open>b\<close>.
\<close>

subsection \<open>Slots\<close>

text \<open>The entries of the signaller, in one view: a slot names the kind of an acknowledgement and the
  identifier it carries.\<close>

datatype slot = SConn | SPing | SPubAck uint16 | SPubRec uint16 | SPubComp uint16 | SSub uint16 | SUnsub uint16

primrec slotOf :: "signaller \<Rightarrow> slot \<Rightarrow> chan option" where
  "slotOf s SConn = chConnAck s"
| "slotOf s SPing = chPingResp s"
| "slotOf s (SPubAck pid) = chPubAck s pid"
| "slotOf s (SPubRec pid) = chPubRec s pid"
| "slotOf s (SPubComp pid) = chPubComp s pid"
| "slotOf s (SSub pid) = chSubAck s pid"
| "slotOf s (SUnsub pid) = chUnsubAck s pid"

primrec ackSlot :: "ackPkt \<Rightarrow> slot" where
  "ackSlot (AckConn a) = SConn"
| "ackSlot AckPing = SPing"
| "ackSlot (AckPub pid) = SPubAck pid"
| "ackSlot (AckRec pid) = SPubRec pid"
| "ackSlot (AckComp pid) = SPubComp pid"
| "ackSlot (AckSub a) = SSub (subAckID a)"
| "ackSlot (AckUnsub pid) = SUnsub pid"

primrec waitSlot :: "wait \<Rightarrow> slot" where
  "waitSlot (WPubAck m ch) = SPubAck (mID m)"
| "waitSlot (WPubRec m ch) = SPubRec (mID m)"
| "waitSlot (WPubComp m ch) = SPubComp (mID m)"
| "waitSlot (WSubAck pid subs ch) = SSub pid"
| "waitSlot (WUnsubAck pid topics ch) = SUnsub pid"
| "waitSlot (WPing t ch) = SPing"
| "waitSlot (WConnAck ch) = SConn"

definition clientSlot :: "('t, 'h) BaseClient \<Rightarrow> slot \<Rightarrow> chan option" where
  "clientSlot c sl = Option.bind (sig c) (\<lambda>s. slotOf s sl)"

subsection \<open>Requests and steps\<close>

datatype request =
    ReqPublish Message | ReqRetry retryFn | ReqSubscribe "Subscription list" | ReqUnsubscribe "gostring list"
  | ReqPing | ReqDisconnect | ReqConnect uint32 gostring "ConnectOption list"

fun startRequest ::
  "('t \<Rightarrow> byte list \<Rightarrow> 't \<times> int result) \<Rightarrow> ('t \<Rightarrow> 't \<times> goerror option) \<Rightarrow> int \<Rightarrow> ('t, 'h) BaseClient \<Rightarrow> request
     \<Rightarrow> ('t, 'h) BaseClient \<times> progress" where
  "startRequest tWrite tClose now c (ReqPublish m) = (case Publish tWrite c m of (c', m', p) \<Rightarrow> (c', p))"
| "startRequest tWrite tClose now c (ReqRetry r) = runRetry tWrite c r"
| "startRequest tWrite tClose now c (ReqSubscribe subs) = Subscribe tWrite c subs"
| "startRequest tWrite tClose now c (ReqUnsubscribe topics) = Unsubscribe tWrite c topics"
| "startRequest tWrite tClose now c ReqPing = Ping tWrite now c"
| "startRequest tWrite tClose now c ReqDisconnect = Disconnect tWrite tClose c"
| "startRequest tWrite tClose now c (ReqConnect rnd clientID opts) = Connect tWrite rnd c clientID opts"

definition isConnect :: "request \<Rightarrow> bool" where
  "isConnect r \<longleftrightarrow> (case r of ReqConnect rnd i opts \<Rightarrow> True | _ \<Rightarrow> False)"

record ('t, 'h, 's) system =
  loop :: "('t, 'h, 's) serveState"
  blocked :: "nat \<rightharpoonup> wait"
  results :: "nat \<rightharpoonup> reply result"
  nextReq :: nat

definition record_progress :: "nat \<Rightarrow> progress \<Rightarrow> ('t, 'h, 's) system \<Rightarrow> ('t, 'h, 's) system" where
  "record_progress i p sys =
     (case p of
        Finished r \<Rightarrow> sys\<lparr>blocked := (blocked sys)(i := None), results := (results sys)(i \<mapsto> r)\<rparr>
      | Waiting w \<Rightarrow> sys\<lparr>blocked := (blocked sys)(i \<mapsto> w)\<rparr>)"

definition setCli :: "('t, 'h) BaseClient \<Rightarrow> ('t, 'h, 's) system \<Rightarrow> ('t, 'h, 's) system" where
  "setCli c sys = sys\<lparr>loop := (loop sys)\<lparr>scli := c\<rparr>\<rparr>"

inductive sysStep ::
  "('t \<Rightarrow> byte list \<Rightarrow> 't \<times> int result) \<Rightarrow> ('t \<Rightarrow> 't \<times> goerror option) \<Rightarrow> ('h \<Rightarrow> Message \<Rightarrow> 's \<Rightarrow> 's)
     \<Rightarrow> ('t, 'h, 's) system \<Rightarrow> ('t, 'h, 's) system \<Rightarrow> bool"
  for tWrite tClose hServe where
  step_start: "startRequest tWrite tClose now (scli (loop sys)) r = (c', p)
    \<Longrightarrow> sysStep tWrite tClose hServe sys
          (record_progress (nextReq sys) p ((setCli c' sys)\<lparr>nextReq := nextReq sys + 1\<rparr>))"
| step_resume: "blocked sys i = Some w \<Longrightarrow> resume tWrite tClose now (scli (loop sys)) w sel = Some (c', p)
    \<Longrightarrow> sysStep tWrite tClose hServe sys (record_progress i p (setCli c' sys))"
| step_packet: "serveLoops (scli (loop sys)) > 0
    \<Longrightarrow> servePacket tWrite hServe ty fl contents ((loop sys)\<lparr>subBuffer := b\<rparr>) = (st', Ret ())
    \<Longrightarrow> sysStep tWrite tClose hServe sys (sys\<lparr>loop := st'\<rparr>)"
| step_packet_error: "serveLoops (scli (loop sys)) > 0
    \<Longrightarrow> servePacket tWrite hServe ty fl contents ((loop sys)\<lparr>subBuffer := b\<rparr>) = (st', Fail err)
    \<Longrightarrow> serveExit tClose (Some err) (scli st') = (c', Ret ())
    \<Longrightarrow> sysStep tWrite tClose hServe sys (sys\<lparr>loop := st'\<lparr>scli := c'\<rparr>\<rparr>)"
| step_read_error: "serveLoops (scli (loop sys)) > 0
    \<Longrightarrow> serveExit tClose (Some err) (scli (loop sys)) = (c', Ret ())
    \<Longrightarrow> sysStep tWrite tClose hServe sys (setCli c' sys)"
| step_handle: "sysStep tWrite tClose hServe sys (setCli (Handle (scli (loop sys)) h) sys)"

definition initSystem :: "'t \<Rightarrow> 's \<Rightarrow> ('t, 'h, 's) system" where
  "initSystem t s = \<lparr>loop = \<lparr>scli = newClient t, subBuffer = Map.empty, hstate = s\<rparr>, blocked = Map.empty,
     results = Map.empty, nextReq = 0\<rparr>"

definition reachable ::
  "('t \<Rightarrow> byte list \<Rightarrow> 't \<times> int result) \<Rightarrow> ('t \<Rightarrow> 't \<times> goerror option) \<Rightarrow> ('h \<Rightarrow> Message \<Rightarrow> 's \<Rightarrow> 's) \<Rightarrow> 't \<Rightarrow> 's
     \<Rightarrow> ('t, 'h, 's) system \<Rightarrow> bool" where
  "reachable tWrite tClose hServe t s sys \<longleftrightarrow> (sysStep tWrite tClose hServe)\<^sup>*\<^sup>* (initSystem t s) sys"

subsection \<open>The invariant\<close>

text \<open>Every channel belongs to one slot for good (\<open>own\<close>). A channel in the signaller, a channel a request
  waits on and a packet in a channel agree with it; a channel has at most one packet and at most one
  waiting request; and a channel registered under an identifier is empty, so that the next
  acknowledgement cannot be dropped.\<close>

definition keyed :: "slot \<Rightarrow> bool" where
  "keyed sl \<longleftrightarrow> sl \<noteq> SConn \<and> sl \<noteq> SPing"

definition invC :: "(chan \<Rightarrow> slot) \<Rightarrow> ('t, 'h) BaseClient \<Rightarrow> bool" where
  "invC own c \<longleftrightarrow>
     (\<forall>sl ch. clientSlot c sl = Some ch \<longrightarrow> own ch = sl \<and> ch < nextChan c \<and> (keyed sl \<longrightarrow> chans c ch = []))
     \<and> (\<forall>ch. length (chans c ch) \<le> 1 \<and> (\<forall>p \<in> set (chans c ch). ackSlot p = own ch))
     \<and> (\<forall>ch \<ge> nextChan c. chans c ch = [])"

definition invB :: "(chan \<Rightarrow> slot) \<Rightarrow> chan \<Rightarrow> (nat \<rightharpoonup> wait) \<Rightarrow> bool" where
  "invB own n bl \<longleftrightarrow>
     (\<forall>i w. bl i = Some w \<longrightarrow> waitSlot w = own (waitChan w) \<and> waitChan w < n)
     \<and> (\<forall>i j w v. bl i = Some w \<longrightarrow> bl j = Some v \<longrightarrow> waitChan w = waitChan v \<longrightarrow> i = j)"

definition sysInv :: "('t, 'h, 's) system \<Rightarrow> bool" where
  "sysInv sys \<longleftrightarrow> (\<exists>own. invC own (scli (loop sys)) \<and> invB own (nextChan (scli (loop sys))) (blocked sys))
     \<and> (\<forall>i \<ge> nextReq sys. blocked sys i = None)"

subsection \<open>Effects on the channels\<close>

definition sameChans :: "('t, 'h) BaseClient \<Rightarrow> ('t, 'h) BaseClient \<Rightarrow> bool" where
  "sameChans c c' \<longleftrightarrow> sig c' = sig c \<and> chans c' = chans c \<and> nextChan c' = nextChan c"

text \<open>A fresh channel is registered in slot \<open>sl\<close>; other slots stay or are emptied (by \<open>init\<close>).\<close>

definition registers :: "('t, 'h) BaseClient \<Rightarrow> slot \<Rightarrow> ('t, 'h) BaseClient \<Rightarrow> bool" where
  "registers c sl c' \<longleftrightarrow> nextChan c' = nextChan c + 1 \<and> chans c' = (chans c)(nextChan c := [])
     \<and> clientSlot c' sl = Some (nextChan c)
     \<and> (\<forall>sl'. sl' \<noteq> sl \<longrightarrow> clientSlot c' sl' = clientSlot c sl' \<or> clientSlot c' sl' = None)"

text \<open>What a request does to the channels until it finishes or blocks.\<close>

definition reqEffect :: "('t, 'h) BaseClient \<Rightarrow> ('t, 'h) BaseClient \<Rightarrow> progress \<Rightarrow> bool" where
  "reqEffect c c' p \<longleftrightarrow>
     (sameChans c c' \<and> (\<exists>r. p = Finished r))
     \<or> (\<exists>sl. registers c sl c' \<and> (\<forall>w. p = Waiting w \<longrightarrow> waitSlot w = sl \<and> waitChan w = nextChan c))"

lemma sendPkt_frame:
  "\<exists>t p. sendPkt tWrite c pkt onErr nxt = (c\<lparr>Transport := t\<rparr>, p) \<and> (p = nxt \<or> (\<exists>r. p = Finished r))"
proof (cases pkt)
  case (Ret b)
  obtain t r where w: "clientWrite tWrite c b = (c\<lparr>Transport := t\<rparr>, r)"
    using clientWrite_frame [of tWrite c b] by blast
  show ?thesis
  proof (cases r)
    case (Fail e)
    have "\<exists>r. returnErr (onErr e) = Finished r" by (cases "onErr e") simp_all
    then show ?thesis using Ret w Fail by (auto simp: sendPkt_def)
  qed (use Ret w in \<open>auto simp: sendPkt_def\<close>)
qed (auto simp: sendPkt_def intro!: exI [of _ "Transport c"])

lemma reqEffect_sendPkt:
  assumes "registers c0 sl c" "\<And>w. nxt = Waiting w \<Longrightarrow> waitSlot w = sl \<and> waitChan w = nextChan c0"
    and "sendPkt tWrite c pkt onErr nxt = (c', p)"
  shows "reqEffect c0 c' p"
proof -
  obtain t where "c' = c\<lparr>Transport := t\<rparr>" "p = nxt \<or> (\<exists>r. p = Finished r)"
    using sendPkt_frame [of tWrite c pkt onErr nxt] assms(3) by auto
  then have "registers c0 sl c'" "\<And>w. p = Waiting w \<Longrightarrow> waitSlot w = sl \<and> waitChan w = nextChan c0"
    using assms(1,2) by (auto simp: registers_def clientSlot_def)
  then show ?thesis unfolding reqEffect_def by blast
qed

lemma reqEffect_cong:
  assumes "reqEffect c1 c' p" "sameChans c c1"
  shows "reqEffect c c' p"
proof -
  have "clientSlot c1 = clientSlot c" using assms(2) by (simp add: sameChans_def clientSlot_def fun_eq_iff)
  with assms show ?thesis
    unfolding reqEffect_def registers_def sameChans_def by metis
qed

lemma sameChans_idLast: "sameChans c (c\<lparr>idLast := l\<rparr>)"
  by (simp add: sameChans_def)

lemma slot_funI:
  assumes "f SConn = g SConn" "f SPing = g SPing" "\<And>p. f (SPubAck p) = g (SPubAck p)"
    "\<And>p. f (SPubRec p) = g (SPubRec p)" "\<And>p. f (SPubComp p) = g (SPubComp p)"
    "\<And>p. f (SSub p) = g (SSub p)" "\<And>p. f (SUnsub p) = g (SUnsub p)"
  shows "f = g"
proof
  fix sl show "f sl = g sl" using assms by (cases sl) simp_all
qed

lemma slotOf_register:
  "slotOf (regPubAck s pid ch) = (slotOf s)(SPubAck pid := Some ch)"
  "slotOf (regPubRec s pid ch) = (slotOf s)(SPubRec pid := Some ch)"
  "slotOf (regPubComp s pid ch) = (slotOf s)(SPubComp pid := Some ch)"
  "slotOf (regSubAck s pid ch) = (slotOf s)(SSub pid := Some ch)"
  "slotOf (regUnsubAck s pid ch) = (slotOf s)(SUnsub pid := Some ch)"
  "slotOf (s\<lparr>chPingResp := Some ch\<rparr>) = (slotOf s)(SPing := Some ch)"
  "slotOf (s\<lparr>chConnAck := Some ch\<rparr>) = (slotOf s)(SConn := Some ch)"
  by (rule slot_funI; simp add: client_simps)+

lemma slotOf_lookup:
  "slotOf (fst (sigPubAck s pid)) = (slotOf s)(SPubAck pid := None)"
  "slotOf (fst (sigPubRec s pid)) = (slotOf s)(SPubRec pid := None)"
  "slotOf (fst (sigPubComp s pid)) = (slotOf s)(SPubComp pid := None)"
  "slotOf (fst (sigSubAck s pid)) = (slotOf s)(SSub pid := None)"
  "slotOf (fst (sigUnsubAck s pid)) = (slotOf s)(SUnsub pid := None)"
  by (rule slot_funI; simp add: client_simps)+

lemma slotOf_new: "slotOf newSignaller sl = None"
  by (cases sl) (simp_all add: newSignaller_def)

lemma registersI:
  assumes "sig c = Some s" "slotOf s' = (slotOf s)(sl := Some (nextChan c))" "makeChan c = (c1, ch)"
  shows "registers c sl (c1\<lparr>sig := Some s'\<rparr>)" "ch = nextChan c"
  using assms by (auto simp: registers_def clientSlot_def makeChan_def)

lemma publishRegister_effect:
  assumes "sig c = Some s" "publishRegister c s m = (c', nxt)"
  shows "(c' = c \<and> nxt = Finished (Ret RNone))
    \<or> (\<exists>sl. registers c sl c' \<and> (\<forall>w. nxt = Waiting w \<longrightarrow> waitSlot w = sl \<and> waitChan w = nextChan c))"
  using assms registersI [OF assms(1) slotOf_register(1)] registersI [OF assms(1) slotOf_register(2)]
  by (auto simp: publishRegister_def split: if_splits prod.splits)

lemma publishImpl_effect:
  assumes "publishImpl tWrite c m dup = (c', m', p)"
  shows "reqEffect c c' p"
proof -
  obtain c1 m1 where a: "publishAssign c m dup = (c1, m1)" by (cases "publishAssign c m dup")
  then have same: "sameChans c c1" using publishAssign_cases(4) sameChans_idLast by metis
  show ?thesis
  proof (cases "sig c1")
    case None
    then show ?thesis using assms a same by (auto simp: publishImpl_def reqEffect_def)
  next
    case (Some s)
    obtain c2 nxt where r: "publishRegister c1 s m1 = (c2, nxt)" by (cases "publishRegister c1 s m1")
    obtain onErr where snd: "sendPkt tWrite c2 (pktPublish_Pack m1) onErr nxt = (c', p)"
      using assms a Some r by (auto simp: publishImpl_def split: prod.splits)
    have "reqEffect c1 c' p"
    proof (cases "c2 = c1 \<and> nxt = Finished (Ret RNone)")
      case True
      then obtain t where "c' = c1\<lparr>Transport := t\<rparr>" "\<exists>r. p = Finished r"
        using sendPkt_frame [of tWrite c2 "pktPublish_Pack m1" onErr nxt] snd by auto
      then show ?thesis by (simp add: reqEffect_def sameChans_def)
    next
      case False
      then obtain sl where "registers c1 sl c2" "\<And>w. nxt = Waiting w \<Longrightarrow> waitSlot w = sl \<and> waitChan w = nextChan c1"
        using publishRegister_effect [OF Some r] by blast
      then show ?thesis using reqEffect_sendPkt snd by blast
    qed
    then show ?thesis using reqEffect_cong same by blast
  qed
qed

lemma retryPublish2_effect:
  assumes "retryPublish2 tWrite c m = (c', p)"
  shows "reqEffect c c' p"
proof (cases "sig c")
  case None
  then show ?thesis using assms by (auto simp: retryPublish2_def reqEffect_def sameChans_def)
next
  case (Some s)
  obtain c1 ch where mk: "makeChan c = (c1, ch)" by (cases "makeChan c")
  note reg = registersI [OF Some slotOf_register(3) mk]
  show ?thesis
    by (rule reqEffect_sendPkt [OF reg(1), of "Waiting (WPubComp m ch)" "mID m"])
      (use assms Some mk reg(2) in \<open>auto simp: retryPublish2_def\<close>)
qed

lemma subscribeImpl_effect:
  assumes "subscribeImpl tWrite c subs = (c', p)"
  shows "reqEffect c c' p"
proof -
  obtain l pid where n: "clientNewID c = (c\<lparr>idLast := l\<rparr>, pid)"
    by (cases "newID (idLast c)") (simp add: clientNewID_def)
  show ?thesis
  proof (cases "sig c")
    case None
    then show ?thesis using assms n by (auto simp: subscribeImpl_def reqEffect_def sameChans_def)
  next
    case (Some s)
    obtain c1 ch where mk: "makeChan (c\<lparr>idLast := l\<rparr>) = (c1, ch)" by (cases "makeChan (c\<lparr>idLast := l\<rparr>)")
    have "sig (c\<lparr>idLast := l\<rparr>) = Some s" using Some by simp
    note reg = registersI [OF this slotOf_register(4) mk]
    have "reqEffect (c\<lparr>idLast := l\<rparr>) c' p"
      by (rule reqEffect_sendPkt [OF reg(1), of "Waiting (WSubAck pid subs ch)"])
        (use assms Some n mk reg(2) in \<open>auto simp: subscribeImpl_def\<close>)
    then show ?thesis using reqEffect_cong sameChans_idLast by blast
  qed
qed

lemma unsubscribeImpl_effect:
  assumes "unsubscribeImpl tWrite c topics = (c', p)"
  shows "reqEffect c c' p"
proof -
  obtain l pid where n: "clientNewID c = (c\<lparr>idLast := l\<rparr>, pid)"
    by (cases "newID (idLast c)") (simp add: clientNewID_def)
  show ?thesis
  proof (cases "sig c")
    case None
    then show ?thesis using assms n by (auto simp: unsubscribeImpl_def reqEffect_def sameChans_def)
  next
    case (Some s)
    obtain c1 ch where mk: "makeChan (c\<lparr>idLast := l\<rparr>) = (c1, ch)" by (cases "makeChan (c\<lparr>idLast := l\<rparr>)")
    have "sig (c\<lparr>idLast := l\<rparr>) = Some s" using Some by simp
    note reg = registersI [OF this slotOf_register(5) mk]
    have "reqEffect (c\<lparr>idLast := l\<rparr>) c' p"
      by (rule reqEffect_sendPkt [OF reg(1), of "Waiting (WUnsubAck pid topics ch)"])
        (use assms Some n mk reg(2) in \<open>auto simp: unsubscribeImpl_def\<close>)
    then show ?thesis using reqEffect_cong sameChans_idLast by blast
  qed
qed

lemma Ping_effect:
  assumes "Ping tWrite now c = (c', p)"
  shows "reqEffect c c' p"
proof (cases "sig c")
  case None
  then show ?thesis using assms by (auto simp: Ping_def reqEffect_def sameChans_def)
next
  case (Some s)
  obtain c1 ch where mk: "makeChan c = (c1, ch)" by (cases "makeChan c")
  then have ch: "ch = nextChan c" by (simp add: makeChan_def)
  note reg = registersI [OF Some slotOf_register(6) mk]
  show ?thesis
    by (rule reqEffect_sendPkt [OF reg(1), of "Waiting (WPing now ch)"])
      (use assms Some mk ch in \<open>auto simp: Ping_def\<close>)
qed

lemma connStateUpdate_sameChans: "sameChans c (connStateUpdate c st)"
  by (simp add: sameChans_def connStateUpdate_def Let_def)

lemma transportClose_sameChans: "sameChans c (fst (transportClose tClose c))"
  by (simp add: sameChans_def transportClose_def split: prod.splits)

lemma sameChans_trans: "sameChans a b \<Longrightarrow> sameChans b c \<Longrightarrow> sameChans a c"
  by (simp add: sameChans_def)

lemma Disconnect_effect:
  assumes "Disconnect tWrite tClose c = (c', p)"
  shows "reqEffect c c' p"
proof -
  let ?c = "connStateUpdate c StateDisconnected"
  obtain t q where s: "sendPkt tWrite ?c (pack packetDisconnect [])
      (\<lambda>err. wrapError (Some err) ''sending DISCONNECT'') (Finished (Ret RNone)) = (?c\<lparr>Transport := t\<rparr>, q)"
      "\<exists>r. q = Finished r"
    using sendPkt_frame by metis
  have "sameChans c (?c\<lparr>Transport := t\<rparr>)"
    using connStateUpdate_sameChans [of c StateDisconnected] by (simp add: sameChans_def)
  moreover have "(c' = ?c\<lparr>Transport := t\<rparr> \<or> c' = fst (transportClose tClose (?c\<lparr>Transport := t\<rparr>))) \<and> p = q"
    using assms s by (auto simp: Disconnect_def split: outcome.splits)
  ultimately show ?thesis
    using s(2) transportClose_sameChans sameChans_trans unfolding reqEffect_def by metis
qed

lemma registerConnAck_registers:
  assumes "registerConnAck (clientInit rnd c\<lparr>serveLoops := n\<rparr>) = (c', ch)"
  shows "registers c SConn c'" "ch = nextChan c"
  using assms
  by (auto simp: registerConnAck_def makeChan_def clientInit_def registers_def clientSlot_def slotOf_register slotOf_new)

lemma Connect_effect:
  assumes "Connect tWrite rnd c clientID opts = (c', p)"
  shows "reqEffect c c' p"
proof (cases "applyOptions opts defaultOptions")
  case (Ret o')
  let ?c = "clientInit rnd c\<lparr>serveLoops := serveLoops (clientInit rnd c) + 1\<rparr>"
  obtain c1 ch where r: "registerConnAck ?c = (c1, ch)" by (cases "registerConnAck ?c")
  note reg = registerConnAck_registers [OF r]
  show ?thesis
    by (rule reqEffect_sendPkt [OF reg(1), of "Waiting (WConnAck ch)"])
      (use assms Ret r reg(2) in \<open>auto simp: Connect_def Let_def\<close>)
qed (use assms in \<open>auto simp: Connect_def reqEffect_def sameChans_def wrapError_def\<close>)

lemma runRetry_effect: "runRetry tWrite c r = (c', p) \<Longrightarrow> reqEffect c c' p"
  by (cases r) (auto dest: publishImpl_effect retryPublish2_effect subscribeImpl_effect unsubscribeImpl_effect
      split: prod.splits)

lemma reqEffect_refl [simp]: "reqEffect c c (Finished r)"
  by (simp add: reqEffect_def sameChans_def)

lemma Publish_effect:
  assumes "Publish tWrite c m = (c', m', p)"
  shows "reqEffect c c' p"
  using assms
  by (cases "ValidateMessage c m")
    (auto simp: Publish_def dest: publishImpl_effect)

lemma startRequest_effect: "startRequest tWrite tClose now c r = (c', p) \<Longrightarrow> reqEffect c c' p"
  by (cases r) (auto simp: Subscribe_def Unsubscribe_def dest: Publish_effect runRetry_effect subscribeImpl_effect
      unsubscribeImpl_effect Ping_effect Disconnect_effect Connect_effect split: prod.splits)

lemma onRecv_effect:
  assumes "onRecv tWrite tClose now c w pk = (c', p)"
  shows "reqEffect c c' p"
proof (cases "\<exists>m ch i. w = WPubRec m ch \<and> pk = AckRec i")
  case True
  then show ?thesis using assms by (auto simp: onRecv_def dest: retryPublish2_effect)
next
  case False
  have "sameChans c c' \<and> (\<exists>r. p = Finished r)"
    using assms False connStateUpdate_sameChans [of c StateActive] transportClose_sameChans [of c tClose]
    by (auto simp: onRecv_def onSubAck_def onConnAck_def wrapError_def sameChans_def
        split: wait.splits ackPkt.splits if_splits)
  then show ?thesis unfolding reqEffect_def by blast
qed

subsection \<open>The invariant is kept\<close>

lemma invC_sameChans: "invC own c \<Longrightarrow> sameChans c c' \<Longrightarrow> invC own c'"
  by (simp add: invC_def sameChans_def clientSlot_def)

lemma invC_registers:
  assumes "invC own c" "registers c sl c'"
  shows "invC (own(nextChan c := sl)) c'"
proof -
  have slot: "clientSlot c' sl' = Some ch \<Longrightarrow>
      (sl' = sl \<and> ch = nextChan c) \<or> (sl' \<noteq> sl \<and> clientSlot c sl' = Some ch)" for sl' ch
    using assms(2) unfolding registers_def by (metis option.distinct(1) option.inject)
  show ?thesis
    using assms slot unfolding invC_def registers_def
    by (auto simp: less_Suc_eq)
qed

lemma invB_registers:
  assumes "invB own n bl"
  shows "invB (own(n := sl)) (n + 1) bl"
  using assms unfolding invB_def by (fastforce simp: less_Suc_eq)

lemma invB_remove: "invB own n bl \<Longrightarrow> invB own n (bl(i := None))"
  by (auto simp: invB_def)

lemma invB_add:
  assumes "invB own n bl" "waitSlot w = sl" "waitChan w = n"
  shows "invB (own(n := sl)) (n + 1) (bl(i \<mapsto> w))"
  using assms unfolding invB_def by (auto simp: less_Suc_eq) (metis less_irrefl)+

text \<open>A request of index \<open>i\<close> runs from \<open>c\<close> to \<open>c'\<close>.\<close>

lemma reqEffect_inv:
  assumes "invC own c" "invB own (nextChan c) bl" "reqEffect c c' p"
  shows "\<exists>own'. invC own' c' \<and> invB own' (nextChan c')
    (case p of Finished r \<Rightarrow> bl(i := None) | Waiting w \<Rightarrow> bl(i \<mapsto> w))"
proof -
  consider (same) r where "sameChans c c'" "p = Finished r"
    | (reg) sl where "registers c sl c'" "\<And>w. p = Waiting w \<Longrightarrow> waitSlot w = sl \<and> waitChan w = nextChan c"
    using assms(3) unfolding reqEffect_def by blast
  then show ?thesis
  proof cases
    case same
    then show ?thesis
      using invC_sameChans [OF assms(1)] invB_remove [OF assms(2)] by (auto simp: sameChans_def)
  next
    case reg
    then have n: "nextChan c' = nextChan c + 1" by (simp add: registers_def)
    show ?thesis
    proof (cases p)
      case (Finished r)
      then show ?thesis
        using invC_registers [OF assms(1) reg(1)] invB_remove [OF invB_registers [OF assms(2)]] n by auto
    next
      case (Waiting w)
      then show ?thesis
        using invC_registers [OF assms(1) reg(1)] invB_add [OF assms(2)] reg(2) n by auto
    qed
  qed
qed

text \<open>A packet is sent to the channel of its slot; a slot with an identifier is emptied first.\<close>

lemma invC_slot:
  "invC own c \<Longrightarrow> clientSlot c sl = Some ch \<Longrightarrow> own ch = sl \<and> ch < nextChan c \<and> (keyed sl \<longrightarrow> chans c ch = [])"
  unfolding invC_def by blast

lemma trySend_Some:
  "clientSlot (trySend c (Some k) p) = clientSlot c"
  "chans (trySend c (Some k) p) = (chans c)(k := if chans c k = [] then [p] else chans c k)"
  by (auto simp: trySend_def clientSlot_def fun_eq_iff)

lemma invC_send:
  assumes "invC own c" "\<And>sl'. clientSlot c1 sl' = clientSlot c sl' \<or> clientSlot c1 sl' = None"
    and "keyed (ackSlot p) \<Longrightarrow> clientSlot c1 (ackSlot p) = None"
    and "chans c1 = chans c" "nextChan c1 = nextChan c"
  shows "invC own (trySend c1 (clientSlot c (ackSlot p)) p)"
proof (cases "clientSlot c (ackSlot p)")
  case None
  then show ?thesis using assms unfolding invC_def trySend_def by (simp, metis option.distinct(1))
next
  case (Some k)
  then have k: "own k = ackSlot p" "k < nextChan c" using invC_slot [OF assms(1)] by blast+
  have slots: "clientSlot c1 sl = Some ch \<Longrightarrow> clientSlot c sl = Some ch" for sl ch
    using assms(2) [of sl] by auto
  have other: "ch \<noteq> k" if "clientSlot c1 sl = Some ch" "keyed sl" for sl ch
    using invC_slot [OF assms(1) slots [OF that(1)]] that assms(3) k(1) by auto
  have "length (chans c ch) \<le> 1 \<and> (\<forall>q \<in> set (chans c ch). ackSlot q = own ch)"
    "nextChan c \<le> ch \<Longrightarrow> chans c ch = []" for ch
    using assms(1) unfolding invC_def by blast+
  then show ?thesis
    using invC_slot [OF assms(1) slots] other k assms(4,5)
    unfolding invC_def Some trySend_Some trySend_frame by auto
qed

lemma signalOne_inv:
  assumes "invC own (scli st)" "signalOne get p st = (st', r)" "\<And>s. get s = slotOf s (ackSlot p)"
    and "\<not> keyed (ackSlot p)"
  shows "invC own (scli st')" "nextChan (scli st') = nextChan (scli st)"
proof -
  have "invC own (trySend (scli st) (clientSlot (scli st) (ackSlot p)) p)"
    using assms(4) by (intro invC_send [OF assms(1)]) auto
  then show "invC own (scli st')" "nextChan (scli st') = nextChan (scli st)"
    using assms by (auto simp: signalOne_def clientSlot_def split: option.splits)
qed

lemma signal_inv:
  assumes "invC own (scli st)" "signal lookup pid p st = (st', r)"
    and "\<And>s. slotOf (fst (lookup s pid)) = (slotOf s)(ackSlot p := None)"
    and "\<And>s. snd (lookup s pid) = slotOf s (ackSlot p)"
  shows "invC own (scli st')" "nextChan (scli st') = nextChan (scli st)"
proof -
  have "invC own (trySend ((scli st)\<lparr>sig := Some (fst (lookup s pid))\<rparr>) (clientSlot (scli st) (ackSlot p)) p)"
    if "sig (scli st) = Some s" for s
    using that assms(3) by (intro invC_send [OF assms(1)]) (auto simp: clientSlot_def)
  then show "invC own (scli st')" "nextChan (scli st') = nextChan (scli st)"
    using assms(1,2,4) by (auto simp: signal_def clientSlot_def case_prod_beta split: option.splits)
qed

lemma lookup_slot:
  "snd (sigPubAck s pid) = slotOf s (SPubAck pid)" "snd (sigPubRec s pid) = slotOf s (SPubRec pid)"
  "snd (sigPubComp s pid) = slotOf s (SPubComp pid)" "snd (sigSubAck s pid) = slotOf s (SSub pid)"
  "snd (sigUnsubAck s pid) = slotOf s (SUnsub pid)"
  by (simp_all add: client_simps)

lemma answer_scli: "\<exists>t. scli (fst (answer tWrite pkt f st)) = (scli st)\<lparr>Transport := t\<rparr>"
proof (cases pkt)
  case (Ret b)
  then show ?thesis
    using clientWrite_frame [of tWrite "scli st" b]
    by (cases "snd (writeAll tWrite (Transport (scli st)) b)") (auto simp: answer_def)
qed (auto simp: answer_def intro!: exI [of _ "Transport (scli st)"])

lemma callHandler_scli [simp]: "scli (callHandler hServe m st) = scli st"
  by (simp add: callHandler_def split: option.splits)

lemma sameChans_refl [simp]: "sameChans c c"
  by (simp add: sameChans_def)

lemma answer_sameChans: "answer tWrite pkt f st = (st', r) \<Longrightarrow> sameChans (scli st) (scli st')"
  using answer_scli [of tWrite pkt f st] by (auto simp: sameChans_def)

lemma servePublish_sameChans:
  assumes "servePublish tWrite hServe m st = (st', r)"
  shows "sameChans (scli st) (scli st')"
proof (cases "mQoS m = QoS2")
  case True
  obtain st1 r1 where a: "answer tWrite (pktPubRec_Pack (mID m)) ''sending PUBREC'' st = (st1, r1)"
    by (cases "answer tWrite (pktPubRec_Pack (mID m)) ''sending PUBREC'' st")
  then have "scli st' = scli st1"
    using assms True by (auto simp: servePublish_def QoS_defs split: outcome.splits)
  then show ?thesis using answer_sameChans [OF a] by simp
next
  case False
  then show ?thesis
    using assms answer_sameChans [of tWrite "pktPubAck_Pack (mID m)" "''sending PUBACK''" "callHandler hServe m st"]
    by (auto simp: servePublish_def split: if_splits)
qed

lemma servePubRel_sameChans:
  assumes "servePubRel tWrite hServe pid st = (st', r)"
  shows "sameChans (scli st) (scli st')"
proof (cases "subBuffer st pid")
  case (Some m)
  then show ?thesis
    using assms answer_sameChans [of tWrite "pktPubComp_Pack pid" "''sending PUBCOMP''"
        "(callHandler hServe m st)\<lparr>subBuffer := (subBuffer (callHandler hServe m st))(pid := None)\<rparr>"]
    by (simp add: servePubRel_def Let_def)
qed (use assms in \<open>simp add: servePubRel_def\<close>)

lemma parsed_cases: "parsed st v k = (st', r) \<Longrightarrow> st' = st \<or> (\<exists>x. v = Ret x \<and> k x = (st', r))"
  by (cases v) (auto simp: parsed_def)

lemma servePacket_cases:
  assumes "servePacket tWrite hServe ty fl contents st = (st', r)"
  obtains (none) "st' = st"
    | (connAck) k where "signalOne sigConnAck (AckConn k) st = (st', r)"
    | (publish) m where "servePublish tWrite hServe m st = (st', r)"
    | (pubAck) pid where "signal sigPubAck pid (AckPub pid) st = (st', r)"
    | (pubRec) pid where "signal sigPubRec pid (AckRec pid) st = (st', r)"
    | (pubRel) pid where "servePubRel tWrite hServe pid st = (st', r)"
    | (pubComp) pid where "signal sigPubComp pid (AckComp pid) st = (st', r)"
    | (subAck) a where "signal sigSubAck (subAckID a) (AckSub a) st = (st', r)"
    | (unsubAck) pid where "signal sigUnsubAck pid (AckUnsub pid) st = (st', r)"
    | (pingResp) "signalOne sigPingResp AckPing st = (st', r)"
  using assms unfolding servePacket_def
  by (simp only: split: if_split_asm) (drule parsed_cases, blast | simp)+

lemma signal_ids_inv:
  assumes "invC own (scli st)"
  shows "signal sigPubAck pid (AckPub pid) st = (st', r) \<Longrightarrow> invC own (scli st') \<and> nextChan (scli st') = nextChan (scli st)"
    "signal sigPubRec pid (AckRec pid) st = (st', r) \<Longrightarrow> invC own (scli st') \<and> nextChan (scli st') = nextChan (scli st)"
    "signal sigPubComp pid (AckComp pid) st = (st', r) \<Longrightarrow> invC own (scli st') \<and> nextChan (scli st') = nextChan (scli st)"
    "signal sigSubAck (subAckID a) (AckSub a) st = (st', r) \<Longrightarrow> invC own (scli st') \<and> nextChan (scli st') = nextChan (scli st)"
    "signal sigUnsubAck pid (AckUnsub pid) st = (st', r) \<Longrightarrow> invC own (scli st') \<and> nextChan (scli st') = nextChan (scli st)"
    "signalOne sigConnAck (AckConn k) st = (st', r) \<Longrightarrow> invC own (scli st') \<and> nextChan (scli st') = nextChan (scli st)"
    "signalOne sigPingResp AckPing st = (st', r) \<Longrightarrow> invC own (scli st') \<and> nextChan (scli st') = nextChan (scli st)"
proof -
  note sig = signal_inv [OF assms]
  show "signal sigPubAck pid (AckPub pid) st = (st', r) \<Longrightarrow> invC own (scli st') \<and> nextChan (scli st') = nextChan (scli st)"
    using sig [of sigPubAck pid "AckPub pid" st' r] by (simp add: slotOf_lookup lookup_slot)
  show "signal sigPubRec pid (AckRec pid) st = (st', r) \<Longrightarrow> invC own (scli st') \<and> nextChan (scli st') = nextChan (scli st)"
    using sig [of sigPubRec pid "AckRec pid" st' r] by (simp add: slotOf_lookup lookup_slot)
  show "signal sigPubComp pid (AckComp pid) st = (st', r) \<Longrightarrow> invC own (scli st') \<and> nextChan (scli st') = nextChan (scli st)"
    using sig [of sigPubComp pid "AckComp pid" st' r] by (simp add: slotOf_lookup lookup_slot)
  show "signal sigSubAck (subAckID a) (AckSub a) st = (st', r) \<Longrightarrow> invC own (scli st') \<and> nextChan (scli st') = nextChan (scli st)"
    using sig [of sigSubAck "subAckID a" "AckSub a" st' r] by (simp add: slotOf_lookup lookup_slot)
  show "signal sigUnsubAck pid (AckUnsub pid) st = (st', r) \<Longrightarrow> invC own (scli st') \<and> nextChan (scli st') = nextChan (scli st)"
    using sig [of sigUnsubAck pid "AckUnsub pid" st' r] by (simp add: slotOf_lookup lookup_slot)
  show "signalOne sigConnAck (AckConn k) st = (st', r) \<Longrightarrow> invC own (scli st') \<and> nextChan (scli st') = nextChan (scli st)"
    using signalOne_inv [OF assms, of sigConnAck "AckConn k" st' r] by (simp add: keyed_def client_simps)
  show "signalOne sigPingResp AckPing st = (st', r) \<Longrightarrow> invC own (scli st') \<and> nextChan (scli st') = nextChan (scli st)"
    using signalOne_inv [OF assms, of sigPingResp AckPing st' r] by (simp add: keyed_def client_simps)
qed

lemma servePacket_inv:
  assumes "invC own (scli st)" "servePacket tWrite hServe ty fl contents st = (st', r)"
  shows "invC own (scli st') \<and> nextChan (scli st') = nextChan (scli st)"
proof -
  have same: ?thesis if "sameChans (scli st) (scli st')"
    using invC_sameChans [OF assms(1) that] that by (simp add: sameChans_def)
  note sigs = signal_ids_inv [OF assms(1)]
  from assms(2) show ?thesis
  proof (cases rule: servePacket_cases)
    case none
    then show ?thesis using assms(1) by simp
  next
    case publish
    then show ?thesis using same servePublish_sameChans by blast
  next
    case pubRel
    then show ?thesis using same servePubRel_sameChans by blast
  qed (use sigs in blast)+
qed

lemma resume_inv:
  assumes "invC own c" "invB own (nextChan c) bl" "resume tWrite tClose now c w sel = Some (c', p)"
  shows "\<exists>own'. invC own' c' \<and> invB own' (nextChan c')
    (case p of Finished r \<Rightarrow> bl(i := None) | Waiting v \<Rightarrow> bl(i \<mapsto> v))"
proof (cases sel)
  case SelClosed
  then have "c' = c" "\<exists>r. p = Finished r"
    using assms(3) by (cases "onClosed w"; auto simp: resume_def split: if_splits)+
  then show ?thesis using reqEffect_inv [OF assms(1,2), of c' p i] by auto
next
  case (SelCtx err)
  then have "sameChans c c'" "\<exists>r. p = Finished r"
    using assms(3) by (cases "onCtxErr w err"; auto simp: resume_def onCtx_def sameChans_def split: wait.splits)+
  then show ?thesis using reqEffect_inv [OF assms(1,2), of c' p i] by (auto simp: reqEffect_def)
next
  case SelRecv
  then obtain q qs where q: "chans c (waitChan w) = q # qs"
      "onRecv tWrite tClose now (c\<lparr>chans := (chans c)(waitChan w := qs)\<rparr>) w q = (c', p)"
    using assms(3) by (auto simp: resume_def split: list.splits)
  let ?c = "c\<lparr>chans := (chans c)(waitChan w := qs)\<rparr>"
  have "length (chans c (waitChan w)) \<le> 1" using assms(1) unfolding invC_def by blast
  then have "qs = []" using q(1) by simp
  then have "invC own ?c" using assms(1) by (simp add: invC_def clientSlot_def)
  moreover have "invB own (nextChan ?c) bl" using assms(2) by simp
  ultimately show ?thesis using reqEffect_inv onRecv_effect [OF q(2)] by blast
qed

lemma serveExit_sameChans:
  assumes "serveExit tClose err c = (c', r)"
  shows "sameChans c c'"
proof -
  obtain c1 e where cl: "transportClose tClose c = (c1, e)" by (cases "transportClose tClose c")
  then have "sameChans c c1" using transportClose_sameChans [of c tClose] by simp
  then show ?thesis
    using assms cl by (auto simp: serveExit_def SetErrorOnce_def connStateUpdate_def sameChans_def Let_def
        split: if_splits)
qed

lemma progress_blocked:
  "blocked (record_progress i p sys)
     = (case p of Finished r \<Rightarrow> (blocked sys)(i := None) | Waiting w \<Rightarrow> (blocked sys)(i \<mapsto> w))"
  "loop (record_progress i p sys) = loop sys" "nextReq (record_progress i p sys) = nextReq sys"
  by (simp_all add: record_progress_def split: progress.splits)

lemma setCli_simps [simp]:
  "scli (loop (setCli c sys)) = c" "blocked (setCli c sys) = blocked sys" "nextReq (setCli c sys) = nextReq sys"
  by (simp_all add: setCli_def)

lemma sysInv_I:
  assumes "invC own (scli (loop sys))" "invB own (nextChan (scli (loop sys))) (blocked sys)"
    "\<And>i. nextReq sys \<le> i \<Longrightarrow> blocked sys i = None"
  shows "sysInv sys"
  using assms unfolding sysInv_def by blast

lemma sysInv_sameChans:
  assumes "sysInv sys" "sameChans (scli (loop sys)) (scli (loop sys'))" "blocked sys' = blocked sys" "nextReq sys' = nextReq sys"
  shows "sysInv sys'"
proof -
  obtain own where "invC own (scli (loop sys))" "invB own (nextChan (scli (loop sys))) (blocked sys)"
    using assms(1) unfolding sysInv_def by blast
  then show ?thesis
    using assms invC_sameChans unfolding sysInv_def sameChans_def by metis
qed

lemma sysInv_E:
  assumes "sysInv sys"
  obtains own where "invC own (scli (loop sys))" "invB own (nextChan (scli (loop sys))) (blocked sys)"
    "\<forall>i. nextReq sys \<le> i \<longrightarrow> blocked sys i = None"
  using assms unfolding sysInv_def by blast

text \<open>A request that made progress, on a client for which the invariant holds again.\<close>

lemma sysInv_progress:
  assumes "invC own c'" "invB own (nextChan c')
      (case p of Finished r \<Rightarrow> (blocked sys)(i := None) | Waiting w \<Rightarrow> (blocked sys)(i \<mapsto> w))"
    and "\<And>j. n \<le> j \<Longrightarrow> blocked sys j = None" "i < n"
  shows "sysInv (record_progress i p ((setCli c' sys)\<lparr>nextReq := n\<rparr>))"
  using assms by (intro sysInv_I [of own]) (auto simp: progress_blocked setCli_def split: progress.splits)

lemma sysStep_inv:
  assumes "sysStep tWrite tClose hServe sys sys'" "sysInv sys"
  shows "sysInv sys'"
  using assms
proof (induction rule: sysStep.induct)
  case (step_start now sys r c' p)
  from step_start.prems obtain own where inv: "invC own (scli (loop sys))"
      "invB own (nextChan (scli (loop sys))) (blocked sys)" "\<forall>i. nextReq sys \<le> i \<longrightarrow> blocked sys i = None"
    by (rule sysInv_E)
  obtain own' where "invC own' c'" "invB own' (nextChan c')
      (case p of Finished r \<Rightarrow> (blocked sys)(nextReq sys := None) | Waiting w \<Rightarrow> (blocked sys)(nextReq sys \<mapsto> w))"
    using reqEffect_inv [OF inv(1,2) startRequest_effect [OF step_start.hyps]] by blast
  then show ?case using inv(3) by (intro sysInv_progress [of own']) (auto cong: progress.case_cong)
next
  case (step_resume sys i w now sel c' p)
  from step_resume.prems obtain own where inv: "invC own (scli (loop sys))"
      "invB own (nextChan (scli (loop sys))) (blocked sys)" "\<forall>i. nextReq sys \<le> i \<longrightarrow> blocked sys i = None"
    by (rule sysInv_E)
  obtain own' where "invC own' c'" "invB own' (nextChan c')
      (case p of Finished r \<Rightarrow> (blocked sys)(i := None) | Waiting w \<Rightarrow> (blocked sys)(i \<mapsto> w))"
    using resume_inv [OF inv(1,2) step_resume.hyps(2)] by blast
  moreover have "i < nextReq sys" using inv(3) step_resume.hyps(1) by (metis leI option.distinct(1))
  ultimately show ?case using sysInv_progress [where own = own' and n = "nextReq sys" and sys = sys] inv(3) by (simp add: setCli_def)
next
  case (step_packet sys ty fl contents b st')
  from step_packet.prems obtain own where inv: "invC own (scli (loop sys))"
      "invB own (nextChan (scli (loop sys))) (blocked sys)" "\<forall>i. nextReq sys \<le> i \<longrightarrow> blocked sys i = None"
    by (rule sysInv_E)
  with servePacket_inv [OF _ step_packet.hyps(2), of own] show ?case
    by (intro sysInv_I [of own]) auto
next
  case (step_packet_error sys ty fl contents b st' err c')
  from step_packet_error.prems obtain own where inv: "invC own (scli (loop sys))"
      "invB own (nextChan (scli (loop sys))) (blocked sys)" "\<forall>i. nextReq sys \<le> i \<longrightarrow> blocked sys i = None"
    by (rule sysInv_E)
  have "sameChans (scli st') c'" using serveExit_sameChans step_packet_error.hyps(3) by blast
  with servePacket_inv [OF _ step_packet_error.hyps(2), of own] inv show ?case
    by (intro sysInv_I [of own]) (auto simp: sameChans_def dest: invC_sameChans)
next
  case (step_read_error sys err c')
  then show ?case
    using serveExit_sameChans by (intro sysInv_sameChans [OF step_read_error.prems]) auto
next
  case (step_handle sys h)
  then show ?case by (intro sysInv_sameChans [OF step_handle.prems]) (auto simp: sameChans_def Handle_def)
qed

lemma sysInv_init: "sysInv (initSystem t s)"
  by (rule sysInv_I [of "\<lambda>_. SConn"])
    (simp_all add: initSystem_def newClient_def invC_def invB_def clientSlot_def)

lemma reachable_inv: "reachable tWrite tClose hServe t s sys \<Longrightarrow> sysInv sys"
  unfolding reachable_def
  by (induction rule: rtranclp_induct) (auto intro: sysInv_init sysStep_inv)

subsection \<open>Acknowledgements on the wire\<close>

primrec ackFrame :: "ackPkt \<Rightarrow> packetType \<times> byte list" where
  "ackFrame (AckConn a) = (packetConnAck, [if SessionPresent a then 1 else 0, Code a])"
| "ackFrame AckPing = (packetPingResp, [])"
| "ackFrame (AckPub pid) = (packetPubAck, packUint16 pid)"
| "ackFrame (AckRec pid) = (packetPubRec, packUint16 pid)"
| "ackFrame (AckComp pid) = (packetPubComp, packUint16 pid)"
| "ackFrame (AckSub a) = (packetSubAck, packUint16 (subAckID a) @ Codes a)"
| "ackFrame (AckUnsub pid) = (packetUnsubAck, packUint16 pid)"

lemma ack_parse:
  "pktConnAck_Parse 0 [if SessionPresent a then 1 else 0, Code a] = Ret a"
  "pktSubAck_Parse 0 (packUint16 (subAckID b) @ Codes b) = Ret b"
  "pktPubAck_Parse 0 (packUint16 pid) = Ret pid" "pktPubRec_Parse 0 (packUint16 pid) = Ret pid"
  "pktPubComp_Parse 0 (packUint16 pid) = Ret pid" "pktUnsubAck_Parse 0 (packUint16 pid) = Ret pid"
  "pktPingResp_Parse 0 [] = Ret ()"
proof -
  show "pktConnAck_Parse 0 [if SessionPresent a then 1 else 0, Code a] = Ret a"
    by (cases a) (simp add: pktConnAck_Parse_def)
  show "pktSubAck_Parse 0 (packUint16 (subAckID b) @ Codes b) = Ret b"
    by (cases b) (simp add: pktSubAck_Parse_def codec_simps slice_def flip: join_bytes_def)
qed (simp_all add: pktPubAck_Parse_def pktPubRec_Parse_def pktPubComp_Parse_def pktUnsubAck_Parse_def
      pktPingResp_Parse_def codec_simps flip: join_bytes_def)

text \<open>The acknowledgement reaches the channel of its slot.\<close>

lemma servePacket_ack:
  assumes "sig (scli st) = Some s" "clientSlot (scli st) (ackSlot p) = Some ch" "chans (scli st) ch = []"
    and "ackFrame p = (ty, contents)"
  shows "\<exists>c'. servePacket tWrite hServe ty 0 contents st = (st\<lparr>scli := c'\<rparr>, Ret ())
    \<and> chans c' = (chans (scli st))(ch := [p]) \<and> Transport c' = Transport (scli st) \<and> (\<exists>s'. sig c' = Some s')
    \<and> nextChan c' = nextChan (scli st) \<and> serveLoops c' = serveLoops (scli st) \<and> connClosed c' = connClosed (scli st)"
  using assms
  by (cases p)
    (auto simp: servePacket_def packetType_defs ack_parse parsed_def signal_def signalOne_def trySend_def
      clientSlot_def client_simps simp del: if_split_eq1)

subsection \<open>Properties\<close>

text \<open>C3: in every reachable state, whatever the interleaving of requests, packets and disconnections, a
  packet that a blocked request finds in its channel is an acknowledgement of the kind and with the
  identifier that the request waits for, it is the only one there, and no other request waits on that
  channel.\<close>

theorem ack_matches_request:
  assumes "reachable tWrite tClose hServe t s sys" "blocked sys i = Some w"
    and "chans (scli (loop sys)) (waitChan w) = p # ps"
  shows "ackSlot p = waitSlot w \<and> ps = [] \<and> (\<forall>j v. blocked sys j = Some v \<longrightarrow> waitChan v = waitChan w \<longrightarrow> j = i)"
proof -
  obtain own where inv: "invC own (scli (loop sys))" "invB own (nextChan (scli (loop sys))) (blocked sys)"
    using reachable_inv [OF assms(1)] unfolding sysInv_def by blast
  have "length (chans (scli (loop sys)) (waitChan w)) \<le> 1" "\<forall>q \<in> set (chans (scli (loop sys)) (waitChan w)). ackSlot q = own (waitChan w)"
    using inv(1) unfolding invC_def by blast+
  moreover have "waitSlot w = own (waitChan w)"
    "\<forall>j v. blocked sys j = Some v \<longrightarrow> waitChan v = waitChan w \<longrightarrow> j = i"
    using inv(2) assms(2) unfolding invB_def by blast+
  ultimately show ?thesis using assms(3) by auto
qed

text \<open>A concrete run: a client connects, the wait for the CONNACK is cancelled, and it publishes a QoS 1
  message, which waits.\<close>

abbreviation demoReachable :: "(byte list list, unit, Message list) system \<Rightarrow> bool" where
  "demoReachable \<equiv> reachable logWrite (\<lambda>t. (t, None)) (\<lambda>h m s. s @ [m]) [] []"

lemma reachable_step:
  "reachable tWrite tClose hServe t s sys \<Longrightarrow> sysStep tWrite tClose hServe sys sys' \<Longrightarrow> reachable tWrite tClose hServe t s sys'"
  unfolding reachable_def by (rule rtranclp.rtrancl_into_rtrancl)

lemma demo_connect_pkt: "\<exists>b. pktConnect_Pack (connectPkt [] defaultOptions) = Ret b \<and> b \<noteq> []"
  by (simp add: pktConnect_Pack_def connectPkt_def defaultOptions_def connectWill_def
      connectString_def pack_eq remainingLength_def codec_simps)

lemma demo_connecting:
  "\<exists>sys. demoReachable sys \<and> blocked sys = [0 \<mapsto> WConnAck 0] \<and> nextReq sys = 1
     \<and> sig (scli (loop sys)) = Some (newSignaller\<lparr>chConnAck := Some 0\<rparr>) \<and> nextChan (scli (loop sys)) = 1
     \<and> chans (scli (loop sys)) 0 = [] \<and> serveLoops (scli (loop sys)) = 1 \<and> MaxPayloadLen (scli (loop sys)) = 0"
proof -
  let ?i = "initSystem [] [] :: (byte list list, unit, Message list) system"
  obtain b where b: "pktConnect_Pack (connectPkt [] defaultOptions) = Ret b" "b \<noteq> []"
    using demo_connect_pkt by blast
  obtain c' where c': "Connect logWrite 0 (newClient [] :: (byte list list, unit) BaseClient) [] [] = (c', Waiting (WConnAck 0))"
      "sig c' = Some (newSignaller\<lparr>chConnAck := Some 0\<rparr>)" "nextChan c' = 1" "chans c' 0 = []" "serveLoops c' = 1"
      "MaxPayloadLen c' = 0"
    using b by (simp add: Connect_def registerConnAck_def makeChan_def clientInit_def sendPkt_def clientWrite_log Let_def)
  let ?sys = "record_progress 0 (Waiting (WConnAck 0)) ((setCli c' ?i)\<lparr>nextReq := 1\<rparr>)"
  have step: "sysStep logWrite (\<lambda>t. (t, None)) (\<lambda>h m s. s @ [m]) ?i ?sys"
    using step_start [of logWrite "\<lambda>t. (t, None)" 0 ?i "ReqConnect 0 [] []" c' "Waiting (WConnAck 0)"
        "\<lambda>h m s. s @ [m]"] c'(1)
    by (simp add: initSystem_def)
  have "demoReachable ?i" by (simp add: reachable_def)
  from reachable_step [OF this step] show ?thesis using c' by (intro exI [of _ ?sys]) (auto simp: progress_blocked setCli_def initSystem_def)
qed

theorem ack_matches_request_witness:
  "\<exists>sys. demoReachable sys \<and> blocked sys 0 = Some (WConnAck 0)
     \<and> chans (scli (loop sys)) 0 = [AckConn \<lparr>SessionPresent = True, Code = 0\<rparr>]
     \<and> ackSlot (AckConn \<lparr>SessionPresent = True, Code = 0\<rparr>) = waitSlot (WConnAck 0)"
proof -
  let ?a = "AckConn \<lparr>SessionPresent = True, Code = 0\<rparr>"
  obtain sys where sys: "demoReachable sys" "blocked sys = [0 \<mapsto> WConnAck 0]"
      "sig (scli (loop sys)) = Some (newSignaller\<lparr>chConnAck := Some 0\<rparr>)" "chans (scli (loop sys)) 0 = []"
      "serveLoops (scli (loop sys)) = 1"
    using demo_connecting by blast
  have "clientSlot (scli (loop sys)) (ackSlot ?a) = Some 0" using sys(3) by (simp add: clientSlot_def)
  then obtain c' where c': "servePacket logWrite (\<lambda>h m s. s @ [m]) packetConnAck 0 [1, 0] (loop sys)
        = ((loop sys)\<lparr>scli := c'\<rparr>, Ret ())" "chans c' = (chans (scli (loop sys)))(0 := [?a])"
    using servePacket_ack [OF sys(3), of ?a 0 packetConnAck "[1, 0]" logWrite "\<lambda>h m s. s @ [m]"] sys(4) by auto
  let ?sys = "sys\<lparr>loop := (loop sys)\<lparr>scli := c'\<rparr>\<rparr>"
  have "sysStep logWrite (\<lambda>t. (t, None)) (\<lambda>h m s. s @ [m]) sys ?sys"
    using step_packet [of sys logWrite "\<lambda>h m s. s @ [m]" packetConnAck 0 "[1, 0]" "subBuffer (loop sys)"] c'(1) sys(5)
    by simp
  then have reach: "demoReachable ?sys" by (rule reachable_step [OF sys(1)])
  have bl: "blocked ?sys 0 = Some (WConnAck 0)" and ch: "chans (scli (loop ?sys)) (waitChan (WConnAck 0)) = ?a # []"
    using sys(2) c'(2) by simp_all
  from ack_matches_request [OF reach bl ch] reach bl ch show ?thesis
    by (intro exI [of _ ?sys]) simp
qed

lemma demo_publishing:
  "\<exists>sys. demoReachable sys \<and> blocked sys 1 = Some (WPubAck (demoMessage 1) 1)
     \<and> clientSlot (scli (loop sys)) (SPubAck 7) = Some 1"
proof -
  obtain sys where sys: "demoReachable sys" "blocked sys = [0 \<mapsto> WConnAck 0]" "nextReq sys = 1"
      "sig (scli (loop sys)) = Some (newSignaller\<lparr>chConnAck := Some 0\<rparr>)" "nextChan (scli (loop sys)) = 1"
      "MaxPayloadLen (scli (loop sys)) = 0"
    using demo_connecting by blast
  let ?c = "scli (loop sys)"
  obtain r where r: "resume logWrite (\<lambda>t. (t, None)) 0 ?c (WConnAck 0) (SelCtx (Sentinel context_Canceled)) = Some (?c, Finished r)"
    by (simp add: resume_def onCtx_def wrapError_def)
  let ?s1 = "record_progress 0 (Finished r) (setCli ?c sys)"
  have "blocked sys 0 = Some (WConnAck 0)" using sys(2) by simp
  from step_resume [OF this r] have "demoReachable ?s1" by (rule reachable_step [OF sys(1)])
  have s1: "scli (loop ?s1) = ?c" "blocked ?s1 = Map.empty" "nextReq ?s1 = 1"
    using sys(2,3) by (simp_all add: progress_blocked)
  obtain s' where s': "s' = newSignaller\<lparr>chConnAck := Some 0\<rparr>" by blast
  have pub: "publishable (demoMessage 1)" by (rule demo_publishable) simp
  let ?c1 = "?c\<lparr>chans := (chans ?c)(1 := []), nextChan := 2, sig := Some (regPubAck s' 7 1)\<rparr>"
  have "publishRegister ?c s' ((demoMessage 1)\<lparr>mDup := False\<rparr>) = (?c1, Waiting (WPubAck (demoMessage 1) 1))"
    using sys(5) by (simp add: publishRegister_def makeChan_def QoS_defs)
  from publishImpl_accepts [OF demo_accepts pub _ _ this] obtain t' where
    "publishImpl logWrite ?c (demoMessage 1) False = (?c1\<lparr>Transport := t'\<rparr>, demoMessage 1, Waiting (WPubAck (demoMessage 1) 1))"
    using sys(4) s' by auto
  moreover have "ValidateMessage ?c (demoMessage 1) = Ret ()"
    using sys(6) by (simp add: ValidateMessage_def QoS_defs)
  ultimately have start: "startRequest logWrite (\<lambda>t. (t, None)) 0 (scli (loop ?s1)) (ReqPublish (demoMessage 1))
      = (?c1\<lparr>Transport := t'\<rparr>, Waiting (WPubAck (demoMessage 1) 1))"
    unfolding s1(1) by (simp add: Publish_def)
  let ?s2 = "record_progress 1 (Waiting (WPubAck (demoMessage 1) 1)) ((setCli (?c1\<lparr>Transport := t'\<rparr>) ?s1)\<lparr>nextReq := 2\<rparr>)"
  from step_start [OF start] have "demoReachable ?s2"
    unfolding s1(3) by (intro reachable_step [OF \<open>demoReachable ?s1\<close>]) (simp add: isConnect_def numeral_2_eq_2)
  then show ?thesis
    by (intro exI [of _ ?s2]) (simp add: progress_blocked clientSlot_def regPubAck_def setCli_def)
qed

text \<open>C2: no acknowledgement is lost. In every reachable state with a request that waits and is registered
  under its identifier, the arrival of the acknowledgement with that identifier makes the request's
  receive ready with that packet.\<close>

theorem ack_not_lost:
  assumes "reachable tWrite tClose hServe t s sys" "blocked sys i = Some w" "keyed (waitSlot w)"
    and "clientSlot (scli (loop sys)) (waitSlot w) = Some (waitChan w)"
    and "ackSlot p = waitSlot w" "ackFrame p = (ty, contents)"
  shows "\<exists>st'. servePacket tWrite hServe ty 0 contents (loop sys) = (st', Ret ())
    \<and> resume tWrite tClose now (scli st') w SelRecv
        = Some (onRecv tWrite tClose now ((scli st')\<lparr>chans := (chans (scli st'))(waitChan w := [])\<rparr>) w p)"
proof -
  obtain own where "invC own (scli (loop sys))"
    using reachable_inv [OF assms(1)] unfolding sysInv_def by blast
  then have "chans (scli (loop sys)) (waitChan w) = []"
    using invC_slot assms(3,4) by blast
  moreover obtain s' where "sig (scli (loop sys)) = Some s'"
    using assms(4) by (cases "sig (scli (loop sys))") (auto simp: clientSlot_def)
  ultimately obtain c' where c': "servePacket tWrite hServe ty 0 contents (loop sys) = ((loop sys)\<lparr>scli := c'\<rparr>, Ret ())"
      "chans c' = (chans (scli (loop sys)))(waitChan w := [p])"
    using servePacket_ack [of "loop sys" s' p "waitChan w" ty contents tWrite hServe] assms(4-) by auto
  then show ?thesis by (intro exI [of _ "(loop sys)\<lparr>scli := c'\<rparr>"]) (simp add: resume_def)
qed

theorem ack_not_lost_witness:
  "\<exists>sys st'. demoReachable sys \<and> blocked sys 1 = Some (WPubAck (demoMessage 1) 1)
     \<and> servePacket logWrite (\<lambda>h m s. s @ [m]) packetPubAck 0 (packUint16 7) (loop sys) = (st', Ret ())
     \<and> (\<exists>c'. resume logWrite (\<lambda>t. (t, None)) 0 (scli st') (WPubAck (demoMessage 1) 1) SelRecv
          = Some (c', Finished (Ret RNone)))"
proof -
  obtain sys where sys: "demoReachable sys" "blocked sys 1 = Some (WPubAck (demoMessage 1) 1)"
      "clientSlot (scli (loop sys)) (SPubAck 7) = Some 1"
    using demo_publishing by blast
  from ack_not_lost [OF sys(1,2), of "AckPub 7" packetPubAck "packUint16 7" 0] sys show ?thesis
    by (auto simp: keyed_def onRecv_def)
qed

lemma publishRegister_QoS2:
  assumes "mQoS m = QoS2"
  shows "publishRegister c s (m\<lparr>mDup := d\<rparr>) =
    (c\<lparr>chans := (chans c)(nextChan c := []), nextChan := nextChan c + 1,
        sig := Some (regPubRec s (mID m) (nextChan c))\<rparr>, Waiting (WPubRec (m\<lparr>mDup := d\<rparr>) (nextChan c)))"
  using assms by (simp add: publishRegister_def makeChan_def QoS_distinct)

text \<open>The three steps of the handshake on the side of the publisher. The channel that the next step needs
  is registered and empty.\<close>

lemma qos2_publish:
  assumes "accepts_all tWrite tlog" "publishable m" "mQoS m = QoS2" "mID m \<noteq> 0" "sig c = Some s"
  shows "\<exists>c1 n pub. publishImpl tWrite c m False = (c1, m\<lparr>mDup := False\<rparr>, Waiting (WPubRec (m\<lparr>mDup := False\<rparr>) n))
     \<and> pktPublish_Pack (m\<lparr>mDup := False\<rparr>) = Ret pub \<and> tlog (Transport c1) = tlog (Transport c) @ [pub]
     \<and> clientSlot c1 (SPubRec (mID m)) = Some n \<and> chans c1 n = []"
  using publishImpl_accepts [OF assms(1,2,4,5) publishRegister_QoS2 [OF assms(3), of c s False]]
  by (fastforce simp: clientSlot_def regPubRec_def)

lemma qos2_pubrec:
  assumes "accepts_all tWrite tlog" "pktPubRec_Parse flag contents = Ret (mID m)"
    and "clientSlot (scli st) (SPubRec (mID m)) = Some n" "chans (scli st) n = []"
  shows "\<exists>st1 c2 k rel. servePacket tWrite hServe packetPubRec flag contents st = (st1, Ret ())
     \<and> resume tWrite tClose now (scli st1) (WPubRec m n) SelRecv = Some (c2, Waiting (WPubComp m k))
     \<and> pktPubRel_Pack (mID m) = Ret rel \<and> tlog (Transport c2) = tlog (Transport (scli st)) @ [rel]
     \<and> clientSlot c2 (SPubComp (mID m)) = Some k \<and> chans c2 k = []"
proof -
  obtain s where "sig (scli st) = Some s" using assms(3) by (cases "sig (scli st)") (auto simp: clientSlot_def)
  then obtain c1 s1 where rec: "signal sigPubRec (mID m) (AckRec (mID m)) st = (st\<lparr>scli := c1\<rparr>, Ret ())"
      "chans c1 n = [AckRec (mID m)]" "Transport c1 = Transport (scli st)" "sig c1 = Some s1"
    using servePacket_ack [of st s "AckRec (mID m)" n packetPubRec "packUint16 (mID m)" tWrite hServe] assms(3,4)
      servePacket_dispatch(4) [OF ack_parse(4) [of "mID m"], of tWrite hServe st] by auto
  let ?k = "nextChan c1"
  let ?c2 = "c1\<lparr>chans := ((chans c1)(n := []))(?k := []), nextChan := ?k + 1, sig := Some (regPubComp s1 (mID m) ?k)\<rparr>"
  from sendPkt_accepts [OF assms(1) ack_packs(4), of "mID m" ?c2] obtain rel t2 where
    rel: "pktPubRel_Pack (mID m) = Ret rel" "tlog t2 = tlog (Transport (scli st)) @ [rel]"
      "sendPkt tWrite ?c2 (pktPubRel_Pack (mID m)) (\<lambda>err. wrapErrorWithRetry (Some err) (RetryPublish m) ''sending PUBREL'')
         (Waiting (WPubComp m ?k)) = (?c2\<lparr>Transport := t2\<rparr>, Waiting (WPubComp m ?k))"
    using rec(3) by fastforce
  have "resume tWrite tClose now c1 (WPubRec m n) SelRecv = Some (?c2\<lparr>Transport := t2\<rparr>, Waiting (WPubComp m ?k))"
    using rec(2,4) rel(3) by (simp add: resume_def onRecv_def retryPublish2_def makeChan_def)
  then show ?thesis
    using rec(1) rel(1,2) servePacket_dispatch(4) [OF assms(2), of tWrite hServe st]
    by (intro exI [of _ "st\<lparr>scli := c1\<rparr>"] exI [of _ "?c2\<lparr>Transport := t2\<rparr>"] exI [of _ ?k] exI [of _ rel])
      (simp add: clientSlot_def regPubComp_def)
qed

lemma qos2_pubcomp:
  assumes "pktPubComp_Parse flag contents = Ret (mID m)"
    and "clientSlot (scli st) (SPubComp (mID m)) = Some k" "chans (scli st) k = []"
  shows "\<exists>st2 c3. servePacket tWrite hServe packetPubComp flag contents st = (st2, Ret ())
     \<and> resume tWrite tClose now (scli st2) (WPubComp m k) SelRecv = Some (c3, Finished (Ret RNone))
     \<and> Transport c3 = Transport (scli st)"
proof -
  obtain s where "sig (scli st) = Some s" using assms(2) by (cases "sig (scli st)") (auto simp: clientSlot_def)
  then obtain c2 where "signal sigPubComp (mID m) (AckComp (mID m)) st = (st\<lparr>scli := c2\<rparr>, Ret ())"
      "chans c2 k = [AckComp (mID m)]" "Transport c2 = Transport (scli st)"
    using servePacket_ack [of st s "AckComp (mID m)" k packetPubComp "packUint16 (mID m)" tWrite hServe] assms(2,3)
      servePacket_dispatch(5) [OF ack_parse(5) [of "mID m"], of tWrite hServe st] by auto
  then show ?thesis
    using servePacket_dispatch(5) [OF assms(1), of tWrite hServe st] by (auto simp: resume_def onRecv_def)
qed

text \<open>The QoS 2 handshake of a publisher runs to completion: on a connected client whose transport
  accepts writes, \<open>Publish\<close> sends the PUBLISH and waits; the broker's PUBREC makes it send the PUBREL with
  the same identifier and wait; the PUBCOMP makes it return nil. Exactly these two packets are written.\<close>

theorem publish_qos2_completes:
  assumes "accepts_all tWrite tlog" "publishable m" "mQoS m = QoS2" "mID m \<noteq> 0" "sig (scli st) = Some s"
  shows "\<exists>c1 w1 st1 c2 w2 st2 c3 pub rel.
     publishImpl tWrite (scli st) m False = (c1, m\<lparr>mDup := False\<rparr>, Waiting w1)
     \<and> servePacket tWrite hServe packetPubRec 0 (packUint16 (mID m)) (st\<lparr>scli := c1\<rparr>) = (st1, Ret ())
     \<and> resume tWrite tClose now (scli st1) w1 SelRecv = Some (c2, Waiting w2)
     \<and> servePacket tWrite hServe packetPubComp 0 (packUint16 (mID m)) (st1\<lparr>scli := c2\<rparr>) = (st2, Ret ())
     \<and> resume tWrite tClose now (scli st2) w2 SelRecv = Some (c3, Finished (Ret RNone))
     \<and> pktPublish_Pack (m\<lparr>mDup := False\<rparr>) = Ret pub \<and> pktPubRel_Pack (mID m) = Ret rel
     \<and> tlog (Transport c3) = tlog (Transport (scli st)) @ [pub, rel]"
proof -
  let ?m = "m\<lparr>mDup := False\<rparr>"
  obtain c1 n pub where 1: "publishImpl tWrite (scli st) m False = (c1, ?m, Waiting (WPubRec ?m n))"
      "pktPublish_Pack ?m = Ret pub" "tlog (Transport c1) = tlog (Transport (scli st)) @ [pub]"
      "clientSlot c1 (SPubRec (mID m)) = Some n" "chans c1 n = []"
    using qos2_publish [OF assms] by blast
  obtain st1 c2 k rel where 2: "servePacket tWrite hServe packetPubRec 0 (packUint16 (mID m)) (st\<lparr>scli := c1\<rparr>) = (st1, Ret ())"
      "resume tWrite tClose now (scli st1) (WPubRec ?m n) SelRecv = Some (c2, Waiting (WPubComp ?m k))"
      "pktPubRel_Pack (mID m) = Ret rel" "tlog (Transport c2) = tlog (Transport c1) @ [rel]"
      "clientSlot c2 (SPubComp (mID m)) = Some k" "chans c2 k = []"
    using qos2_pubrec [of tWrite tlog 0 "packUint16 (mID m)" ?m "st\<lparr>scli := c1\<rparr>" n hServe tClose now]
      assms(1) 1(4,5) ack_parse(4) [of "mID m"] by auto
  obtain st2 c3 where 3: "servePacket tWrite hServe packetPubComp 0 (packUint16 (mID m)) (st1\<lparr>scli := c2\<rparr>) = (st2, Ret ())"
      "resume tWrite tClose now (scli st2) (WPubComp ?m k) SelRecv = Some (c3, Finished (Ret RNone))"
      "Transport c3 = Transport c2"
    using qos2_pubcomp [of 0 "packUint16 (mID m)" ?m "st1\<lparr>scli := c2\<rparr>" k tWrite hServe tClose now]
      2(5,6) ack_parse(5) [of "mID m"] by auto
  show ?thesis
    using 1(1-3) 2(1-4) 3
    by (intro exI [of _ c1] exI [of _ "WPubRec ?m n"] exI [of _ st1] exI [of _ c2] exI [of _ "WPubComp ?m k"]
        exI [of _ st2] exI [of _ c3] exI [of _ pub] exI [of _ rel]) simp
qed

theorem publish_qos2_completes_witness:
  "\<exists>c1 w1 st1 c2 w2 st2 c3 pub rel.
     publishImpl logWrite demoClient (demoMessage 2) False = (c1, demoMessage 2, Waiting w1)
     \<and> servePacket logWrite (\<lambda>h m s. s @ [m]) packetPubRec 0 (packUint16 7)
         \<lparr>scli = c1, subBuffer = Map.empty, hstate = []\<rparr> = (st1, Ret ())
     \<and> resume logWrite (\<lambda>t. (t, None)) 0 (scli st1) w1 SelRecv = Some (c2, Waiting w2)
     \<and> servePacket logWrite (\<lambda>h m s. s @ [m]) packetPubComp 0 (packUint16 7) (st1\<lparr>scli := c2\<rparr>) = (st2, Ret ())
     \<and> resume logWrite (\<lambda>t. (t, None)) 0 (scli st2) w2 SelRecv = Some (c3, Finished (Ret RNone))
     \<and> Transport c3 = [pub, rel]"
proof -
  have pub: "publishable (demoMessage 2)" by (rule demo_publishable) simp
  have m: "mQoS (demoMessage 2) = QoS2" "mID (demoMessage 2) \<noteq> 0" by (simp_all add: QoS_defs)
  let ?st = "\<lparr>scli = demoClient, subBuffer = Map.empty, hstate = []\<rparr>"
  have "sig (scli ?st) = Some newSignaller" by simp
  from publish_qos2_completes [OF demo_accepts pub m this, of "\<lambda>h m s. s @ [m]" "\<lambda>t. (t, None)" 0]
  show ?thesis by simp blast
qed

end
