(* ===== verification/Runner.thy ===== *)
theory Runner
  imports System
begin

text \<open>
  The interface between \<open>BaseClient\<close> and the clients built on it (\<open>retryclient.go\<close>, \<open>reconnclient.go\<close>,
  \<open>keepalive.go\<close>): a method call that blocks its caller until it returns.

  What happens while the caller is blocked (packets from the broker, the end of the connection, the
  end of the context) is a schedule of events. \<open>drive\<close> runs a request under a schedule through
  \<open>servePacket\<close>, \<open>serveExit\<close> and \<open>resume\<close>; a request that is still blocked at the end of the schedule does
  not return. \<open>baseCall\<close> is the method call: its state is the client with its serve loop and the
  schedule of the events to come. The locale \<open>base_client\<close> lists what callers rely on.
\<close>

datatype event = EvPacket packetType byte "byte list" | EvReadErr goerror | EvClosed | EvCtx | EvRecv

text \<open>The context of the call: without a deadline it never ends; the error of one that ends.\<close>

type_synonym ctx = "goerror option"

definition exitLoop ::
  "('t \<Rightarrow> 't \<times> goerror option) \<Rightarrow> goerror \<Rightarrow> ('t, 'h, 's) serveState \<Rightarrow> ('t, 'h, 's) serveState \<times> unit result" where
  "exitLoop tClose err st = (case serveExit tClose (Some err) (scli st) of (c', r) \<Rightarrow> (st\<lparr>scli := c'\<rparr>, r))"

text \<open>An event of the connection; a panic of the serve goroutine ends the program.\<close>

fun serveEvent ::
  "('t \<Rightarrow> byte list \<Rightarrow> 't \<times> int result) \<Rightarrow> ('t \<Rightarrow> 't \<times> goerror option) \<Rightarrow> ('h \<Rightarrow> Message \<Rightarrow> 's \<Rightarrow> 's)
     \<Rightarrow> event \<Rightarrow> ('t, 'h, 's) serveState \<Rightarrow> ('t, 'h, 's) serveState \<times> unit result" where
  "serveEvent tWrite tClose hServe (EvPacket ty fl contents) st =
     (if serveLoops (scli st) = 0 then (st, Ret ())
      else case servePacket tWrite hServe ty fl contents st of
             (st', Fail err) \<Rightarrow> exitLoop tClose err st'
           | (st', r) \<Rightarrow> (st', r))"
| "serveEvent tWrite tClose hServe (EvReadErr err) st =
     (if serveLoops (scli st) = 0 then (st, Ret ()) else exitLoop tClose err st)"
| "serveEvent tWrite tClose hServe e st = (st, Ret ())"

fun selOf :: "ctx \<Rightarrow> event \<Rightarrow> selCase option" where
  "selOf cx EvClosed = Some SelClosed"
| "selOf cx EvRecv = Some SelRecv"
| "selOf cx EvCtx = map_option SelCtx cx"
| "selOf cx e = None"

fun drive ::
  "('t \<Rightarrow> byte list \<Rightarrow> 't \<times> int result) \<Rightarrow> ('t \<Rightarrow> 't \<times> goerror option) \<Rightarrow> ('h \<Rightarrow> Message \<Rightarrow> 's \<Rightarrow> 's) \<Rightarrow> ctx
     \<Rightarrow> event list \<Rightarrow> ('t, 'h, 's) serveState \<Rightarrow> progress \<Rightarrow> (('t, 'h, 's) serveState \<times> event list) \<times> reply result" where
  "drive tWrite tClose hServe cx evs st (Finished r) = ((st, evs), r)"
| "drive tWrite tClose hServe cx [] st (Waiting w) = ((st, []), Hang)"
| "drive tWrite tClose hServe cx (e # evs) st (Waiting w) =
     (case serveEvent tWrite tClose hServe e st of
        (st1, Ret u) \<Rightarrow>
          (case Option.bind (selOf cx e) (resume tWrite tClose 0 (scli st1) w) of
             None \<Rightarrow> drive tWrite tClose hServe cx evs st1 (Waiting w)
           | Some (c', p) \<Rightarrow> drive tWrite tClose hServe cx evs (st1\<lparr>scli := c'\<rparr>) p)
      | (st1, Fail err) \<Rightarrow> ((st1, evs), Hang)
      | (st1, Panic s) \<Rightarrow> ((st1, evs), Panic s)
      | (st1, Hang) \<Rightarrow> ((st1, evs), Hang))"

datatype 'h baseOp =
    BPublish Message | BSubscribe "Subscription list" | BUnsubscribe "gostring list" | BRetry retryFn
  | BPing | BDisconnect | BConnect uint32 gostring "ConnectOption list"
  | BValidate Message | BHandle "'h option" | BClose | BSetErrorOnce "goerror option"

fun asRequest :: "'h baseOp \<Rightarrow> request option" where
  "asRequest (BPublish m) = Some (ReqPublish m)"
| "asRequest (BSubscribe subs) = Some (ReqSubscribe subs)"
| "asRequest (BUnsubscribe topics) = Some (ReqUnsubscribe topics)"
| "asRequest (BRetry r) = Some (ReqRetry r)"
| "asRequest BPing = Some ReqPing"
| "asRequest BDisconnect = Some ReqDisconnect"
| "asRequest (BConnect rnd clientID opts) = Some (ReqConnect rnd clientID opts)"
| "asRequest op = None"

definition runRequest ::
  "('t \<Rightarrow> byte list \<Rightarrow> 't \<times> int result) \<Rightarrow> ('t \<Rightarrow> 't \<times> goerror option) \<Rightarrow> ('h \<Rightarrow> Message \<Rightarrow> 's \<Rightarrow> 's) \<Rightarrow> ctx
     \<Rightarrow> ('t, 'h, 's) serveState \<times> event list \<Rightarrow> request \<Rightarrow> (('t, 'h, 's) serveState \<times> event list) \<times> reply result" where
  "runRequest tWrite tClose hServe cx = (\<lambda>(st, evs) r.
     case startRequest tWrite tClose 0 (scli st) r of
       (c', p) \<Rightarrow>
         drive tWrite tClose hServe cx evs
           (if isConnect r then st\<lparr>scli := c', subBuffer := Map.empty\<rparr> else st\<lparr>scli := c'\<rparr>) p)"

definition baseCall ::
  "('t \<Rightarrow> byte list \<Rightarrow> 't \<times> int result) \<Rightarrow> ('t \<Rightarrow> 't \<times> goerror option) \<Rightarrow> ('h \<Rightarrow> Message \<Rightarrow> 's \<Rightarrow> 's) \<Rightarrow> ctx
     \<Rightarrow> ('t, 'h, 's) serveState \<times> event list \<Rightarrow> 'h baseOp \<Rightarrow> (('t, 'h, 's) serveState \<times> event list) \<times> reply result" where
  "baseCall tWrite tClose hServe cx c op =
     (case op of
        BValidate m \<Rightarrow> (c, bindO (ValidateMessage (scli (fst c)) m) (\<lambda>_. Ret RNone))
      | BHandle h \<Rightarrow> (((fst c)\<lparr>scli := Handle (scli (fst c)) h\<rparr>, snd c), Ret RNone)
      | BClose \<Rightarrow>
          (case transportClose tClose (scli (fst c)) of
             (c', e) \<Rightarrow> (((fst c)\<lparr>scli := c'\<rparr>, snd c), case e of None \<Rightarrow> Ret RNone | Some err \<Rightarrow> Fail err))
      | BSetErrorOnce e \<Rightarrow> (((fst c)\<lparr>scli := SetErrorOnce (scli (fst c)) e\<rparr>, snd c), Ret RNone)
      | _ \<Rightarrow> (case asRequest op of
                Some r \<Rightarrow> runRequest tWrite tClose hServe cx c r
              | None \<Rightarrow> (c, Ret RNone)))"

subsection \<open>What a retry closure is a retry of\<close>

text \<open>A message up to the fields that a transmission sets.\<close>

definition sameMessage :: "Message \<Rightarrow> Message \<Rightarrow> bool" where
  "sameMessage m m' \<longleftrightarrow> mTopic m' = mTopic m \<and> mQoS m' = mQoS m \<and> mRetain m' = mRetain m \<and> mPayload m' = mPayload m"

fun retryOfMessage :: "Message \<Rightarrow> retryFn \<Rightarrow> bool" where
  "retryOfMessage m (RetryPublish m') = sameMessage m m'"
| "retryOfMessage m (RetryPublish2 m') = sameMessage m m'"
| "retryOfMessage m r = False"

fun retryOfRetry :: "retryFn \<Rightarrow> retryFn \<Rightarrow> bool" where
  "retryOfRetry (RetryPublish m) r = retryOfMessage m r"
| "retryOfRetry (RetryPublish2 m) r = retryOfMessage m r"
| "retryOfRetry (RetrySubscribe subs) r = (r = RetrySubscribe subs)"
| "retryOfRetry (RetryUnsubscribe topics) r = (r = RetryUnsubscribe topics)"

fun retryOf :: "'h baseOp \<Rightarrow> retryFn \<Rightarrow> bool" where
  "retryOf (BPublish m) r = retryOfMessage m r"
| "retryOf (BSubscribe subs) r = (r = RetrySubscribe subs)"
| "retryOf (BUnsubscribe topics) r = (r = RetryUnsubscribe topics)"
| "retryOf (BRetry r0) r = retryOfRetry r0 r"
| "retryOf op r = False"

text \<open>What the clients above rely on: validation changes nothing, and an error of a request that can be
  retried carries a retry of that request.\<close>

locale base_client =
  fixes call :: "ctx \<Rightarrow> 'c \<Rightarrow> 'h baseOp \<Rightarrow> 'c \<times> reply result"
  assumes validate_pure: "fst (call cx c (BValidate m)) = c"
    and retry_of: "snd (call cx c op) = Fail e \<Longrightarrow> asRequest op \<noteq> None \<Longrightarrow> as_ErrorWithRetry (Some e) = Some r
      \<Longrightarrow> retryOf op r"

subsection \<open>Packing never returns an error\<close>

lemma pack_not_Fail: "pack h cs \<noteq> Fail e"
  by (auto simp: pack_eq remainingLength_def Let_def)

lemma bindO_Fail_iff: "bindO r f = Fail e \<longleftrightarrow> r = Fail e \<or> (\<exists>a. r = Ret a \<and> f a = Fail e)"
  by (cases r) auto

lemma appendBytes_not_Fail: "appendBytes b s \<noteq> Fail e" "appendString b s \<noteq> Fail e"
  by (auto simp: codec_simps Let_def)

lemma publishPack_not_Fail: "pktPublish_Pack m \<noteq> Fail e"
  by (simp add: pktPublish_Pack_def publishHeader_def Let_def bindO_Fail_iff appendBytes_not_Fail pack_not_Fail)

lemma subscribePack_not_Fail: "pktSubscribe_Pack pid subs \<noteq> Fail e"
proof -
  have "subscribePayload p subs \<noteq> Fail e" for p
    by (induction subs arbitrary: p) (simp_all add: bindO_Fail_iff appendBytes_not_Fail)
  then show ?thesis by (simp add: pktSubscribe_Pack_def bindO_Fail_iff pack_not_Fail)
qed

lemma unsubscribePack_not_Fail: "pktUnsubscribe_Pack pid topics \<noteq> Fail e"
proof -
  have "unsubscribePayload p topics \<noteq> Fail e" for p
    by (induction topics arbitrary: p) (simp_all add: bindO_Fail_iff appendBytes_not_Fail)
  then show ?thesis by (simp add: pktUnsubscribe_Pack_def bindO_Fail_iff pack_not_Fail)
qed

lemma connectPack_not_Fail: "pktConnect_Pack p \<noteq> Fail e"
proof -
  have "connectWill w x \<noteq> Fail e" for w x
    by (cases x; cases w) (simp_all add: connectWill_def Let_def bindO_Fail_iff appendBytes_not_Fail)
  moreover have "connectString s f x \<noteq> Fail e" for s f x
    by (cases x) (simp add: connectString_def bindO_Fail_iff appendBytes_not_Fail)
  ultimately show ?thesis
    unfolding pktConnect_Pack_def
    by (simp add: bindO_Fail_iff appendBytes_not_Fail pack_not_Fail split: prod.splits)
qed

subsection \<open>Errors carry retries of their own request\<close>

text \<open>\<open>G\<close> is the set of acceptable closures; a request in progress can only produce these.\<close>

definition errOk :: "(retryFn \<Rightarrow> bool) \<Rightarrow> goerror \<Rightarrow> bool" where
  "errOk G e \<longleftrightarrow> (\<forall>r. as_ErrorWithRetry (Some e) = Some r \<longrightarrow> G r)"

fun waitOk :: "(retryFn \<Rightarrow> bool) \<Rightarrow> wait \<Rightarrow> bool" where
  "waitOk G (WPubAck m ch) = (G (RetryPublish m) \<and> G (RetryPublish2 m))"
| "waitOk G (WPubRec m ch) = (G (RetryPublish m) \<and> G (RetryPublish2 m))"
| "waitOk G (WPubComp m ch) = (G (RetryPublish m) \<and> G (RetryPublish2 m))"
| "waitOk G (WSubAck pid subs ch) = G (RetrySubscribe subs)"
| "waitOk G (WUnsubAck pid topics ch) = G (RetryUnsubscribe topics)"
| "waitOk G (WPing t ch) = True"
| "waitOk G (WConnAck ch) = True"

definition progOk :: "(retryFn \<Rightarrow> bool) \<Rightarrow> progress \<Rightarrow> bool" where
  "progOk G p \<longleftrightarrow> (case p of Finished (Fail e) \<Rightarrow> errOk G e | Finished r \<Rightarrow> True | Waiting w \<Rightarrow> waitOk G w)"

lemma progOk_simps [simp]:
  "progOk G (Finished (Ret x))" "progOk G (Finished (Panic s))" "progOk G (Finished Hang)"
  "progOk G (Finished (Fail e)) = errOk G e" "progOk G (Waiting w) = waitOk G w"
  by (simp_all add: progOk_def)

lemma errOk_wrap [simp]:
  "errOk G (wrapE e f)" "errOk G (Sentinel s)" "errOk G (Error x f)"
  by (auto simp: errOk_def wrapE_def)

lemma progOk_returnErr [simp]:
  "progOk G (returnErr (wrapError (Some e) f))"
  "progOk G (returnErr (wrapErrorWithRetry (Some e) r f)) \<longleftrightarrow> e = Sentinel io_EOF \<or> G r"
  by (auto simp: wrapError_def wrapErrorWithRetry_def wrapE_def errOk_def)

lemma sendPkt_progOk:
  assumes "sendPkt tWrite c pkt onErr nxt = (c', p)" "\<And>e. pkt \<noteq> Fail e" "progOk G nxt" "\<And>e. progOk G (returnErr (onErr e))"
  shows "progOk G p"
proof (cases pkt)
  case (Ret b)
  obtain c1 r where "clientWrite tWrite c b = (c1, r)" by (cases "clientWrite tWrite c b")
  then show ?thesis using assms Ret by (cases r) (auto simp: sendPkt_def)
qed (use assms in \<open>auto simp: sendPkt_def\<close>)

lemma publishImpl_progOk:
  assumes "publishImpl tWrite c m dup = (c', m', p)" "\<And>m'. sameMessage m m' \<Longrightarrow> G (RetryPublish m') \<and> G (RetryPublish2 m')"
  shows "progOk G p"
proof -
  obtain c1 m1 where a: "publishAssign c m dup = (c1, m1)" by (cases "publishAssign c m dup")
  have "m1 = m\<lparr>mID := mID m1, mDup := dup\<rparr>" by (rule publishAssign_cases(1) [OF a])
  then have "sameMessage m m1" unfolding sameMessage_def by (metis Message.ext_inject Message.surjective Message.update_convs(2,5))
  then have G: "G (RetryPublish m1)" "G (RetryPublish2 m1)" using assms(2) by blast+
  show ?thesis
  proof (cases "sig c1")
    case None
    then show ?thesis using assms(1) a by (auto simp: publishImpl_def)
  next
    case (Some s)
    obtain c2 nxt where r: "publishRegister c1 s m1 = (c2, nxt)" by (cases "publishRegister c1 s m1")
    have "progOk G nxt"
      using r G by (auto simp: publishRegister_def makeChan_def split: if_splits)
    moreover obtain onErr where "sendPkt tWrite c2 (pktPublish_Pack m1) onErr nxt = (c', p)"
        "\<And>e. progOk G (returnErr (onErr e))"
      using assms(1) a Some r G by (auto simp: publishImpl_def split: prod.splits)
    ultimately show ?thesis using sendPkt_progOk publishPack_not_Fail by metis
  qed
qed

lemma retryPublish2_progOk:
  assumes "retryPublish2 tWrite c m = (c', p)" "G (RetryPublish m)" "G (RetryPublish2 m)"
  shows "progOk G p"
proof (cases "sig c")
  case None
  then show ?thesis using assms(1) by (auto simp: retryPublish2_def)
next
  case (Some s)
  obtain c1 ch where "makeChan c = (c1, ch)" by (cases "makeChan c")
  then show ?thesis
    using assms Some
    by (auto simp: retryPublish2_def pktPubRel_Pack_def elim!: sendPkt_progOk simp: pack_not_Fail)
qed

lemma subscribeImpl_progOk:
  assumes "subscribeImpl tWrite c subs = (c', p)" "G (RetrySubscribe subs)"
  shows "progOk G p"
proof -
  obtain c1 pid where n: "clientNewID c = (c1, pid)" by (cases "clientNewID c")
  obtain c2 ch where mk: "makeChan c1 = (c2, ch)" by (cases "makeChan c1")
  show ?thesis
    using assms n mk
    by (cases "sig c1") (auto simp: subscribeImpl_def subscribePack_not_Fail elim!: sendPkt_progOk)
qed

lemma unsubscribeImpl_progOk:
  assumes "unsubscribeImpl tWrite c topics = (c', p)" "G (RetryUnsubscribe topics)"
  shows "progOk G p"
proof -
  obtain c1 pid where n: "clientNewID c = (c1, pid)" by (cases "clientNewID c")
  obtain c2 ch where mk: "makeChan c1 = (c2, ch)" by (cases "makeChan c1")
  show ?thesis
    using assms n mk
    by (cases "sig c1") (auto simp: unsubscribeImpl_def unsubscribePack_not_Fail elim!: sendPkt_progOk)
qed

lemma Ping_progOk: "Ping tWrite now c = (c', p) \<Longrightarrow> progOk G p"
  by (cases "sig c") (auto simp: Ping_def pack_not_Fail makeChan_def elim!: sendPkt_progOk)

lemma Disconnect_progOk:
  assumes "Disconnect tWrite tClose c = (c', p)"
  shows "progOk G p"
proof -
  obtain c1 q where q: "sendPkt tWrite (connStateUpdate c StateDisconnected) (pack packetDisconnect [])
      (\<lambda>err. wrapError (Some err) ''sending DISCONNECT'') (Finished (Ret RNone)) = (c1, q)"
    by fastforce
  have "progOk G q" by (rule sendPkt_progOk [OF q]) (simp_all add: pack_not_Fail)
  moreover have "p = q" using assms q by (auto simp: Disconnect_def split: progress.splits outcome.splits)
  ultimately show ?thesis by simp
qed

lemma Connect_progOk:
  assumes "Connect tWrite rnd c clientID opts = (c', p)"
  shows "progOk G p"
proof (cases "applyOptions opts defaultOptions")
  case (Ret o')
  let ?c = "clientInit rnd c\<lparr>serveLoops := serveLoops (clientInit rnd c) + 1\<rparr>"
  obtain c1 ch where "registerConnAck ?c = (c1, ch)" by (cases "registerConnAck ?c")
  then show ?thesis
    using assms Ret by (auto simp: Connect_def Let_def connectPack_not_Fail elim!: sendPkt_progOk)
qed (use assms in \<open>auto simp: Connect_def\<close>)

lemma sameMessage_trans: "sameMessage m m' \<Longrightarrow> sameMessage m' m'' \<Longrightarrow> sameMessage m m''"
  by (simp add: sameMessage_def)

lemma sameMessage_refl [simp]: "sameMessage m m"
  by (simp add: sameMessage_def)

lemma runRetry_progOk: "runRetry tWrite c r = (c', p) \<Longrightarrow> progOk (retryOfRetry r) p"
  by (cases r)
    (auto elim: publishImpl_progOk retryPublish2_progOk subscribeImpl_progOk unsubscribeImpl_progOk split: prod.splits)

lemma Publish_progOk:
  assumes "Publish tWrite c m = (c', m', p)"
  shows "progOk (retryOfMessage m) p"
proof (cases "ValidateMessage c m")
  case (Fail e)
  then have "errOk (retryOfMessage m) e" by (auto simp: ValidateMessage_def failE_def split: if_splits)
  then show ?thesis using assms Fail by (auto simp: Publish_def)
qed (use assms in \<open>auto simp: Publish_def elim: publishImpl_progOk\<close>)

lemma retryOf_fun: "retryOf (BPublish m) = retryOfMessage m" "retryOf (BRetry r) = retryOfRetry r"
  by (rule ext, simp)+

lemma startRequest_progOk:
  assumes "startRequest tWrite tClose now c r = (c', p)" "asRequest op = Some r"
  shows "progOk (retryOf op) p"
  using assms
  by (cases op)
    (auto simp: Subscribe_def Unsubscribe_def retryOf_fun
      intro: Publish_progOk runRetry_progOk subscribeImpl_progOk unsubscribeImpl_progOk Ping_progOk Disconnect_progOk
        Connect_progOk split: prod.splits)

lemma onRecv_progOk:
  assumes "onRecv tWrite tClose now c w pk = (c', p)" "waitOk G w"
  shows "progOk G p"
  using assms
  by (auto simp: onRecv_def onSubAck_def onConnAck_def failE_def split: wait.splits ackPkt.splits if_splits
      elim: retryPublish2_progOk)

lemma resume_progOk:
  assumes "resume tWrite tClose now c w sel = Some (c', p)" "waitOk G w"
  shows "progOk G p"
proof (cases sel)
  case SelClosed
  then show ?thesis using assms by (cases w) (auto simp: resume_def split: if_splits)
next
  case (SelCtx err)
  then show ?thesis using assms by (cases w) (auto simp: resume_def onCtx_def)
next
  case SelRecv
  then show ?thesis
    using assms onRecv_progOk by (auto simp: resume_def split: list.splits)
qed

lemma drive_errOk:
  assumes "progOk G p" "snd (drive tWrite tClose hServe cx evs st p) = Fail e"
  shows "errOk G e"
  using assms
proof (induction tWrite tClose hServe cx evs st p rule: drive.induct)
  case (3 tWrite tClose hServe cx ev evs st w)
  obtain st1 r where ev: "serveEvent tWrite tClose hServe ev st = (st1, r)"
    by (cases "serveEvent tWrite tClose hServe ev st")
  show ?case
  proof (cases r)
    case (Ret u)
    show ?thesis
    proof (cases "Option.bind (selOf cx ev) (resume tWrite tClose 0 (scli st1) w)")
      case None
      then show ?thesis using 3 ev Ret by simp
    next
      case (Some cp)
      obtain c' p where cp: "cp = (c', p)" by (cases cp)
      with Some obtain sel where "resume tWrite tClose 0 (scli st1) w sel = Some (c', p)"
        by (cases "selOf cx ev") auto
      then have "progOk G p" using resume_progOk 3(3) by fastforce
      then show ?thesis using 3 ev Ret Some cp by simp
    qed
  qed (use 3 ev in simp_all)
qed simp_all

interpretation baseClient: base_client "baseCall tWrite tClose hServe"
proof
  fix cx c m
  show "fst (baseCall tWrite tClose hServe cx c (BValidate m)) = c" by (simp add: baseCall_def)
next
  fix cx c and op :: "'b baseOp" and e r
  assume err: "snd (baseCall tWrite tClose hServe cx c op) = Fail e" "asRequest op \<noteq> None"
    "as_ErrorWithRetry (Some e) = Some r"
  then obtain rq where rq: "asRequest op = Some rq" by blast
  obtain st evs where c: "c = (st, evs)" by (cases c)
  obtain c' p where start: "startRequest tWrite tClose 0 (scli st) rq = (c', p)"
    by (cases "startRequest tWrite tClose 0 (scli st) rq")
  have "baseCall tWrite tClose hServe cx c op = runRequest tWrite tClose hServe cx c rq"
    using rq by (cases op) (simp_all add: baseCall_def)
  then have "\<exists>st'. snd (drive tWrite tClose hServe cx evs st' p) = Fail e"
    using err(1) start by (auto simp: runRequest_def c)
  then have "errOk (retryOf op) e" using drive_errOk startRequest_progOk [OF start rq] by blast
  then show "retryOf op r" using err(3) by (simp add: errOk_def)
qed

subsection \<open>Retries that the broker acknowledges\<close>

text \<open>A client that is connected, and what a step of a request leaves alone.\<close>

definition online :: "('t, 'h) BaseClient \<Rightarrow> bool" where
  "online c \<longleftrightarrow> sig c \<noteq> None \<and> 0 < serveLoops c"

definition sameLink :: "('t, 'h) BaseClient \<Rightarrow> ('t, 'h) BaseClient \<Rightarrow> bool" where
  "sameLink c c' \<longleftrightarrow> (online c \<longrightarrow> online c') \<and> connClosed c' = connClosed c"

text \<open>A request that waits on a channel registered for it, which is empty.\<close>

definition waitsOn :: "('t, 'h) BaseClient \<Rightarrow> wait \<Rightarrow> bool" where
  "waitsOn c w \<longleftrightarrow> clientSlot c (waitSlot w) = Some (waitChan w) \<and> chans c (waitChan w) = []"

text \<open>The acknowledgement arrives and the request receives it.\<close>

lemma drive_acknowledged:
  assumes "online (scli st)" "waitsOn (scli st) w" "ackSlot p = waitSlot w" "ackFrame p = (ty, contents)"
  shows "\<exists>c'. drive tWrite tClose hServe cx (EvPacket ty 0 contents # EvRecv # evs) st (Waiting w)
        = (case onRecv tWrite tClose 0 c' w p of (c2, q) \<Rightarrow> drive tWrite tClose hServe cx evs (st\<lparr>scli := c2\<rparr>) q)
    \<and> Transport c' = Transport (scli st) \<and> sameLink (scli st) c'"
proof -
  obtain s where s: "sig (scli st) = Some s" using assms(1) by (auto simp: online_def)
  obtain c' where c': "servePacket tWrite hServe ty 0 contents st = (st\<lparr>scli := c'\<rparr>, Ret ())"
      "chans c' = (chans (scli st))(waitChan w := [p])" "Transport c' = Transport (scli st)" "\<exists>s'. sig c' = Some s'"
      "serveLoops c' = serveLoops (scli st)" "connClosed c' = connClosed (scli st)"
    using servePacket_ack [OF s, of p "waitChan w" ty contents tWrite hServe] assms(2-4) by (auto simp: waitsOn_def)
  let ?c = "c'\<lparr>chans := (chans c')(waitChan w := [])\<rparr>"
  have "sameLink (scli st) ?c" using c'(4-6) by (auto simp: sameLink_def online_def)
  then show ?thesis
    using c'(1-3) assms(1) by (intro exI [of _ ?c]) (simp add: online_def resume_def split: prod.splits)
qed

text \<open>The first step of a retried publish: it writes the message with the DUP flag and waits.\<close>

lemma runRetry_waits:
  assumes "accepts_all tWrite tlog" "publishable m" "mQoS m \<in> {QoS1, QoS2}" "mID m \<noteq> 0" "online c"
  shows "\<exists>c1 w b n. runRetry tWrite c (RetryPublish m) = (c1, Waiting w)
    \<and> pktPublish_Pack (m\<lparr>mDup := True\<rparr>) = Ret b \<and> tlog (Transport c1) = tlog (Transport c) @ [b]
    \<and> waitsOn c1 w \<and> sameLink c c1
    \<and> w = (if mQoS m = QoS1 then WPubAck (m\<lparr>mDup := True\<rparr>) n else WPubRec (m\<lparr>mDup := True\<rparr>) n)"
proof -
  let ?m = "m\<lparr>mDup := True\<rparr>"
  obtain s where s: "sig c = Some s" using assms(5) by (auto simp: online_def)
  let ?n = "nextChan c"
  let ?w = "if mQoS m = QoS1 then WPubAck ?m ?n else WPubRec ?m ?n"
  obtain c1 where c1: "publishRegister c s ?m = (c1, Waiting ?w)" "waitsOn c1 ?w" "sameLink c c1" "\<exists>s'. sig c1 = Some s'"
    using assms(3) s
    by (auto simp: publishRegister_def makeChan_def QoS_defs waitsOn_def clientSlot_def regPubAck_def regPubRec_def
        sameLink_def online_def)
  from publishImpl_accepts [OF assms(1,2,4) s c1(1)] obtain b t' where b: "pktPublish_Pack ?m = Ret b"
      "tlog t' = tlog (Transport c) @ [b]" "publishImpl tWrite c m True = (c1\<lparr>Transport := t'\<rparr>, ?m, Waiting ?w)"
    by auto
  have "waitsOn (c1\<lparr>Transport := t'\<rparr>) ?w" "sameLink c (c1\<lparr>Transport := t'\<rparr>)"
    using c1(2,3) by (simp_all add: waitsOn_def clientSlot_def sameLink_def online_def)
  then show ?thesis using b by auto
qed

text \<open>What a broker that answers sends for a retried publish, and what the client writes.\<close>

definition ackEvents :: "Message \<Rightarrow> event list" where
  "ackEvents m =
     (if mQoS m = QoS1 then [EvPacket packetPubAck 0 (packUint16 (mID m)), EvRecv]
      else [EvPacket packetPubRec 0 (packUint16 (mID m)), EvRecv, EvPacket packetPubComp 0 (packUint16 (mID m)), EvRecv])"

definition retryPackets :: "Message \<Rightarrow> byte list result list" where
  "retryPackets m = pktPublish_Pack (m\<lparr>mDup := True\<rparr>) # (if mQoS m = QoS1 then [] else [pktPubRel_Pack (mID m)])"

definition retriable :: "Message \<Rightarrow> bool" where
  "retriable m \<longleftrightarrow> publishable m \<and> mQoS m \<in> {QoS1, QoS2} \<and> mID m \<noteq> 0"

lemma drive_pubrec:
  assumes "accepts_all tWrite tlog" "sig c \<noteq> None"
  shows "\<exists>c2 k b. onRecv tWrite tClose 0 c (WPubRec m n) (AckRec pid) = (c2, Waiting (WPubComp m k))
    \<and> pktPubRel_Pack (mID m) = Ret b \<and> tlog (Transport c2) = tlog (Transport c) @ [b]
    \<and> waitsOn c2 (WPubComp m k) \<and> sameLink c c2"
proof -
  obtain s where s: "sig c = Some s" using assms(2) by auto
  let ?c = "c\<lparr>chans := (chans c)(nextChan c := []), nextChan := nextChan c + 1,
      sig := Some (regPubComp s (mID m) (nextChan c))\<rparr>"
  obtain b t' where "pktPubRel_Pack (mID m) = Ret b" "tlog t' = tlog (Transport c) @ [b]"
      "retryPublish2 tWrite c m = (?c\<lparr>Transport := t'\<rparr>, Waiting (WPubComp m (nextChan c)))"
    using sendPkt_accepts [OF assms(1) ack_packs(4), of "mID m" ?c] s
    by (fastforce simp: retryPublish2_def makeChan_def)
  then show ?thesis
    using s by (auto simp: onRecv_def waitsOn_def clientSlot_def regPubComp_def sameLink_def online_def)
qed

lemma sameLink_trans: "sameLink a b \<Longrightarrow> sameLink b c \<Longrightarrow> sameLink a c"
  by (simp add: sameLink_def)

text \<open>A retried publish on a connected client whose broker answers it.\<close>

lemma retry_acknowledged:
  assumes "accepts_all tWrite tlog" "retriable m" "online (scli st)"
  shows "\<exists>st' pkts. baseCall tWrite tClose hServe cx (st, ackEvents m @ evs) (BRetry (RetryPublish m)) = ((st', evs), Ret RNone)
    \<and> retryPackets m = map Ret pkts \<and> tlog (Transport (scli st')) = tlog (Transport (scli st)) @ pkts
    \<and> sameLink (scli st) (scli st')"
proof -
  let ?m = "m\<lparr>mDup := True\<rparr>"
  obtain c1 w b n where 1: "runRetry tWrite (scli st) (RetryPublish m) = (c1, Waiting w)"
      "pktPublish_Pack ?m = Ret b" "tlog (Transport c1) = tlog (Transport (scli st)) @ [b]"
      "waitsOn c1 w" "sameLink (scli st) c1" "w = (if mQoS m = QoS1 then WPubAck ?m n else WPubRec ?m n)"
    using runRetry_waits [OF assms(1) _ _ _ assms(3), of m] assms(2) unfolding retriable_def by blast
  have on: "online (scli (st\<lparr>scli := c1\<rparr>))" "waitsOn (scli (st\<lparr>scli := c1\<rparr>)) w"
    using 1(4,5) assms(3) by (simp_all add: sameLink_def)
  have call: "baseCall tWrite tClose hServe cx (st, ackEvents m @ evs) (BRetry (RetryPublish m))
      = drive tWrite tClose hServe cx (ackEvents m @ evs) (st\<lparr>scli := c1\<rparr>) (Waiting w)"
    using 1(1) by (simp add: baseCall_def runRequest_def isConnect_def)
  show ?thesis
  proof (cases "mQoS m = QoS1")
    case True
    obtain c2 where 2: "drive tWrite tClose hServe cx (ackEvents m @ evs) (st\<lparr>scli := c1\<rparr>) (Waiting w)
          = (case onRecv tWrite tClose 0 c2 w (AckPub (mID m)) of (c3, q) \<Rightarrow>
              drive tWrite tClose hServe cx evs (st\<lparr>scli := c1, scli := c3\<rparr>) q)"
        "Transport c2 = Transport c1" "sameLink c1 c2"
      using drive_acknowledged [OF on, of "AckPub (mID m)" packetPubAck "packUint16 (mID m)" tWrite tClose hServe cx evs]
        1(6) True by (auto simp: ackEvents_def)
    then show ?thesis
      using call 1 True sameLink_trans [OF 1(5) 2(3)]
      by (intro exI [of _ "st\<lparr>scli := c2\<rparr>"] exI [of _ "[b]"]) (simp add: onRecv_def retryPackets_def)
  next
    case False
    let ?evs = "EvPacket packetPubComp 0 (packUint16 (mID m)) # EvRecv # evs"
    obtain c2 where 2: "drive tWrite tClose hServe cx (ackEvents m @ evs) (st\<lparr>scli := c1\<rparr>) (Waiting w)
          = (case onRecv tWrite tClose 0 c2 w (AckRec (mID m)) of (c3, q) \<Rightarrow>
              drive tWrite tClose hServe cx ?evs (st\<lparr>scli := c1, scli := c3\<rparr>) q)"
        "Transport c2 = Transport c1" "sameLink c1 c2"
      using drive_acknowledged [OF on, of "AckRec (mID m)" packetPubRec "packUint16 (mID m)" tWrite tClose hServe cx ?evs]
        1(6) False by (auto simp: ackEvents_def)
    have "sig c2 \<noteq> None" using on(1) 2(3) by (simp add: sameLink_def online_def)
    then obtain c3 k b2 where 3: "onRecv tWrite tClose 0 c2 w (AckRec (mID m)) = (c3, Waiting (WPubComp ?m k))"
        "pktPubRel_Pack (mID m) = Ret b2" "tlog (Transport c3) = tlog (Transport c2) @ [b2]"
        "waitsOn c3 (WPubComp ?m k)" "sameLink c2 c3"
      using drive_pubrec [OF assms(1), of c2 tClose ?m n "mID m"] 1(6) False by auto
    have l3: "sameLink (scli st) c3" using sameLink_trans [OF sameLink_trans [OF 1(5) 2(3)] 3(5)] .
    then have on3: "online (scli (st\<lparr>scli := c3\<rparr>))" "waitsOn (scli (st\<lparr>scli := c3\<rparr>)) (WPubComp ?m k)"
      using 3(4) assms(3) by (simp_all add: sameLink_def)
    obtain c4 where 4: "drive tWrite tClose hServe cx ?evs (st\<lparr>scli := c3\<rparr>) (Waiting (WPubComp ?m k))
          = (case onRecv tWrite tClose 0 c4 (WPubComp ?m k) (AckComp (mID m)) of (c5, q) \<Rightarrow>
              drive tWrite tClose hServe cx evs (st\<lparr>scli := c3, scli := c5\<rparr>) q)"
        "Transport c4 = Transport c3" "sameLink c3 c4"
      using drive_acknowledged [OF on3, of "AckComp (mID m)" packetPubComp "packUint16 (mID m)" tWrite tClose hServe cx evs]
      by auto
    show ?thesis
      using call 1(2,3) 2(1,2) 3(1-3) 4(1,2) False sameLink_trans [OF l3 4(3)]
      by (intro exI [of _ "st\<lparr>scli := c4\<rparr>"] exI [of _ "[b, b2]"]) (simp add: onRecv_def retryPackets_def)
  qed
qed

text \<open>A retried publish whose connection ends before the acknowledgement.\<close>

lemma retry_disconnected:
  assumes "accepts_all tWrite tlog" "retriable m" "online (scli st)" "connClosed (scli st) = ChanOpen"
  shows "\<exists>st' b e. baseCall tWrite tClose hServe cx (st, EvReadErr err # EvClosed # evs) (BRetry (RetryPublish m))
        = ((st', evs), Fail e)
    \<and> as_ErrorWithRetry (Some e) = Some (RetryPublish (m\<lparr>mDup := True\<rparr>))
    \<and> pktPublish_Pack (m\<lparr>mDup := True\<rparr>) = Ret b
    \<and> (\<exists>t. tlog t = tlog (Transport (scli st)) @ [b] \<and> Transport (scli st') = fst (tClose t))
    \<and> connClosed (scli st') = ChanClosed"
proof -
  let ?m = "m\<lparr>mDup := True\<rparr>"
  obtain c1 w b n where 1: "runRetry tWrite (scli st) (RetryPublish m) = (c1, Waiting w)"
      "pktPublish_Pack ?m = Ret b" "tlog (Transport c1) = tlog (Transport (scli st)) @ [b]"
      "sameLink (scli st) c1" "w = (if mQoS m = QoS1 then WPubAck ?m n else WPubRec ?m n)"
    using runRetry_waits [OF assms(1) _ _ _ assms(3), of m] assms(2) unfolding retriable_def by blast
  have c1: "serveLoops c1 \<noteq> 0" "connClosed c1 = ChanOpen"
    using 1(4) assms(3,4) by (auto simp: sameLink_def online_def)
  from serveExit_open [OF c1(2)] obtain c2 where c2: "serveExit tClose (Some err) c1 = (c2, Ret ())"
      "connClosed c2 = ChanClosed" "Transport c2 = fst (tClose (Transport c1))" by blast
  obtain e where e: "returnErr (onClosed w) = Finished (Fail e)"
      "as_ErrorWithRetry (Some e) = Some (RetryPublish ?m)"
    using 1(5) by (cases "mQoS m = QoS1") (auto simp: wrapErrorWithRetry_def wrapE_def)
  have "baseCall tWrite tClose hServe cx (st, EvReadErr err # EvClosed # evs) (BRetry (RetryPublish m))
      = ((st\<lparr>scli := c2\<rparr>, evs), Fail e)"
    using 1(1) c1(1) c2(1,2) e(1)
    by (simp add: baseCall_def runRequest_def isConnect_def exitLoop_def resume_def)
  then show ?thesis using 1(2,3) c2(2,3) e(2) by auto
qed

end
