(* ===== verification/Subscriptions.thy ===== *)
theory Subscriptions
  imports Errors
begin

text \<open>
  \<open>subscriptions.go\<close>: the list of established subscriptions of a \<open>RetryClient\<close> and the two tasks that
  change it. Unsubscribing works in place on the slice: every removal overwrites the found entry with
  the last live one and shrinks the live length \<open>l\<close>, but the search keeps ranging over the whole
  slice. Assigning from index \<open>l\<close> panics when \<open>l\<close> has become negative.
\<close>

type_synonym subscriptions = "Subscription list"
type_synonym unsubscriptions = "gostring list"

definition subscriptions_applyTo :: "subscriptions \<Rightarrow> subscriptions \<Rightarrow> subscriptions" where
  "subscriptions_applyTo s d = d @ s"

text \<open>The inner loop: the first index of the slice that holds the topic.\<close>

fun findTopic :: "gostring \<Rightarrow> nat \<Rightarrow> Subscription list \<Rightarrow> nat option" where
  "findTopic topic i [] = None"
| "findTopic topic i (e # es) = (if sTopic e = topic then Some i else findTopic topic (i + 1) es)"

fun unsubLoop :: "unsubscriptions \<Rightarrow> subscriptions \<Rightarrow> int \<Rightarrow> (subscriptions \<times> int) result" where
  "unsubLoop [] d l = Ret (d, l)"
| "unsubLoop (topic # s) d l =
     (case findTopic topic 0 d of
        None \<Rightarrow> unsubLoop s d l
      | Some i \<Rightarrow>
          let l' = l - 1 in
          if l' < 0 then Panic ''index out of range''
          else bindO (index d (nat l')) (\<lambda>e. unsubLoop s (d[i := e]) l'))"

definition unsubscriptions_applyTo :: "unsubscriptions \<Rightarrow> subscriptions \<Rightarrow> subscriptions result" where
  "unsubscriptions_applyTo s d =
     bindO (unsubLoop s d (int (length d))) (\<lambda>(d', l). slice d' 0 l)"

subsection \<open>Search\<close>

lemma findTopic_None: "findTopic t i d = None \<longleftrightarrow> t \<notin> sTopic ` set d"
  by (induction d arbitrary: i) auto

lemma findTopic_Some:
  "findTopic t k d = Some i \<Longrightarrow>
     k \<le> i \<and> i - k < length d \<and> sTopic (d ! (i - k)) = t \<and> (\<forall>j < i - k. sTopic (d ! j) \<noteq> t)"
proof (induction d arbitrary: k)
  case (Cons e d)
  show ?case
  proof (cases "sTopic e = t")
    case True
    with Cons.prems show ?thesis by simp
  next
    case False
    with Cons.prems have "findTopic t (k + 1) d = Some i" by simp
    from Cons.IH [OF this] False show ?thesis
      by (auto simp: nth_Cons' less_Suc_eq_0_disj Suc_diff_Suc [symmetric])
  qed
qed simp

subsection \<open>Removing one entry in place\<close>

text \<open>On a list \<open>zs @ [x]\<close> with distinct keys, overwriting entry \<open>i\<close> by \<open>x\<close> and dropping the last
  entry removes exactly the entry with the key of entry \<open>i\<close>.\<close>

lemma swap_remove:
  assumes d: "distinct (map f (zs @ [x]))" and i: "i \<le> length zs"
  shows "distinct (map f (zs[i := x]))"
    and "set (zs[i := x]) = {e \<in> set (zs @ [x]). f e \<noteq> f ((zs @ [x]) ! i)}"
proof -
  have zs: "distinct (map f zs)" "f x \<notin> f ` set zs" using d by auto
  show "distinct (map f (zs[i := x]))"
    using zs by (simp add: map_update distinct_list_update)
  show "set (zs[i := x]) = {e \<in> set (zs @ [x]). f e \<noteq> f ((zs @ [x]) ! i)}"
  proof (cases "i < length zs")
    case True
    have "set (zs[i := x]) = insert x (set zs - {zs ! i})"
      using True zs by (simp add: set_update_distinct distinct_map)
    moreover have "e = zs ! i" if "e \<in> set zs" "f e = f (zs ! i)" for e
      using zs True that by (meson distinct_map inj_onD nth_mem)
    moreover have "f x \<noteq> f (zs ! i)" using zs True by force
    ultimately show ?thesis using True by (auto simp: nth_append)
  next
    case False
    then have "i = length zs" using i by simp
    moreover have "f e \<noteq> f x" if "e \<in> set zs" for e using zs(2) that by (metis imageI)
    ultimately show ?thesis by (auto simp: nth_append list_update_beyond)
  qed
qed

text \<open>
  The loop invariant for distinct topics: the live part has distinct topics, and every topic in the
  stale part is either removed already or still live.
\<close>

definition unsubInv :: "gostring set \<Rightarrow> subscriptions \<Rightarrow> nat \<Rightarrow> bool" where
  "unsubInv removed d l \<longleftrightarrow> l \<le> length d \<and> distinct (map sTopic (take l d))
     \<and> sTopic ` set d \<subseteq> removed \<union> sTopic ` set (take l d)"

lemma unsubInv_found:
  assumes inv: "unsubInv removed d l" and t: "t \<notin> removed" and f: "findTopic t 0 d = Some i"
  defines "d' \<equiv> d[i := d ! (l - 1)]"
  shows "i < l" and "unsubInv (insert t removed) d' (l - 1)"
    and "set (take (l - 1) d') = {e \<in> set (take l d). sTopic e \<noteq> t}"
proof -
  have i: "i < length d" "sTopic (d ! i) = t" and first: "\<forall>j < i. sTopic (d ! j) \<noteq> t"
    using findTopic_Some [OF f] by auto
  have ld: "l \<le> length d" using inv by (simp add: unsubInv_def)
  have "t \<in> sTopic ` set (take l d)"
    using inv t i nth_mem [OF i(1)] unfolding unsubInv_def by (metis UnE imageI subsetD)
  then obtain j where j: "j < l" "sTopic (d ! j) = t"
    using ld by (auto simp: in_set_conv_nth)
  then show il: "i < l" using first by (metis le_less_trans not_le)
  let ?zs = "take (l - 1) d" and ?x = "d ! (l - 1)"
  have zx: "take l d = ?zs @ [?x]" and len: "length ?zs = l - 1"
    using il ld take_Suc_conv_app_nth [of "l - 1" d] by auto
  have d': "take (l - 1) d' = ?zs[i := ?x]" by (simp add: d'_def take_update_swap)
  have di: "(?zs @ [?x]) ! i = d ! i" using il ld zx by (metis nth_take)
  have dist: "distinct (map sTopic (?zs @ [?x]))" using inv zx by (simp add: unsubInv_def)
  have "i \<le> length ?zs" using il len by simp
  note sr = swap_remove [OF dist this]
  show st: "set (take (l - 1) d') = {e \<in> set (take l d). sTopic e \<noteq> t}"
    unfolding d' zx sr(2) di i(2) ..
  have "set d' \<subseteq> set d"
    unfolding d'_def using il ld by (intro set_update_subsetI) auto
  then have "sTopic ` set d' \<subseteq> insert t removed \<union> sTopic ` set (take (l - 1) d')"
    using inv unfolding st unsubInv_def by blast
  then show "unsubInv (insert t removed) d' (l - 1)"
    using sr(1) il ld unfolding unsubInv_def d' by (simp add: d'_def)
qed

lemma unsubInv_not_found:
  assumes "unsubInv removed d l" "findTopic t 0 d = None"
  shows "unsubInv (insert t removed) d l" "set (take l d) = {e \<in> set (take l d). sTopic e \<noteq> t}"
  using assms set_take_subset [of l d] by (auto simp: unsubInv_def findTopic_None)

lemma unsubLoop_distinct:
  assumes "unsubInv removed d l" "distinct s" "set s \<inter> removed = {}"
  shows "\<exists>d' l'. unsubLoop s d (int l) = Ret (d', int l') \<and> l' \<le> length d'
     \<and> distinct (map sTopic (take l' d')) \<and> set (take l' d') = {e \<in> set (take l d). sTopic e \<notin> set s}"
  using assms
proof (induction s arbitrary: removed d l)
  case Nil
  then show ?case by (auto simp: unsubInv_def)
next
  case (Cons t s)
  then have t: "t \<notin> removed" and dis: "distinct s" "set s \<inter> insert t removed = {}" by auto
  show ?case
  proof (cases "findTopic t 0 d")
    case None
    note nf = unsubInv_not_found [OF Cons.prems(1) None]
    have "{e \<in> set (take l d). sTopic e \<notin> set (t # s)} = {e \<in> set (take l d). sTopic e \<notin> set s}"
      using nf(2) by auto
    with Cons.IH [OF nf(1) dis] None show ?thesis by simp
  next
    case (Some i)
    note fo = unsubInv_found [OF Cons.prems(1) t Some]
    have l: "0 < l" "l - 1 < length d"
      using fo(1) Cons.prems(1) by (auto simp: unsubInv_def)
    have "unsubLoop (t # s) d (int l) = unsubLoop s (d[i := d ! (l - 1)]) (int (l - 1))"
      using Some l by (simp add: index_def of_nat_diff nat_diff_distrib')
    with Cons.IH [OF fo(2) dis] show ?thesis
      unfolding fo(3) by (simp add: conj_assoc)
  qed
qed

lemma unsubscriptions_applyTo_distinct:
  assumes "distinct (map sTopic d)" "distinct s"
  shows "\<exists>d'. unsubscriptions_applyTo s d = Ret d' \<and> distinct (map sTopic d')
     \<and> set d' = {e \<in> set d. sTopic e \<notin> set s}"
proof -
  have "unsubInv {} d (length d)" using assms(1) by (simp add: unsubInv_def)
  from unsubLoop_distinct [OF this assms(2)] obtain d' l' where
    "unsubLoop s d (int (length d)) = Ret (d', int l')" "l' \<le> length d'"
    "distinct (map sTopic (take l' d'))" "set (take l' d') = {e \<in> set d. sTopic e \<notin> set s}"
    by auto
  then show ?thesis
    by (simp add: unsubscriptions_applyTo_def slice_def)
qed

subsection \<open>Properties\<close>

text \<open>C37: when the established subscriptions have distinct topics and the unsubscribed topics are
  distinct, unsubscribing removes exactly the entries of those topics: what is left has distinct topics
  and consists of all other entries with their QoS.\<close>

theorem unsubscribe_removes_exactly:
  assumes "distinct (map sTopic d)" "distinct s"
  shows "\<exists>d'. unsubscriptions_applyTo s d = Ret d' \<and> distinct (map sTopic d')
     \<and> set d' = {e \<in> set d. sTopic e \<notin> set s}"
  using assms by (rule unsubscriptions_applyTo_distinct)

theorem unsubscribe_removes_exactly_witness:
  "\<exists>d'. unsubscriptions_applyTo [str ''t1'', str ''t3'']
        [\<lparr>sTopic = str ''t1'', sQoS = 1\<rparr>, \<lparr>sTopic = str ''t2'', sQoS = 2\<rparr>, \<lparr>sTopic = str ''t3'', sQoS = 0\<rparr>] = Ret d'
     \<and> distinct (map sTopic d')
     \<and> set d' = {e \<in> set [\<lparr>sTopic = str ''t1'', sQoS = 1\<rparr>, \<lparr>sTopic = str ''t2'', sQoS = 2\<rparr>,
                        \<lparr>sTopic = str ''t3'', sQoS = 0\<rparr>]. sTopic e \<notin> set [str ''t1'', str ''t3'']}"
  by (rule unsubscribe_removes_exactly) (simp_all add: str_def)

text \<open>A subscription made and then removed leaves the established list with the same entries as
  before, for topics that were not established.\<close>

theorem subscribe_unsubscribe:
  assumes "distinct (map sTopic (d @ s))"
  shows "\<exists>d'. unsubscriptions_applyTo (map sTopic s) (subscriptions_applyTo s d) = Ret d' \<and> set d' = set d
     \<and> distinct (map sTopic d')"
proof -
  have "distinct (map sTopic s)" and "sTopic ` set d \<inter> sTopic ` set s = {}"
    using assms by simp_all
  moreover from this(2) have "{e \<in> set (d @ s). sTopic e \<notin> set (map sTopic s)} = set d"
    by auto
  ultimately show ?thesis
    using unsubscriptions_applyTo_distinct [OF assms, of "map sTopic s"]
    unfolding subscriptions_applyTo_def by metis
qed

theorem subscribe_unsubscribe_witness:
  "\<exists>d'. unsubscriptions_applyTo (map sTopic [\<lparr>sTopic = str ''b'', sQoS = 1\<rparr>])
        (subscriptions_applyTo [\<lparr>sTopic = str ''b'', sQoS = 1\<rparr>] [\<lparr>sTopic = str ''a'', sQoS = 0\<rparr>]) = Ret d'
     \<and> set d' = set [\<lparr>sTopic = str ''a'', sQoS = 0\<rparr>] \<and> distinct (map sTopic d')"
  by (rule subscribe_unsubscribe) (simp add: str_def)

text \<open>With repeated topics the removal goes wrong. Unsubscribing a topic twice in one call panics
  when it is the only subscription, and removes a subscription of another topic when it is the last one;
  a topic established twice stays established after one removal.\<close>

theorem unsubscribe_repeated_topics:
  fixes t1 t2 t3 :: gostring
  defines "t1 \<equiv> str ''t1''" and "t2 \<equiv> str ''t2''" and "t3 \<equiv> str ''t3''"
  shows "unsubscriptions_applyTo [t1, t1] [\<lparr>sTopic = t1, sQoS = 1\<rparr>] = Panic ''index out of range''
   \<and> unsubscriptions_applyTo [t3, t3]
        [\<lparr>sTopic = t1, sQoS = 1\<rparr>, \<lparr>sTopic = t2, sQoS = 1\<rparr>, \<lparr>sTopic = t3, sQoS = 1\<rparr>]
        = Ret [\<lparr>sTopic = t1, sQoS = 1\<rparr>]
   \<and> unsubscriptions_applyTo [t1] [\<lparr>sTopic = t1, sQoS = 1\<rparr>, \<lparr>sTopic = t1, sQoS = 1\<rparr>]
        = Ret [\<lparr>sTopic = t1, sQoS = 1\<rparr>]"
  unfolding t1_def t2_def t3_def
  by (simp add: unsubscriptions_applyTo_def str_def slice_def index_def)

end
