(* ===== verification/RetryClient.thy ===== *)
theory RetryClient
  imports Runner Subscriptions
begin

text \<open>
  \<open>retryclient.go\<close>: a client that queues requests as tasks for one goroutine, and the requests that
  were not acknowledged for a retry.

  Base clients are addresses into \<open>clis\<close>; the methods of a base client are the argument \<open>call\<close> (theory
  \<open>Runner\<close>), which gets the context of the call. Tasks get the context \<open>context.Background\<close>, so the
  argument \<open>ctxDone\<close> (the user's context has ended) is false in every task. The channels of connection
  errors and of client switches are addresses into \<open>errChans\<close> and \<open>switchClosed\<close>; \<open>pc\<close> is where the task
  goroutine stands. The counters \<open>QueuedTasks\<close> and \<open>QueuedRetries\<close> are computed by \<open>Stats\<close>.
\<close>

text \<open>The closures in the retry queue: those carried by errors, and those that \<open>publish\<close>, \<open>subscribe\<close> and
  \<open>unsubscribe\<close> queue while retries are pending.\<close>

datatype queued =
    QRetry retryFn | QPublish Message | QSubscribe bool "Subscription list" | QUnsubscribe "gostring list"

datatype task =
    TPublish Message | TSubscribe "Subscription list" | TUnsubscribe "gostring list" | TDisconnect
  | TResubscribe | TRetry

text \<open>\<open>chTask\<close>: a channel of capacity one; the flag says whether it holds a value.\<close>

datatype taskChan = TaskNil | TaskOpen bool | TaskClosed bool

record RetryStats =
  QueuedTasks :: nat
  QueuedRetries :: nat
  TotalTasks :: nat
  TotalRetries :: nat
  CountSetClient :: nat
  CountConnect :: nat
  CountConnectError :: nat

text \<open>The task goroutine: not started; about to read the channels of the client; waiting for its
  connection with the channels it read; connected and about to take a task; waiting for a task with the
  switch channel it read; running a task on the base client it read; ended.\<close>

datatype goPC =
    GoNone | GoUnconnected | GoWaitConn nat nat | GoConnected | GoIdle nat | GoRunning nat task | GoExit

record ('c, 'h) RetryClient =
  rCli :: "nat option"
  clis :: "nat \<Rightarrow> 'c"
  chConnectErr :: "nat option"
  chConnSwitch :: "nat option"
  errChans :: "nat \<Rightarrow> goerror list \<times> bool"
  switchClosed :: "nat \<Rightarrow> bool"
  nextCh :: nat
  newRetryByError :: bool
  retryQueue :: "queued list"
  subEstablished :: subscriptions
  rHandler :: "'h option"
  chTask :: taskChan
  stopped :: bool
  taskQueue :: "task list"
  rStats :: RetryStats
  ResponseTimeout :: Duration
  DirectlyPublishQoS0 :: bool
  OnError :: bool
  onErrors :: "goerror list"
  pc :: goPC

definition zeroRetryStats :: RetryStats where
  "zeroRetryStats = \<lparr>QueuedTasks = 0, QueuedRetries = 0, TotalTasks = 0, TotalRetries = 0,
     CountSetClient = 0, CountConnect = 0, CountConnectError = 0\<rparr>"

definition newRetryClient :: "(nat \<Rightarrow> 'c) \<Rightarrow> ('c, 'h) RetryClient" where
  "newRetryClient cs = \<lparr>rCli = None, clis = cs, chConnectErr = None, chConnSwitch = None,
     errChans = (\<lambda>_. ([], False)), switchClosed = (\<lambda>_. False), nextCh = 0, newRetryByError = False,
     retryQueue = [], subEstablished = [], rHandler = None, chTask = TaskNil, stopped = False,
     taskQueue = [], rStats = zeroRetryStats, ResponseTimeout = 0, DirectlyPublishQoS0 = False,
     OnError = False, onErrors = [], pc = GoNone\<rparr>"

type_synonym ('c, 'h) baseMethods = "ctx \<Rightarrow> 'c \<Rightarrow> 'h baseOp \<Rightarrow> 'c \<times> reply result"

subsection \<open>Helpers\<close>

text \<open>The callback \<open>OnError\<close> is nil unless the application sets it; the model has whether it is set, and the
  list \<open>onErrors\<close> of the errors that it was called with.\<close>

definition onError :: "goerror \<Rightarrow> ('c, 'h) RetryClient \<Rightarrow> ('c, 'h) RetryClient" where
  "onError err rc = (if OnError rc then rc\<lparr>onErrors := onErrors rc @ [err]\<rparr> else rc)"

text \<open>The context of a request made with the context \<open>cx\<close>, by what its end is reported as: with
  \<open>ResponseTimeout\<close> its end is a timeout error around the error of the inner context.\<close>

definition requestContext :: "ctx \<Rightarrow> ('c, 'h) RetryClient \<Rightarrow> ctx" where
  "requestContext cx rc =
     (if ResponseTimeout rc = 0 then cx
      else Some (RequestTimeoutError (Some (case cx of None \<Rightarrow> Sentinel context_DeadlineExceeded | Some e \<Rightarrow> e))))"

definition callBase ::
  "('c, 'h) baseMethods \<Rightarrow> ctx \<Rightarrow> nat \<Rightarrow> 'h baseOp \<Rightarrow> ('c, 'h) RetryClient \<Rightarrow> ('c, 'h) RetryClient \<times> reply result" where
  "callBase call cx a op rc =
     (case call cx (clis rc a) op of (c', r) \<Rightarrow> (rc\<lparr>clis := (clis rc)(a := c')\<rparr>, r))"

text \<open>What the closures do with an error of the base client: report it, and unless the user cancelled,
  queue the retry that it carries.\<close>

definition queueRetry :: "bool \<Rightarrow> goerror \<Rightarrow> ('c, 'h) RetryClient \<Rightarrow> ('c, 'h) RetryClient" where
  "queueRetry cancelled err rc =
     (let rc1 = onError err rc in
      if cancelled then rc1
      else case as_ErrorWithRetry (Some err) of
             None \<Rightarrow> rc1
           | Some r \<Rightarrow> rc1\<lparr>retryQueue := retryQueue rc1 @ [QRetry r], newRetryByError := True\<rparr>)"

definition afterCall ::
  "bool \<Rightarrow> ('c, 'h) RetryClient \<times> reply result \<Rightarrow> ('c, 'h) RetryClient \<times> unit result" where
  "afterCall cancelled = (\<lambda>(rc, r).
     case r of
       Ret x \<Rightarrow> (rc, Ret ())
     | Fail err \<Rightarrow> (queueRetry cancelled err rc, Ret ())
     | Panic s \<Rightarrow> (rc, Panic s)
     | Hang \<Rightarrow> (rc, Hang))"

subsection \<open>Requests inside a task\<close>

text \<open>The local closures \<open>publish\<close>, \<open>subscribe\<close> and \<open>unsubscribe\<close>.\<close>

definition publishNow ::
  "('c, 'h) baseMethods \<Rightarrow> bool \<Rightarrow> nat \<Rightarrow> Message \<Rightarrow> ('c, 'h) RetryClient \<Rightarrow> ('c, 'h) RetryClient \<times> unit result" where
  "publishNow call ctxDone a message rc =
     afterCall ctxDone (callBase call (requestContext None rc) a (BPublish message) rc)"

definition subscribeNow ::
  "('c, 'h) baseMethods \<Rightarrow> bool \<Rightarrow> bool \<Rightarrow> nat \<Rightarrow> Subscription list \<Rightarrow> ('c, 'h) RetryClient
     \<Rightarrow> ('c, 'h) RetryClient \<times> unit result" where
  "subscribeNow call ctxDone retry a subs rc =
     (let rc1 = rc\<lparr>subEstablished := subscriptions_applyTo subs (subEstablished rc)\<rparr>
      in afterCall (ctxDone \<and> \<not> retry) (callBase call (requestContext None rc1) a (BSubscribe subs) rc1))"

definition unsubscribeNow ::
  "('c, 'h) baseMethods \<Rightarrow> bool \<Rightarrow> nat \<Rightarrow> gostring list \<Rightarrow> ('c, 'h) RetryClient
     \<Rightarrow> ('c, 'h) RetryClient \<times> unit result" where
  "unsubscribeNow call ctxDone a topics rc =
     (case unsubscriptions_applyTo topics (subEstablished rc) of
        Ret subs' \<Rightarrow>
          (let rc1 = rc\<lparr>subEstablished := subs'\<rparr>
           in afterCall ctxDone (callBase call (requestContext None rc1) a (BUnsubscribe topics) rc1))
      | Fail e \<Rightarrow> (rc, Fail e)
      | Panic s \<Rightarrow> (rc, Panic s)
      | Hang \<Rightarrow> (rc, Hang))"

definition publishTask ::
  "('c, 'h) baseMethods \<Rightarrow> bool \<Rightarrow> nat \<Rightarrow> Message \<Rightarrow> ('c, 'h) RetryClient \<Rightarrow> ('c, 'h) RetryClient \<times> unit result" where
  "publishTask call ctxDone a message rc =
     (case callBase call None a (BValidate message) rc of
        (rc1, Fail err) \<Rightarrow> (rc1, Ret ())
      | (rc1, Ret x) \<Rightarrow>
          if length (retryQueue rc1) = 0 then publishNow call ctxDone a message rc1
          else if mQoS message > QoS0 then (rc1\<lparr>retryQueue := retryQueue rc1 @ [QPublish message]\<rparr>, Ret ())
          else (rc1, Ret ())
      | (rc1, Panic s) \<Rightarrow> (rc1, Panic s)
      | (rc1, Hang) \<Rightarrow> (rc1, Hang))"

definition subscribeTask ::
  "('c, 'h) baseMethods \<Rightarrow> bool \<Rightarrow> bool \<Rightarrow> nat \<Rightarrow> Subscription list \<Rightarrow> ('c, 'h) RetryClient
     \<Rightarrow> ('c, 'h) RetryClient \<times> unit result" where
  "subscribeTask call ctxDone retry a subs rc =
     (if length (retryQueue rc) = 0 then subscribeNow call ctxDone retry a subs rc
      else (rc\<lparr>retryQueue := retryQueue rc @ [QSubscribe retry subs]\<rparr>, Ret ()))"

definition unsubscribeTask ::
  "('c, 'h) baseMethods \<Rightarrow> bool \<Rightarrow> nat \<Rightarrow> gostring list \<Rightarrow> ('c, 'h) RetryClient
     \<Rightarrow> ('c, 'h) RetryClient \<times> unit result" where
  "unsubscribeTask call ctxDone a topics rc =
     (if length (retryQueue rc) = 0 then unsubscribeNow call ctxDone a topics rc
      else (rc\<lparr>retryQueue := retryQueue rc @ [QUnsubscribe topics]\<rparr>, Ret ()))"

subsection \<open>Resubscribe and Retry\<close>

fun resubscribeLoop ::
  "('c, 'h) baseMethods \<Rightarrow> bool \<Rightarrow> nat \<Rightarrow> Subscription list \<Rightarrow> ('c, 'h) RetryClient
     \<Rightarrow> ('c, 'h) RetryClient \<times> unit result" where
  "resubscribeLoop call ctxDone a [] rc = (rc, Ret ())"
| "resubscribeLoop call ctxDone a (sub # subs) rc =
     (case subscribeTask call ctxDone True a [sub] rc of
        (rc1, Ret u) \<Rightarrow> resubscribeLoop call ctxDone a subs rc1
      | (rc1, r) \<Rightarrow> (rc1, r))"

text \<open>Calling a queued closure: the error it returns (nil for those that queue their own retry).\<close>

fun runQueued ::
  "('c, 'h) baseMethods \<Rightarrow> bool \<Rightarrow> nat \<Rightarrow> queued \<Rightarrow> ('c, 'h) RetryClient
     \<Rightarrow> ('c, 'h) RetryClient \<times> goerror option result" where
  "runQueued call ctxDone a (QRetry r) rc =
     (case callBase call None a (BRetry r) rc of
        (rc1, Ret x) \<Rightarrow> (rc1, Ret None)
      | (rc1, Fail e) \<Rightarrow> (rc1, Ret (Some e))
      | (rc1, Panic s) \<Rightarrow> (rc1, Panic s)
      | (rc1, Hang) \<Rightarrow> (rc1, Hang))"
| "runQueued call ctxDone a (QPublish m) rc =
     (case publishNow call ctxDone a m rc of (rc1, r) \<Rightarrow> (rc1, bindO r (\<lambda>_. Ret None)))"
| "runQueued call ctxDone a (QSubscribe retry subs) rc =
     (case subscribeNow call ctxDone retry a subs rc of (rc1, r) \<Rightarrow> (rc1, bindO r (\<lambda>_. Ret None)))"
| "runQueued call ctxDone a (QUnsubscribe topics) rc =
     (case unsubscribeNow call ctxDone a topics rc of (rc1, r) \<Rightarrow> (rc1, bindO r (\<lambda>_. Ret None)))"

definition countRetry :: "('c, 'h) RetryClient \<Rightarrow> ('c, 'h) RetryClient" where
  "countRetry rc = rc\<lparr>rStats := (rStats rc)\<lparr>TotalRetries := TotalRetries (rStats rc) + 1\<rparr>\<rparr>"

text \<open>The loop over the old queue \<open>old\<close>, of which \<open>rest\<close> is still to do.\<close>

fun retryLoop ::
  "('c, 'h) baseMethods \<Rightarrow> bool \<Rightarrow> nat \<Rightarrow> queued list \<Rightarrow> queued list \<Rightarrow> ('c, 'h) RetryClient
     \<Rightarrow> ('c, 'h) RetryClient \<times> unit result" where
  "retryLoop call ctxDone a old [] rc = (rc, Ret ())"
| "retryLoop call ctxDone a old (q # rest) rc =
     (case runQueued call ctxDone a q (countRetry rc) of
        (rc1, Ret err) \<Rightarrow>
          (case as_ErrorWithRetry err of
             Some r \<Rightarrow> (rc1\<lparr>retryQueue := (retryQueue rc1 @ [QRetry r]) @ old\<rparr>, Ret ())
           | None \<Rightarrow> retryLoop call ctxDone a old rest rc1)
      | (rc1, Fail e) \<Rightarrow> (rc1, Fail e)
      | (rc1, Panic s) \<Rightarrow> (rc1, Panic s)
      | (rc1, Hang) \<Rightarrow> (rc1, Hang))"

fun runTask ::
  "('c, 'h) baseMethods \<Rightarrow> bool \<Rightarrow> nat \<Rightarrow> task \<Rightarrow> ('c, 'h) RetryClient \<Rightarrow> ('c, 'h) RetryClient \<times> unit result" where
  "runTask call ctxDone a (TPublish m) rc = publishTask call ctxDone a m rc"
| "runTask call ctxDone a (TSubscribe subs) rc = subscribeTask call ctxDone False a subs rc"
| "runTask call ctxDone a (TUnsubscribe topics) rc = unsubscribeTask call ctxDone a topics rc"
| "runTask call ctxDone a TDisconnect rc =
     (case callBase call (requestContext None rc) a BDisconnect rc of
        (rc1, Fail err) \<Rightarrow> (onError err rc1, Ret ())
      | (rc1, Ret x) \<Rightarrow> (rc1, Ret ())
      | (rc1, Panic s) \<Rightarrow> (rc1, Panic s)
      | (rc1, Hang) \<Rightarrow> (rc1, Hang))"
| "runTask call ctxDone a TResubscribe rc =
     (let old = [] @ subEstablished rc in
      resubscribeLoop call ctxDone a old (rc\<lparr>subEstablished := []\<rparr>))"
| "runTask call ctxDone a TRetry rc =
     (let old = [] @ retryQueue rc in retryLoop call ctxDone a old old (rc\<lparr>retryQueue := []\<rparr>))"

subsection \<open>The methods\<close>

definition nilDeref :: "'a result" where
  "nilDeref = Panic ''invalid memory address or nil pointer dereference''"

definition wrapResult :: "string \<Rightarrow> 'a result \<Rightarrow> 'a result" where
  "wrapResult failure r = (case r of Fail e \<Rightarrow> Fail (wrapE e failure) | _ \<Rightarrow> r)"

text \<open>A send on \<open>chTask\<close> in a \<open>select\<close> with \<open>default\<close>; on a closed channel it panics.\<close>

definition pushTask :: "('c, 'h) RetryClient \<Rightarrow> task \<Rightarrow> ('c, 'h) RetryClient \<times> unit result" where
  "pushTask rc task =
     (if stopped rc then (rc, Fail (Sentinel ErrClosedClient))
      else let rc1 = rc\<lparr>taskQueue := taskQueue rc @ [task]\<rparr> in
           case chTask rc1 of
             TaskNil \<Rightarrow> (rc1, Ret ())
           | TaskOpen b \<Rightarrow> (rc1\<lparr>chTask := TaskOpen True\<rparr>, Ret ())
           | TaskClosed b \<Rightarrow> (rc1, Panic ''send on closed channel''))"

definition RetryClient_Handle :: "('c, 'h) baseMethods \<Rightarrow> ('c, 'h) RetryClient \<Rightarrow> 'h option \<Rightarrow> ('c, 'h) RetryClient" where
  "RetryClient_Handle call rc h =
     (let rc1 = rc\<lparr>rHandler := h\<rparr> in
      case rCli rc1 of None \<Rightarrow> rc1 | Some a \<Rightarrow> fst (callBase call None a (BHandle h) rc1))"

definition RetryClient_Publish ::
  "('c, 'h) baseMethods \<Rightarrow> ctx \<Rightarrow> ('c, 'h) RetryClient \<Rightarrow> Message \<Rightarrow> ('c, 'h) RetryClient \<times> unit result" where
  "RetryClient_Publish call cx rc message =
     (if DirectlyPublishQoS0 rc \<and> mQoS message = QoS0 then
        (case rCli rc of
           None \<Rightarrow> (rc, nilDeref)
         | Some a \<Rightarrow> (case callBase call cx a (BPublish message) rc of (rc1, r) \<Rightarrow> (rc1, bindO r (\<lambda>_. Ret ()))))
      else
        (case (case rCli rc of None \<Rightarrow> (rc, Ret RNone) | Some a \<Rightarrow> callBase call None a (BValidate message) rc) of
           (rc1, Ret x) \<Rightarrow>
             (case pushTask rc1 (TPublish message) of (rc2, r) \<Rightarrow> (rc2, wrapResult ''retryclient: publishing'' r))
         | (rc1, Fail err) \<Rightarrow> (rc1, Fail (wrapE err ''validating publishing message''))
         | (rc1, Panic s) \<Rightarrow> (rc1, Panic s)
         | (rc1, Hang) \<Rightarrow> (rc1, Hang)))"

definition RetryClient_Subscribe :: "('c, 'h) RetryClient \<Rightarrow> Subscription list \<Rightarrow> ('c, 'h) RetryClient \<times> unit result" where
  "RetryClient_Subscribe rc subs =
     (case pushTask rc (TSubscribe subs) of (rc1, r) \<Rightarrow> (rc1, wrapResult ''retryclient: subscribing'' r))"

definition RetryClient_Unsubscribe :: "('c, 'h) RetryClient \<Rightarrow> gostring list \<Rightarrow> ('c, 'h) RetryClient \<times> unit result" where
  "RetryClient_Unsubscribe rc topics =
     (case pushTask rc (TUnsubscribe topics) of (rc1, r) \<Rightarrow> (rc1, wrapResult ''retryclient: unsubscribing'' r))"

definition closeTask :: "taskChan \<Rightarrow> taskChan result" where
  "closeTask ch =
     (case ch of
        TaskNil \<Rightarrow> Panic ''close of nil channel''
      | TaskOpen b \<Rightarrow> Ret (TaskClosed b)
      | TaskClosed b \<Rightarrow> Panic ''close of closed channel'')"

definition RetryClient_Disconnect :: "('c, 'h) RetryClient \<Rightarrow> ('c, 'h) RetryClient \<times> unit result" where
  "RetryClient_Disconnect rc =
     (case pushTask rc TDisconnect of
        (rc1, Panic s) \<Rightarrow> (rc1, Panic s)
      | (rc1, r) \<Rightarrow>
          (case closeTask (chTask rc1) of
             Ret ch \<Rightarrow> (rc1\<lparr>chTask := ch, stopped := True\<rparr>, wrapResult ''retryclient: disconnecting'' r)
           | Fail e \<Rightarrow> (rc1, Fail e)
           | Panic s \<Rightarrow> (rc1, Panic s)
           | Hang \<Rightarrow> (rc1, Hang)))"

definition RetryClient_Ping ::
  "('c, 'h) baseMethods \<Rightarrow> ctx \<Rightarrow> ('c, 'h) RetryClient \<Rightarrow> ('c, 'h) RetryClient \<times> unit result" where
  "RetryClient_Ping call cx rc =
     (case rCli rc of
        None \<Rightarrow> (rc, nilDeref)
      | Some a \<Rightarrow>
          (case callBase call (requestContext cx rc) a BPing rc of
             (rc1, r) \<Rightarrow> (rc1, wrapResult ''retryclient: pinging'' (bindO r (\<lambda>_. Ret ())))))"

definition RetryClient_Client :: "('c, 'h) RetryClient \<Rightarrow> nat option" where
  "RetryClient_Client rc = rCli rc"

text \<open>\<open>SetClient\<close>; it starts the task goroutine at the first call.\<close>

definition switchClient :: "nat \<Rightarrow> ('c, 'h) RetryClient \<Rightarrow> ('c, 'h) RetryClient" where
  "switchClient a rc =
     rc\<lparr>rCli := Some a, chConnectErr := Some (nextCh rc), chConnSwitch := Some (nextCh rc + 1),
        errChans := (errChans rc)(nextCh rc := ([], False)),
        switchClosed := (case chConnSwitch rc of None \<Rightarrow> switchClosed rc | Some s \<Rightarrow> (switchClosed rc)(s := True))
                          (nextCh rc + 1 := False),
        nextCh := nextCh rc + 2,
        rStats := (rStats rc)\<lparr>CountSetClient := CountSetClient (rStats rc) + 1\<rparr>\<rparr>"

definition RetryClient_SetClient :: "('c, 'h) RetryClient \<Rightarrow> nat \<Rightarrow> ('c, 'h) RetryClient \<times> unit result" where
  "RetryClient_SetClient rc a =
     (if (case chConnSwitch rc of None \<Rightarrow> False | Some s \<Rightarrow> switchClosed rc s)
      then (rc, Panic ''close of closed channel'')
      else let rc1 = switchClient a rc in
           if chTask rc1 \<noteq> TaskNil then (rc1, Ret ())
           else (rc1\<lparr>chTask := TaskOpen False, pc := GoUnconnected\<rparr>, Ret ()))"

text \<open>Sending an error on, and closing, a channel of connection errors (capacity one).\<close>

definition sendErr :: "goerror list \<times> bool \<Rightarrow> goerror \<Rightarrow> (goerror list \<times> bool) result" where
  "sendErr ch err =
     (if snd ch then Panic ''send on closed channel''
      else if length (fst ch) < 1 then Ret (fst ch @ [err], False) else Hang)"

definition closeErr :: "goerror list \<times> bool \<Rightarrow> (goerror list \<times> bool) result" where
  "closeErr ch = (if snd ch then Panic ''close of closed channel'' else Ret (fst ch, True))"

definition RetryClient_Connect ::
  "('c, 'h) baseMethods \<Rightarrow> ctx \<Rightarrow> uint32 \<Rightarrow> ('c, 'h) RetryClient \<Rightarrow> gostring \<Rightarrow> ConnectOption list
     \<Rightarrow> ('c, 'h) RetryClient \<times> reply result" where
  "RetryClient_Connect call cx rnd rc clientID opts =
     (case (rCli rc, chConnectErr rc) of
        (Some a, Some k) \<Rightarrow>
          (let rc1 = fst (callBase call None a (BHandle (rHandler rc)) rc);
               rc2 = rc1\<lparr>rStats := (rStats rc1)\<lparr>CountConnect := CountConnect (rStats rc1) + 1\<rparr>\<rparr>
           in case callBase call cx a (BConnect rnd clientID opts) rc2 of
                (rc3, Fail err) \<Rightarrow>
                  (let rc4 = rc3\<lparr>rStats := (rStats rc3)\<lparr>CountConnectError := CountConnectError (rStats rc3) + 1\<rparr>\<rparr>
                   in case bindO (sendErr (errChans rc4 k) err) closeErr of
                        Ret ch \<Rightarrow> (rc4\<lparr>errChans := (errChans rc4)(k := ch)\<rparr>, Fail (wrapE err ''retryclient: connecting''))
                      | Fail e \<Rightarrow> (rc4, Fail e)
                      | Panic s \<Rightarrow> (rc4, Panic s)
                      | Hang \<Rightarrow> (rc4, Hang))
              | (rc3, Ret x) \<Rightarrow>
                  (case closeErr (errChans rc3 k) of
                     Ret ch \<Rightarrow> (rc3\<lparr>errChans := (errChans rc3)(k := ch)\<rparr>, Ret x)
                   | Fail e \<Rightarrow> (rc3, Fail e)
                   | Panic s \<Rightarrow> (rc3, Panic s)
                   | Hang \<Rightarrow> (rc3, Hang))
              | (rc3, Panic s) \<Rightarrow> (rc3, Panic s)
              | (rc3, Hang) \<Rightarrow> (rc3, Hang))
      | _ \<Rightarrow> (rc, nilDeref))"

definition RetryClient_Resubscribe :: "('c, 'h) RetryClient \<Rightarrow> ('c, 'h) RetryClient \<times> unit result" where
  "RetryClient_Resubscribe rc =
     (case pushTask rc TResubscribe of (rc1, Fail e) \<Rightarrow> (rc1, Ret ()) | (rc1, r) \<Rightarrow> (rc1, r))"

definition RetryClient_Retry :: "('c, 'h) RetryClient \<Rightarrow> ('c, 'h) RetryClient \<times> unit result" where
  "RetryClient_Retry rc =
     (case pushTask rc TRetry of (rc1, Fail e) \<Rightarrow> (rc1, Ret ()) | (rc1, r) \<Rightarrow> (rc1, r))"

definition RetryClient_Stats :: "('c, 'h) RetryClient \<Rightarrow> RetryStats" where
  "RetryClient_Stats rc = (rStats rc)\<lparr>QueuedTasks := length (taskQueue rc), QueuedRetries := length (retryQueue rc)\<rparr>"

subsection \<open>The task goroutine\<close>

text \<open>The case of a \<open>select\<close> that is taken, where there is one.\<close>

datatype taskSel = SelErr | SelSwitch | SelTask

text \<open>Taking the next task off the queue, to run it on the client \<open>a\<close>.\<close>

definition takeTask :: "nat \<Rightarrow> ('c, 'h) RetryClient \<Rightarrow> ('c, 'h) RetryClient" where
  "takeTask a rc =
     rc\<lparr>taskQueue := tl (taskQueue rc), pc := GoRunning a (hd (taskQueue rc)),
        rStats := (rStats rc)\<lparr>TotalTasks := TotalTasks (rStats rc) + 1\<rparr>\<rparr>"

text \<open>Running it; after an error with a retry the connection is closed and the goroutine waits for the next
  one. Methods that are called while the task runs are steps between \<open>takeTask\<close> and \<open>finishTask\<close>; the
  task itself and the methods work on different fields (see \<open>runTask_tasks\<close> below), so it does not matter
  where in the task they fall.\<close>

definition finishTask ::
  "('c, 'h) baseMethods \<Rightarrow> nat \<Rightarrow> task \<Rightarrow> ('c, 'h) RetryClient \<Rightarrow> ('c, 'h) RetryClient \<times> unit result" where
  "finishTask call a t rc =
     (case runTask call False a t rc of
        (rc2, Ret u) \<Rightarrow>
          (if newRetryByError rc2
           then ((fst (callBase call None a BClose rc2))\<lparr>pc := GoUnconnected, newRetryByError := False\<rparr>, Ret ())
           else (rc2\<lparr>pc := GoConnected\<rparr>, Ret ()))
      | (rc2, r) \<Rightarrow> (rc2, r))"

text \<open>One step of the goroutine; \<open>None\<close> when the chosen case is not ready or there is no step.\<close>

definition taskStep ::
  "('c, 'h) baseMethods \<Rightarrow> taskSel \<Rightarrow> ('c, 'h) RetryClient \<Rightarrow> (('c, 'h) RetryClient \<times> unit result) option" where
  "taskStep call sel rc =
     (case pc rc of
        GoNone \<Rightarrow> None
      | GoExit \<Rightarrow> None
      | GoUnconnected \<Rightarrow>
          (case (chConnectErr rc, chConnSwitch rc) of
             (Some k, Some s) \<Rightarrow> Some (rc\<lparr>pc := GoWaitConn k s\<rparr>, Ret ())
           | _ \<Rightarrow> None)
      | GoWaitConn k s \<Rightarrow>
          (case sel of
             SelErr \<Rightarrow>
               (case errChans rc k of
                  (e # es, closed) \<Rightarrow> Some (rc\<lparr>errChans := (errChans rc)(k := (es, closed)), pc := GoUnconnected\<rparr>, Ret ())
                | ([], True) \<Rightarrow> Some (rc\<lparr>pc := GoConnected\<rparr>, Ret ())
                | ([], False) \<Rightarrow> None)
           | SelSwitch \<Rightarrow> if switchClosed rc s then Some (rc\<lparr>pc := GoUnconnected\<rparr>, Ret ()) else None
           | SelTask \<Rightarrow> None)
      | GoConnected \<Rightarrow>
          (case (rCli rc, chConnSwitch rc) of
             (Some a, Some s) \<Rightarrow>
               if switchClosed rc s then Some (rc\<lparr>pc := GoUnconnected\<rparr>, Ret ())
               else if length (taskQueue rc) = 0 then Some (rc\<lparr>pc := GoIdle s\<rparr>, Ret ())
               else Some (takeTask a rc, Ret ())
           | _ \<Rightarrow> None)
      | GoRunning a t \<Rightarrow> Some (finishTask call a t rc)
      | GoIdle s \<Rightarrow>
          (case sel of
             SelTask \<Rightarrow>
               (case chTask rc of
                  TaskOpen True \<Rightarrow> Some (rc\<lparr>chTask := TaskOpen False, pc := GoConnected\<rparr>, Ret ())
                | TaskClosed True \<Rightarrow> Some (rc\<lparr>chTask := TaskClosed False, pc := GoConnected\<rparr>, Ret ())
                | TaskClosed False \<Rightarrow> Some (rc\<lparr>pc := GoExit\<rparr>, Ret ())
                | _ \<Rightarrow> None)
           | SelSwitch \<Rightarrow> if switchClosed rc s then Some (rc\<lparr>pc := GoUnconnected\<rparr>, Ret ()) else None
           | SelErr \<Rightarrow> None))"

subsection \<open>What the steps leave alone\<close>

lemma callBase_eq: "callBase call cx a op rc = (rc\<lparr>clis := (clis rc)(a := fst (call cx (clis rc a) op))\<rparr>, snd (call cx (clis rc a) op))"
  by (simp add: callBase_def split: prod.splits)

text \<open>The fields that requests and retries do not touch: the task queue, the channels, the client and the
  goroutine's position.\<close>

definition sameControl :: "('c, 'h) RetryClient \<Rightarrow> ('c, 'h) RetryClient \<Rightarrow> bool" where
  "sameControl rc rc' \<longleftrightarrow> taskQueue rc' = taskQueue rc \<and> chTask rc' = chTask rc \<and> stopped rc' = stopped rc
     \<and> rCli rc' = rCli rc \<and> chConnectErr rc' = chConnectErr rc \<and> chConnSwitch rc' = chConnSwitch rc
     \<and> errChans rc' = errChans rc \<and> switchClosed rc' = switchClosed rc \<and> nextCh rc' = nextCh rc \<and> pc rc' = pc rc
     \<and> rHandler rc' = rHandler rc"

lemma sameControl_refl [simp]: "sameControl rc rc"
  by (simp add: sameControl_def)

lemma sameControl_trans: "sameControl a b \<Longrightarrow> sameControl b c \<Longrightarrow> sameControl a c"
  by (simp add: sameControl_def)

lemma callBase_control [simp]: "sameControl rc (fst (callBase call cx a op rc))"
  by (simp add: callBase_eq sameControl_def)

lemma callBase_controlD: "callBase call cx a op rc = (rc', r) \<Longrightarrow> sameControl rc rc'"
  using callBase_control [of rc call cx a op] by simp

lemma onError_control: "sameControl rc rc' \<Longrightarrow> sameControl rc (onError e rc')"
  by (simp add: onError_def sameControl_def)

lemma queueRetry_control [simp]: "sameControl rc (queueRetry x e rc)"
  by (simp add: queueRetry_def onError_def sameControl_def Let_def split: option.splits)

lemma afterCall_control:
  assumes "sameControl rc (fst x)"
  shows "sameControl rc (fst (afterCall b x))"
  using assms sameControl_trans [OF assms queueRetry_control]
  by (cases x; cases "snd x") (auto simp: afterCall_def)

lemma publishNow_control: "sameControl rc (fst (publishNow call d a m rc))"
  by (simp add: publishNow_def afterCall_control)

lemma subscribeNow_control: "sameControl rc (fst (subscribeNow call d r a subs rc))"
proof -
  let ?rc = "rc\<lparr>subEstablished := subscriptions_applyTo subs (subEstablished rc)\<rparr>"
  have "sameControl rc ?rc" by (simp add: sameControl_def)
  then show ?thesis
    using afterCall_control [OF callBase_control] sameControl_trans by (fastforce simp: subscribeNow_def Let_def)
qed

lemma unsubscribeNow_control: "sameControl rc (fst (unsubscribeNow call d a topics rc))"
proof (cases "unsubscriptions_applyTo topics (subEstablished rc)")
  case (Ret subs')
  have "sameControl rc (rc\<lparr>subEstablished := subs'\<rparr>)" by (simp add: sameControl_def)
  then show ?thesis
    using Ret afterCall_control [OF callBase_control] sameControl_trans by (fastforce simp: unsubscribeNow_def Let_def)
qed (simp_all add: unsubscribeNow_def)

lemma sameControl_queue: "sameControl rc (rc\<lparr>retryQueue := q\<rparr>)"
  by (simp add: sameControl_def)

lemma publishTask_control: "sameControl rc (fst (publishTask call d a m rc))"
proof -
  obtain rc1 r where v: "callBase call None a (BValidate m) rc = (rc1, r)" by (cases "callBase call None a (BValidate m) rc")
  then have rc1: "sameControl rc rc1" using callBase_control [of rc call None a "BValidate m"] by simp
  then have "sameControl rc (fst (publishNow call d a m rc1))" "sameControl rc (rc1\<lparr>retryQueue := q\<rparr>)" for q
    using publishNow_control sameControl_queue sameControl_trans by blast+
  then show ?thesis using v rc1 by (cases r) (simp_all add: publishTask_def)
qed

lemma subscribeTask_control: "sameControl rc (fst (subscribeTask call d r a subs rc))"
  by (simp add: subscribeTask_def subscribeNow_control sameControl_queue)

lemma unsubscribeTask_control: "sameControl rc (fst (unsubscribeTask call d a topics rc))"
  by (simp add: unsubscribeTask_def unsubscribeNow_control sameControl_queue)

lemma resubscribeLoop_control: "sameControl rc (fst (resubscribeLoop call d a subs rc))"
proof (induction subs arbitrary: rc)
  case (Cons sub subs)
  obtain rc1 r where s: "subscribeTask call d True a [sub] rc = (rc1, r)" by (cases "subscribeTask call d True a [sub] rc")
  then have "sameControl rc rc1" using subscribeTask_control [of rc call d True a "[sub]"] by simp
  then show ?case using Cons.IH [of rc1] s sameControl_trans by (cases r) auto
qed simp

lemma runQueued_control: "sameControl rc (fst (runQueued call d a q rc))"
proof (cases q)
  case (QRetry r)
  then show ?thesis by (auto split: prod.splits outcome.splits dest: callBase_controlD)
next
  case (QPublish m)
  then show ?thesis using publishNow_control [of rc call d a m] by (auto split: prod.splits)
next
  case (QSubscribe b subs)
  then show ?thesis using subscribeNow_control [of rc call d b a subs] by (auto split: prod.splits)
next
  case (QUnsubscribe topics)
  then show ?thesis using unsubscribeNow_control [of rc call d a topics] by (auto split: prod.splits)
qed

lemma countRetry_control: "sameControl rc (countRetry rc)"
  by (simp add: countRetry_def sameControl_def)

lemma retryLoop_control: "sameControl rc (fst (retryLoop call d a old rest rc))"
proof (induction rest arbitrary: rc)
  case (Cons q rest)
  obtain rc1 r where s: "runQueued call d a q (countRetry rc) = (rc1, r)" by (cases "runQueued call d a q (countRetry rc)")
  then have "sameControl rc rc1"
    using runQueued_control [of "countRetry rc" call d a q] sameControl_trans [OF countRetry_control] by simp
  then show ?case
    using Cons.IH [of rc1] s sameControl_trans sameControl_queue
    by (cases r) (auto split: option.splits intro: sameControl_trans [OF _ sameControl_queue])
qed simp

lemma runTask_control: "sameControl rc (fst (runTask call d a t rc))"
proof (cases t)
  case TDisconnect
  then show ?thesis
    by (auto split: prod.splits outcome.splits dest: callBase_controlD intro: onError_control)
next
  case TResubscribe
  have "sameControl rc (rc\<lparr>subEstablished := []\<rparr>)" by (simp add: sameControl_def)
  then show ?thesis using TResubscribe resubscribeLoop_control sameControl_trans by (fastforce simp: Let_def)
next
  case TRetry
  then show ?thesis
    using retryLoop_control sameControl_queue sameControl_trans by (fastforce simp: Let_def)
qed (simp_all add: publishTask_control subscribeTask_control unsubscribeTask_control)

text \<open>The other way round: a task does not look at these fields either. \<open>withControl k rc\<close> is \<open>rc\<close> with those
  of \<open>k\<close>. So a method that is called while a task runs, which changes only these fields (such as \<open>pushTask\<close>
  and \<open>SetClient\<close>, statistics apart), has the same effect wherever in the task it falls.\<close>

definition withControl :: "('c, 'h) RetryClient \<Rightarrow> ('c, 'h) RetryClient \<Rightarrow> ('c, 'h) RetryClient" where
  "withControl k rc = rc\<lparr>taskQueue := taskQueue k, chTask := chTask k, stopped := stopped k, rCli := rCli k,
     chConnectErr := chConnectErr k, chConnSwitch := chConnSwitch k, errChans := errChans k,
     switchClosed := switchClosed k, nextCh := nextCh k, rHandler := rHandler k\<rparr>"

abbreviation under :: "('c, 'h) RetryClient \<Rightarrow> ('c, 'h) RetryClient \<times> 'r \<Rightarrow> ('c, 'h) RetryClient \<times> 'r" where
  "under k \<equiv> map_prod (withControl k) id"

lemma withControl_simps [simp]:
  "retryQueue (withControl k rc) = retryQueue rc" "subEstablished (withControl k rc) = subEstablished rc"
  "requestContext cx (withControl k rc) = requestContext cx rc"
  "(withControl k rc)\<lparr>retryQueue := q\<rparr> = withControl k (rc\<lparr>retryQueue := q\<rparr>)"
  "(withControl k rc)\<lparr>subEstablished := s\<rparr> = withControl k (rc\<lparr>subEstablished := s\<rparr>)"
  "callBase call cx a op (withControl k rc) = under k (callBase call cx a op rc)"
  "onError e (withControl k rc) = withControl k (onError e rc)"
  "countRetry (withControl k rc) = withControl k (countRetry rc)"
  "queueRetry b e (withControl k rc) = withControl k (queueRetry b e rc)"
  by (simp_all add: withControl_def requestContext_def callBase_eq onError_def countRetry_def queueRetry_def Let_def
      split: option.splits)

lemma afterCall_under [simp]: "afterCall b (under k x) = under k (afterCall b x)"
  by (cases x; cases "snd x") (simp_all add: afterCall_def)

lemma now_under [simp]:
  "publishNow call d a m (withControl k rc) = under k (publishNow call d a m rc)"
  "subscribeNow call d b a subs (withControl k rc) = under k (subscribeNow call d b a subs rc)"
  "unsubscribeNow call d a topics (withControl k rc) = under k (unsubscribeNow call d a topics rc)"
  by (simp_all add: publishNow_def subscribeNow_def unsubscribeNow_def Let_def split: outcome.splits)

lemma task_under [simp]:
  "publishTask call d a m (withControl k rc) = under k (publishTask call d a m rc)"
  "subscribeTask call d b a subs (withControl k rc) = under k (subscribeTask call d b a subs rc)"
  "unsubscribeTask call d a topics (withControl k rc) = under k (unsubscribeTask call d a topics rc)"
  by (auto simp: publishTask_def subscribeTask_def unsubscribeTask_def split: prod.splits outcome.splits)

lemma runQueued_under [simp]: "runQueued call d a q (withControl k rc) = under k (runQueued call d a q rc)"
  by (cases q) (auto split: prod.splits outcome.splits)

lemma resubscribeLoop_under [simp]:
  "resubscribeLoop call d a subs (withControl k rc) = under k (resubscribeLoop call d a subs rc)"
  by (induction subs arbitrary: rc) (auto split: prod.splits outcome.splits)

lemma retryLoop_under [simp]:
  "retryLoop call d a old rest (withControl k rc) = under k (retryLoop call d a old rest rc)"
  by (induction rest arbitrary: rc) (auto split: prod.splits outcome.splits option.splits)

lemma runTask_under: "runTask call d a t (withControl k rc) = under k (runTask call d a t rc)"
  by (cases t) (auto simp: Let_def split: prod.splits outcome.splits)

text \<open>In particular a request that is queued while a task runs.\<close>

lemma withControl_same:
  assumes "sameControl k rc"
  shows "withControl k rc = rc"
proof -
  have "taskQueue k = taskQueue rc" "chTask k = chTask rc" "stopped k = stopped rc" "rCli k = rCli rc"
    "chConnectErr k = chConnectErr rc" "chConnSwitch k = chConnSwitch rc" "errChans k = errChans rc"
    "switchClosed k = switchClosed rc" "nextCh k = nextCh rc" "rHandler k = rHandler rc"
    using assms by (simp_all add: sameControl_def)
  then show ?thesis by (simp add: withControl_def)
qed

lemma withControl_tasks:
  "withControl (k\<lparr>taskQueue := q, chTask := c\<rparr>) rc = (withControl k rc)\<lparr>taskQueue := q, chTask := c\<rparr>"
  by (simp add: withControl_def)

lemma pushTask_fields:
  "sameControl rc rc' \<Longrightarrow> \<exists>q c. fst (pushTask rc t) = rc\<lparr>taskQueue := q, chTask := c\<rparr>
     \<and> fst (pushTask rc' t) = rc'\<lparr>taskQueue := q, chTask := c\<rparr>"
proof (cases "stopped rc")
  case True
  assume s: "sameControl rc rc'"
  then have "rc'\<lparr>taskQueue := taskQueue rc', chTask := chTask rc'\<rparr> = rc'" "taskQueue rc' = taskQueue rc"
    "chTask rc' = chTask rc" "stopped rc'" using True by (simp_all add: sameControl_def)
  then show ?thesis
    using True by (intro exI [of _ "taskQueue rc"] exI [of _ "chTask rc"]) (simp add: pushTask_def)
next
  case False
  assume s: "sameControl rc rc'"
  have eq: "stopped rc' = stopped rc" "taskQueue rc' = taskQueue rc" "chTask rc' = chTask rc"
    using s by (simp_all add: sameControl_def)
  have id: "x\<lparr>taskQueue := q, chTask := ch\<rparr> = x\<lparr>taskQueue := q\<rparr>" if "chTask x = ch" for x :: "('a, 'b) RetryClient" and q ch
    using that by auto
  show ?thesis
  proof (cases "chTask rc")
    case TaskNil
    then show ?thesis
      using False eq id [of rc] id [of rc']
      by (intro exI [of _ "taskQueue rc @ [t]"] exI [of _ TaskNil]) (simp add: pushTask_def)
  next
    case (TaskOpen b)
    then show ?thesis
      using False eq by (intro exI [of _ "taskQueue rc @ [t]"] exI [of _ "TaskOpen True"]) (simp add: pushTask_def)
  next
    case (TaskClosed b)
    then show ?thesis
      using False eq id [of rc] id [of rc']
      by (intro exI [of _ "taskQueue rc @ [t]"] exI [of _ "TaskClosed b"]) (simp add: pushTask_def)
  qed
qed

lemma runTask_tasks:
  "runTask call d a t (fst (pushTask rc t')) =
     (case runTask call d a t rc of (rc', r) \<Rightarrow> (fst (pushTask rc' t'), r))"
proof -
  obtain rc' r where run: "runTask call d a t rc = (rc', r)" by (cases "runTask call d a t rc")
  have s: "sameControl rc rc'" using runTask_control [of rc call d a t] run by simp
  obtain q c where k: "fst (pushTask rc t') = rc\<lparr>taskQueue := q, chTask := c\<rparr>"
      "fst (pushTask rc' t') = rc'\<lparr>taskQueue := q, chTask := c\<rparr>"
    using pushTask_fields [OF s] by blast
  have "withControl (rc\<lparr>taskQueue := q, chTask := c\<rparr>) rc = rc\<lparr>taskQueue := q, chTask := c\<rparr>"
    "withControl (rc\<lparr>taskQueue := q, chTask := c\<rparr>) rc' = rc'\<lparr>taskQueue := q, chTask := c\<rparr>"
    using withControl_same [OF s] withControl_same [of rc rc] by (simp_all only: withControl_tasks) simp
  then show ?thesis using runTask_under [of call d a t "rc\<lparr>taskQueue := q, chTask := c\<rparr>" rc] run k by simp
qed

subsection \<open>Reachable states\<close>

text \<open>Method calls by any goroutine and steps of the task goroutine, in any order. A call that panics
  ends the program.\<close>

inductive rcStep :: "('c, 'h) baseMethods \<Rightarrow> ('c, 'h) RetryClient \<Rightarrow> ('c, 'h) RetryClient \<Rightarrow> bool" for call where
  rc_handle: "rcStep call rc (RetryClient_Handle call rc h)"
| rc_publish: "RetryClient_Publish call cx rc m = (rc', r) \<Longrightarrow> \<not> is_Panic r \<Longrightarrow> rcStep call rc rc'"
| rc_subscribe: "RetryClient_Subscribe rc subs = (rc', r) \<Longrightarrow> \<not> is_Panic r \<Longrightarrow> rcStep call rc rc'"
| rc_unsubscribe: "RetryClient_Unsubscribe rc topics = (rc', r) \<Longrightarrow> \<not> is_Panic r \<Longrightarrow> rcStep call rc rc'"
| rc_disconnect: "RetryClient_Disconnect rc = (rc', r) \<Longrightarrow> \<not> is_Panic r \<Longrightarrow> rcStep call rc rc'"
| rc_ping: "RetryClient_Ping call cx rc = (rc', r) \<Longrightarrow> \<not> is_Panic r \<Longrightarrow> rcStep call rc rc'"
| rc_set: "RetryClient_SetClient rc a = (rc', r) \<Longrightarrow> \<not> is_Panic r \<Longrightarrow> rcStep call rc rc'"
| rc_connect: "RetryClient_Connect call cx rnd rc i opts = (rc', r) \<Longrightarrow> \<not> is_Panic r \<Longrightarrow> rcStep call rc rc'"
| rc_resubscribe: "RetryClient_Resubscribe rc = (rc', r) \<Longrightarrow> \<not> is_Panic r \<Longrightarrow> rcStep call rc rc'"
| rc_retry: "RetryClient_Retry rc = (rc', r) \<Longrightarrow> \<not> is_Panic r \<Longrightarrow> rcStep call rc rc'"
| rc_task: "taskStep call sel rc = Some (rc', Ret ()) \<Longrightarrow> rcStep call rc rc'"

definition rcReachable :: "('c, 'h) baseMethods \<Rightarrow> ('c, 'h) RetryClient \<Rightarrow> bool" where
  "rcReachable call rc \<longleftrightarrow> (\<exists>cs. (rcStep call)\<^sup>*\<^sup>* (newRetryClient cs) rc)"

text \<open>The switch channel of the current client is open, the goroutine runs exactly when the task channel
  exists and the client is stopped exactly when that channel is closed.\<close>

definition rcInv :: "('c, 'h) RetryClient \<Rightarrow> bool" where
  "rcInv rc \<longleftrightarrow>
     (\<forall>s. chConnSwitch rc = Some s \<longrightarrow> \<not> switchClosed rc s \<and> s < nextCh rc)
     \<and> (stopped rc \<longleftrightarrow> (\<exists>b. chTask rc = TaskClosed b))
     \<and> (chTask rc = TaskNil \<longleftrightarrow> pc rc = GoNone)
     \<and> (pc rc \<noteq> GoNone \<longrightarrow> rCli rc \<noteq> None \<and> chConnectErr rc \<noteq> None \<and> chConnSwitch rc \<noteq> None)"

lemma rcInv_control: "rcInv rc \<Longrightarrow> sameControl rc rc' \<Longrightarrow> rcInv rc'"
  by (simp add: rcInv_def sameControl_def)

lemma rcInv_push:
  assumes "rcInv rc" "pushTask rc t = (rc', r)"
  shows "rcInv rc'"
proof (cases "chTask rc")
  case (TaskClosed b)
  then show ?thesis using assms by (auto simp: pushTask_def rcInv_def)
qed (use assms in \<open>auto simp: pushTask_def rcInv_def Let_def split: if_splits\<close>)

lemma pushTask_no_panic: "rcInv rc \<Longrightarrow> pushTask rc t = (rc', r) \<Longrightarrow> \<not> is_Panic r"
  by (auto simp: pushTask_def rcInv_def Let_def split: if_splits taskChan.splits)

lemma rcInv_publish:
  assumes "rcInv rc" "RetryClient_Publish call cx rc m = (rc', r)"
  shows "rcInv rc'"
proof -
  have v: "rcInv rc1" if "callBase call c a op rc = (rc1, x)" for c a op rc1 x
    using rcInv_control [OF assms(1) callBase_controlD [OF that]] .
  show ?thesis
    using assms
    by (auto simp: RetryClient_Publish_def split: if_splits option.splits prod.splits outcome.splits
        intro: v rcInv_push [OF v] rcInv_push)
qed

lemma rcInv_disconnect:
  assumes "rcInv rc" "RetryClient_Disconnect rc = (rc', r)" "\<not> is_Panic r"
  shows "rcInv rc'"
proof -
  obtain rc1 x where p: "pushTask rc TDisconnect = (rc1, x)" by (cases "pushTask rc TDisconnect")
  have "rcInv rc1" by (rule rcInv_push [OF assms(1) p])
  then show ?thesis
    using assms(2,3) p
    by (cases x; cases "chTask rc1") (auto simp: RetryClient_Disconnect_def closeTask_def rcInv_def)
qed

lemma rcInv_set:
  assumes "rcInv rc" "RetryClient_SetClient rc a = (rc', r)"
  shows "rcInv rc' \<and> r = Ret ()"
  using assms
  by (auto simp: RetryClient_SetClient_def switchClient_def rcInv_def Let_def split: if_splits option.splits)

lemma rcInv_connect:
  assumes "rcInv rc" "RetryClient_Connect call cx rnd rc i opts = (rc', r)"
  shows "rcInv rc'"
proof -
  have "sameControl rc (rc'\<lparr>errChans := errChans rc\<rparr>)"
    using assms(2)
    by (auto simp: RetryClient_Connect_def callBase_eq Let_def sameControl_def
        split: option.splits prod.splits outcome.splits)
  then have "rcInv (rc'\<lparr>errChans := errChans rc\<rparr>)" by (rule rcInv_control [OF assms(1)])
  then show ?thesis by (simp add: rcInv_def)
qed

lemma finishTask_control:
  assumes "finishTask call a t rc = (rc', Ret ())"
  shows "sameControl (rc\<lparr>pc := pc rc'\<rparr>) rc' \<and> pc rc' \<in> {GoConnected, GoUnconnected}"
proof -
  obtain rc2 r where t: "runTask call False a t rc = (rc2, r)" by (cases "runTask call False a t rc")
  have "sameControl rc rc2" using runTask_control [of rc call False a t] t by simp
  then show ?thesis
    using assms t by (cases r) (auto simp: finishTask_def callBase_eq sameControl_def split: if_splits)
qed

lemma rcInv_task:
  assumes "rcInv rc" "taskStep call sel rc = Some (rc', Ret ())"
  shows "rcInv rc'"
proof (cases "\<exists>a t. pc rc = GoRunning a t")
  case True
  then obtain a t where "finishTask call a t rc = (rc', Ret ())" "pc rc \<noteq> GoNone" using assms(2) by (auto simp: taskStep_def)
  then show ?thesis using finishTask_control [of call a t rc rc'] assms(1) by (auto simp: rcInv_def sameControl_def)
next
  case False
  then show ?thesis
    using assms
    by (auto simp: taskStep_def takeTask_def rcInv_def split: goPC.splits taskSel.splits option.splits prod.splits list.splits
        bool.splits if_splits taskChan.splits)
qed

lemma rcStep_inv: "rcStep call rc rc' \<Longrightarrow> rcInv rc \<Longrightarrow> rcInv rc'"
proof (induction rule: rcStep.induct)
  case (rc_handle rc h)
  then show ?case
    by (auto simp: RetryClient_Handle_def Let_def callBase_eq rcInv_def split: option.splits)
next
  case (rc_ping cx rc rc' r)
  then show ?case
    by (auto simp: RetryClient_Ping_def callBase_eq rcInv_def split: option.splits prod.splits)
qed (auto simp: RetryClient_Subscribe_def RetryClient_Unsubscribe_def RetryClient_Resubscribe_def RetryClient_Retry_def
      dest: rcInv_push rcInv_publish rcInv_disconnect rcInv_set rcInv_connect rcInv_task
      split: prod.splits outcome.splits)

lemma rcReachable_inv:
  assumes "rcReachable call rc"
  shows "rcInv rc"
proof -
  obtain cs where "(rcStep call)\<^sup>*\<^sup>* (newRetryClient cs) rc" using assms unfolding rcReachable_def by blast
  then show ?thesis
  proof (induction rule: rtranclp_induct)
    case base
    then show ?case by (simp add: newRetryClient_def rcInv_def)
  qed (rule rcStep_inv)
qed

subsection \<open>Order and completeness of the retry queue\<close>

fun queuedFor :: "Message \<Rightarrow> queued \<Rightarrow> bool" where
  "queuedFor m (QRetry r) = retryOfMessage m r"
| "queuedFor m (QPublish m') = sameMessage m m'"
| "queuedFor m q = False"

context base_client
begin

lemma validate_clis: "fst (callBase call cx a (BValidate m) rc) = rc"
  by (simp add: callBase_eq validate_pure)

lemma publishTask_eq:
  "publishTask call d a m rc =
     (case snd (call None (clis rc a) (BValidate m)) of
        Fail e \<Rightarrow> (rc, Ret ())
      | Ret x \<Rightarrow> if retryQueue rc = [] then publishNow call d a m rc
                 else if mQoS m > QoS0 then (rc\<lparr>retryQueue := retryQueue rc @ [QPublish m]\<rparr>, Ret ())
                 else (rc, Ret ())
      | Panic s \<Rightarrow> (rc, Panic s) | Hang \<Rightarrow> (rc, Hang))"
  by (simp add: publishTask_def callBase_eq validate_pure split: outcome.splits)

text \<open>While retries are pending no request reaches the base client: each waits behind the queue.\<close>

lemma requests_wait:
  assumes "retryQueue rc \<noteq> []"
  shows "publishTask call d a m rc =
     (case snd (call None (clis rc a) (BValidate m)) of
        Ret x \<Rightarrow> (if mQoS m > QoS0 then rc\<lparr>retryQueue := retryQueue rc @ [QPublish m]\<rparr> else rc, Ret ())
      | Fail e \<Rightarrow> (rc, Ret ()) | Panic s \<Rightarrow> (rc, Panic s) | Hang \<Rightarrow> (rc, Hang))"
    "subscribeTask call d b a subs rc = (rc\<lparr>retryQueue := retryQueue rc @ [QSubscribe b subs]\<rparr>, Ret ())"
    "unsubscribeTask call d a topics rc = (rc\<lparr>retryQueue := retryQueue rc @ [QUnsubscribe topics]\<rparr>, Ret ())"
  using assms by (simp_all add: publishTask_eq subscribeTask_def unsubscribeTask_def split: outcome.splits)

text \<open>A published message is dropped as invalid, acknowledged, queued for a retry, or fails with an error
  that carries no retry.\<close>

lemma publishTask_outcome:
  assumes "publishTask call False a m rc = (rc', Ret ())" "mQoS m > QoS0"
  shows "(\<exists>e. snd (call None (clis rc a) (BValidate m)) = Fail e \<and> rc' = rc)
    \<or> (\<exists>y. retryQueue rc = [] \<and> snd (call (requestContext None rc) (clis rc a) (BPublish m)) = Ret y)
    \<or> (\<exists>q. retryQueue rc' = retryQueue rc @ [q] \<and> queuedFor m q)
    \<or> (\<exists>e. snd (call (requestContext None rc) (clis rc a) (BPublish m)) = Fail e
         \<and> as_ErrorWithRetry (Some e) = None \<and> onErrors rc' = onErrors rc @ (if OnError rc then [e] else []))"
proof (cases "snd (call None (clis rc a) (BValidate m))")
  case (Fail e)
  then show ?thesis using assms(1) by (simp add: publishTask_eq)
next
  case (Ret x)
  show ?thesis
  proof (cases "retryQueue rc = []")
    case False
    then have "retryQueue rc' = retryQueue rc @ [QPublish m]" using assms Ret by (auto simp: publishTask_eq)
    then show ?thesis by (auto simp: sameMessage_def)
  next
    case True
    then have eq: "publishNow call False a m rc = (rc', Ret ())" using assms Ret by (simp add: publishTask_eq)
    show ?thesis
    proof (cases "snd (call (requestContext None rc) (clis rc a) (BPublish m))")
      case (Fail e)
      show ?thesis
      proof (cases "as_ErrorWithRetry (Some e)")
        case None
        then have "onErrors rc' = onErrors rc @ (if OnError rc then [e] else [])"
          using eq Fail by (auto simp: publishNow_def callBase_eq afterCall_def queueRetry_def onError_def)
        then show ?thesis using None Fail by blast
      next
        case (Some r)
        then have "retryOfMessage m r" using retry_of [OF Fail] by simp
        moreover have "retryQueue rc' = [QRetry r]"
          using eq Fail Some True by (auto simp: publishNow_def callBase_eq afterCall_def queueRetry_def onError_def)
        ultimately show ?thesis using True by auto
      qed
    qed (use eq True in \<open>auto simp: publishNow_def callBase_eq afterCall_def\<close>)
  qed
qed (use assms in \<open>simp_all add: publishTask_eq\<close>)

end

subsection \<open>The retry loop\<close>

lemma retryLoop_completed:
  assumes "runQueued call False a q (countRetry rc) = (rc1, Ret None)"
  shows "retryLoop call False a old (q # rest) rc = retryLoop call False a old rest rc1"
  using assms by simp

text \<open>A stretch of retried publishes that the broker answers, on the program's own client. Only the base
  client and the statistics change: every message is written once, in order, with the DUP flag.\<close>

lemma retryLoop_acknowledged:
  assumes "accepts_all tWrite tlog" "list_all retriable ms" "online (scli st)"
    and "clis rc a = (st, concat (map ackEvents ms) @ evs)"
  shows "\<exists>rc' st' pkts. retryLoop (baseCall tWrite tClose hServe) False a old (map (QRetry \<circ> RetryPublish) ms @ rest) rc
        = retryLoop (baseCall tWrite tClose hServe) False a old rest rc'
    \<and> clis rc' a = (st', evs) \<and> sameLink (scli st) (scli st')
    \<and> concat (map retryPackets ms) = map Ret pkts \<and> tlog (Transport (scli st')) = tlog (Transport (scli st)) @ pkts
    \<and> retryQueue rc' = retryQueue rc \<and> onErrors rc' = onErrors rc
    \<and> TotalRetries (rStats rc') = TotalRetries (rStats rc) + length ms"
  using assms(2-)
proof (induction ms arbitrary: rc st)
  case Nil
  then show ?case
    by (intro exI [of _ rc] exI [of _ st]) (simp add: sameLink_def)
next
  case (Cons m ms)
  let ?call = "baseCall tWrite tClose hServe"
  have m: "retriable m" "list_all retriable ms" using Cons.prems(1) by simp_all
  obtain st1 pkts1 where 1: "?call None (st, ackEvents m @ concat (map ackEvents ms) @ evs) (BRetry (RetryPublish m))
        = ((st1, concat (map ackEvents ms) @ evs), Ret RNone)"
      "retryPackets m = map Ret pkts1" "tlog (Transport (scli st1)) = tlog (Transport (scli st)) @ pkts1"
      "sameLink (scli st) (scli st1)"
    using retry_acknowledged [OF assms(1) m(1) Cons.prems(2)] by blast
  let ?rc = "(countRetry rc)\<lparr>clis := (clis rc)(a := (st1, concat (map ackEvents ms) @ evs))\<rparr>"
  have "runQueued ?call False a (QRetry (RetryPublish m)) (countRetry rc) = (?rc, Ret None)"
    using 1(1) Cons.prems(3) by (simp add: callBase_eq countRetry_def)
  from retryLoop_completed [OF this, of old] have loop: "retryLoop ?call False a old (map (QRetry \<circ> RetryPublish) (m # ms) @ rest) rc
      = retryLoop ?call False a old (map (QRetry \<circ> RetryPublish) ms @ rest) ?rc" by simp
  have on: "online (scli st1)" "clis ?rc a = (st1, concat (map ackEvents ms) @ evs)"
    using 1(4) Cons.prems(2) by (simp_all add: sameLink_def)
  obtain rc' st' pkts2 where 2:
      "retryLoop ?call False a old (map (QRetry \<circ> RetryPublish) ms @ rest) ?rc = retryLoop ?call False a old rest rc'"
      "clis rc' a = (st', evs)" "sameLink (scli st1) (scli st')" "concat (map retryPackets ms) = map Ret pkts2"
      "tlog (Transport (scli st')) = tlog (Transport (scli st1)) @ pkts2" "retryQueue rc' = retryQueue ?rc"
      "onErrors rc' = onErrors ?rc" "TotalRetries (rStats rc') = TotalRetries (rStats ?rc) + length ms"
    using Cons.IH [OF m(2) on] by blast
  note loop = trans [OF loop 2(1)]
  show ?case
    using 2(2,4-8) 1(2,3) sameLink_trans [OF 1(4) 2(3)]
    by (intro exI [of _ rc'] exI [of _ st'] exI [of _ "pkts1 @ pkts2"] conjI loop) (simp_all add: countRetry_def)
qed

subsection \<open>Properties\<close>

text \<open>C7: What becomes of a QoS 1 or QoS 2 message when its task ends. Either \<open>ValidateMessage\<close> refuses it on
  this client and it is dropped, nothing else being changed; or no retry is pending and the broker has
  acknowledged it; or the retry queue has grown at its end by one entry that sends the same topic, payload,
  QoS and retain flag; or the call failed with an error that carries no retry, which is passed to the
  callback \<open>OnError\<close> if the application set one, and the message is gone.\<close>

theorem published_message_outcome:
  assumes "publishTask (baseCall tWrite tClose hServe) False a m rc = (rc', Ret ())" "mQoS m > QoS0"
  shows "(\<exists>e. ValidateMessage (scli (fst (clis rc a))) m = Fail e \<and> rc' = rc)
    \<or> (\<exists>y. retryQueue rc = [] \<and> snd (baseCall tWrite tClose hServe (requestContext None rc) (clis rc a) (BPublish m)) = Ret y)
    \<or> (\<exists>q. retryQueue rc' = retryQueue rc @ [q] \<and> queuedFor m q)
    \<or> (\<exists>e. snd (baseCall tWrite tClose hServe (requestContext None rc) (clis rc a) (BPublish m)) = Fail e
         \<and> as_ErrorWithRetry (Some e) = None \<and> onErrors rc' = onErrors rc @ (if OnError rc then [e] else []))"
proof -
  have "snd (baseCall tWrite tClose hServe None (clis rc a) (BValidate m)) = Fail e
      \<Longrightarrow> ValidateMessage (scli (fst (clis rc a))) m = Fail e" for e
    by (cases "ValidateMessage (scli (fst (clis rc a))) m") (simp_all add: baseCall_def)
  then show ?thesis using baseClient.publishTask_outcome [OF assms] by blast
qed

text \<open>A retry client on two base clients that log what they write; the broker stays silent.\<close>

abbreviation demoRetry :: "queued list \<Rightarrow> ((byte list list, unit, Message list) serveState \<times> event list, unit) RetryClient" where
  "demoRetry qs \<equiv> (newRetryClient (\<lambda>_. (\<lparr>scli = demoClient, subBuffer = Map.empty, hstate = []\<rparr>, [])))\<lparr>retryQueue := qs\<rparr>"

abbreviation demoCall where
  "demoCall \<equiv> baseCall logWrite (\<lambda>t. (t, None)) (\<lambda>(h :: unit) m s. s @ [m :: Message])"

lemma demoRetry_publish:
  "publishTask demoCall False 0 (demoMessage 1) (demoRetry [QRetry (RetryPublish (demoMessage 2))])
     = (demoRetry [QRetry (RetryPublish (demoMessage 2)), QPublish (demoMessage 1)], Ret ())"
  by (simp add: baseClient.publishTask_eq baseCall_def newRetryClient_def ValidateMessage_def QoS_defs)

theorem published_message_outcome_witness:
  "\<exists>q. retryQueue (fst (publishTask demoCall False 0 (demoMessage 1) (demoRetry [QRetry (RetryPublish (demoMessage 2))])))
     = [QRetry (RetryPublish (demoMessage 2))] @ [q] \<and> queuedFor (demoMessage 1) q"
proof -
  have q: "mQoS (demoMessage 1) > QoS0" by (simp add: QoS_defs)
  have "ValidateMessage (scli (fst (clis (demoRetry [QRetry (RetryPublish (demoMessage 2))]) 0))) (demoMessage 1) = Ret ()"
    "OnError (demoRetry [QRetry (RetryPublish (demoMessage 2))]) = False"
    by (simp_all add: newRetryClient_def ValidateMessage_def QoS_defs)
  then show ?thesis
    using published_message_outcome [OF demoRetry_publish q] unfolding demoRetry_publish
    by (auto simp: newRetryClient_def sameMessage_def)
qed

text \<open>C13: Requests never overtake a pending retry. While the retry queue is not empty, a publish, subscribe or
  unsubscribe task does not touch any base client. A subscribe or unsubscribe task appends its request to
  the end of the queue; a publish task does so for a valid message of QoS 1 or 2, and drops a message of
  QoS 0 and one that \<open>ValidateMessage\<close> refuses. Nothing else changes, and the task ends.\<close>

theorem requests_behind_retries:
  assumes "retryQueue rc \<noteq> []"
  shows "publishTask (baseCall tWrite tClose hServe) d a m rc =
      (if ValidateMessage (scli (fst (clis rc a))) m = Ret () \<and> mQoS m > QoS0
       then rc\<lparr>retryQueue := retryQueue rc @ [QPublish m]\<rparr> else rc, Ret ())
    \<and> subscribeTask (baseCall tWrite tClose hServe) d b a subs rc
        = (rc\<lparr>retryQueue := retryQueue rc @ [QSubscribe b subs]\<rparr>, Ret ())
    \<and> unsubscribeTask (baseCall tWrite tClose hServe) d a topics rc
        = (rc\<lparr>retryQueue := retryQueue rc @ [QUnsubscribe topics]\<rparr>, Ret ())"
proof -
  have "ValidateMessage (scli (fst (clis rc a))) m = Ret () \<or> (\<exists>e. ValidateMessage (scli (fst (clis rc a))) m = Fail e)"
    by (auto simp: ValidateMessage_def failE_def)
  then show ?thesis
    using baseClient.requests_wait [OF assms, of tWrite tClose hServe]
    by (auto simp: baseCall_def [of _ _ _ _ _ "BValidate m"])
qed

theorem requests_behind_retries_witness:
  "publishTask demoCall False 0 (demoMessage 2) (demoRetry [QPublish (demoMessage 1)])
     = ((demoRetry [QPublish (demoMessage 1)])\<lparr>retryQueue := [QPublish (demoMessage 1), QPublish (demoMessage 2)]\<rparr>, Ret ())"
proof -
  have "ValidateMessage (scli (fst (clis (demoRetry [QPublish (demoMessage 1)]) 0))) (demoMessage 2) = Ret ()"
    "QoS0 < mQoS (demoMessage 2)"
    by (simp_all add: newRetryClient_def ValidateMessage_def QoS_defs)
  then show ?thesis
    using requests_behind_retries [of "demoRetry [QPublish (demoMessage 1)]" logWrite "\<lambda>t. (t, None)" "\<lambda>h m s. s @ [m]"
        False 0 "demoMessage 2"]
    by simp
qed

text \<open>C14: When the broker answers, a retry task empties the queue. On a connected base client whose transport
  accepts every write, with a queue of retries of publishes at QoS 1 and 2, and a broker that acknowledges
  them one after the other (PUBACK, or PUBREC and PUBCOMP), the task returns; each message has been written
  exactly once, in the order of the queue, with the DUP flag (and its PUBREL at QoS 2), nothing else has
  been written, the queue is empty, no error was reported and one retry was counted for each entry.\<close>

theorem retry_drains:
  assumes "accepts_all tWrite tlog" "list_all retriable ms" "online (scli st)"
    and "retryQueue rc = map (QRetry \<circ> RetryPublish) ms" "clis rc a = (st, concat (map ackEvents ms) @ evs)"
  shows "\<exists>rc' st' pkts. runTask (baseCall tWrite tClose hServe) False a TRetry rc = (rc', Ret ())
    \<and> retryQueue rc' = [] \<and> clis rc' a = (st', evs) \<and> concat (map retryPackets ms) = map Ret pkts
    \<and> tlog (Transport (scli st')) = tlog (Transport (scli st)) @ pkts \<and> onErrors rc' = onErrors rc
    \<and> TotalRetries (rStats rc') = TotalRetries (rStats rc) + length ms"
proof -
  obtain rc' st' pkts where
    "retryLoop (baseCall tWrite tClose hServe) False a (retryQueue rc) (retryQueue rc) (rc\<lparr>retryQueue := []\<rparr>) = (rc', Ret ())"
    "retryQueue rc' = []" "clis rc' a = (st', evs)" "concat (map retryPackets ms) = map Ret pkts"
    "tlog (Transport (scli st')) = tlog (Transport (scli st)) @ pkts" "onErrors rc' = onErrors rc"
    "TotalRetries (rStats rc') = TotalRetries (rStats rc) + length ms"
    using retryLoop_acknowledged [OF assms(1-3), of "rc\<lparr>retryQueue := []\<rparr>" a evs tClose hServe "retryQueue rc" "[]"] assms(4,5)
    by auto
  then show ?thesis by (intro exI [of _ rc'] exI [of _ st'] exI [of _ pkts]) (simp add: Let_def)
qed

text \<open>A connected retry client, whose broker does what the schedule says.\<close>

abbreviation demoOnline :: "event list \<Rightarrow> (byte list list, unit, Message list) serveState \<times> event list" where
  "demoOnline evs \<equiv>
     (\<lparr>scli = demoClient\<lparr>serveLoops := 1, connClosed := ChanOpen\<rparr>, subBuffer = Map.empty, hstate = []\<rparr>, evs)"

lemma demo_retriable: "retriable (demoMessage 1)" "retriable (demoMessage 2)"
  using demo_publishable [of 1] demo_publishable [of 2] by (simp_all add: retriable_def QoS_defs)

theorem retry_drains_witness:
  "\<exists>rc' st' pkts. runTask demoCall False 0 TRetry
       ((demoRetry [QRetry (RetryPublish (demoMessage 1)), QRetry (RetryPublish (demoMessage 2))])
          \<lparr>clis := \<lambda>_. demoOnline (ackEvents (demoMessage 1) @ ackEvents (demoMessage 2))\<rparr>) = (rc', Ret ())
     \<and> retryQueue rc' = [] \<and> clis rc' 0 = (st', []) \<and> Transport (scli st') = pkts \<and> length pkts = 3"
proof -
  let ?ms = "[demoMessage 1, demoMessage 2]"
  let ?d = "demoOnline (ackEvents (demoMessage 1) @ ackEvents (demoMessage 2))"
  let ?rc = "(demoRetry [QRetry (RetryPublish (demoMessage 1)), QRetry (RetryPublish (demoMessage 2))])\<lparr>clis := \<lambda>_. ?d\<rparr>"
  have h: "list_all retriable ?ms" "online (scli (fst ?d))" "retryQueue ?rc = map (QRetry \<circ> RetryPublish) ?ms"
      "clis ?rc 0 = (fst ?d, concat (map ackEvents ?ms) @ [])" "Transport (scli (fst ?d)) = []"
    using demo_retriable by (simp_all add: online_def)
  have l: "map Ret pkts = concat (map retryPackets ?ms) \<Longrightarrow> length pkts = 3" for pkts :: "byte list list"
    by (drule arg_cong [of _ _ length]) (simp add: retryPackets_def QoS_defs)
  from retry_drains [OF demo_accepts h(1-4), of "\<lambda>t. (t, None)" "\<lambda>h m s. s @ [m]"]
  obtain rc' st' pkts where "runTask demoCall False 0 TRetry ?rc = (rc', Ret ())" "retryQueue rc' = []"
      "clis rc' 0 = (st', [])" "concat (map retryPackets ?ms) = map Ret pkts" "Transport (scli st') = pkts"
    unfolding h(5) by auto
  then show ?thesis using l [of pkts] by (intro exI [of _ rc'] exI [of _ st'] exI [of _ pkts]) simp
qed

text \<open>C15: When a retry fails again, the retry task queues the whole old queue once more, behind the new retry.
  On a connected base client whose transport accepts every write, let the broker acknowledge the retried
  publishes \<open>ms\<close> and the connection end while the next one, \<open>x\<close>, waits for its acknowledgement. Then the
  packets of \<open>ms\<close> and the message \<open>x\<close> have been written; the task returns; and the queue holds the new retry
  of \<open>x\<close> followed by all the old entries: the acknowledged requests \<open>ms\<close> will be sent again, and \<open>x\<close> twice.
  A QoS 2 message among \<open>ms\<close>, whose exchange is complete, is then delivered twice.\<close>

theorem retry_requeues_completed:
  assumes "accepts_all tWrite tlog" "list_all retriable ms" "retriable x"
    and "online (scli st)" "connClosed (scli st) = ChanOpen"
    and "retryQueue rc = map (QRetry \<circ> RetryPublish) ms @ QRetry (RetryPublish x) # rest"
    and "clis rc a = (st, concat (map ackEvents ms) @ EvReadErr err # EvClosed # evs)"
  shows "\<exists>rc' pkts b st'. runTask (baseCall tWrite tClose hServe) False a TRetry rc = (rc', Ret ())
    \<and> retryQueue rc' = QRetry (RetryPublish (x\<lparr>mDup := True\<rparr>)) # map (QRetry \<circ> RetryPublish) ms @ QRetry (RetryPublish x) # rest
    \<and> concat (map retryPackets ms) = map Ret pkts \<and> pktPublish_Pack (x\<lparr>mDup := True\<rparr>) = Ret b
    \<and> clis rc' a = (st', evs)
    \<and> (\<exists>t. tlog t = tlog (Transport (scli st)) @ pkts @ [b] \<and> Transport (scli st') = fst (tClose t))"
proof -
  let ?call = "baseCall tWrite tClose hServe"
  obtain rc1 st1 pkts where 1:
      "retryLoop ?call False a (retryQueue rc) (retryQueue rc) (rc\<lparr>retryQueue := []\<rparr>)
        = retryLoop ?call False a (retryQueue rc) (QRetry (RetryPublish x) # rest) rc1"
      "clis rc1 a = (st1, EvReadErr err # EvClosed # evs)" "sameLink (scli st) (scli st1)"
      "concat (map retryPackets ms) = map Ret pkts" "tlog (Transport (scli st1)) = tlog (Transport (scli st)) @ pkts"
      "retryQueue rc1 = []"
    using retryLoop_acknowledged [OF assms(1,2,4), of "rc\<lparr>retryQueue := []\<rparr>" a "EvReadErr err # EvClosed # evs" tClose hServe
        "retryQueue rc" "QRetry (RetryPublish x) # rest"] assms(6,7)
    by auto
  have l: "online (scli st1)" "connClosed (scli st1) = ChanOpen" using 1(3) assms(4,5) by (simp_all add: sameLink_def)
  obtain st2 b e t where 2: "?call None (st1, EvReadErr err # EvClosed # evs) (BRetry (RetryPublish x)) = ((st2, evs), Fail e)"
      "as_ErrorWithRetry (Some e) = Some (RetryPublish (x\<lparr>mDup := True\<rparr>))" "pktPublish_Pack (x\<lparr>mDup := True\<rparr>) = Ret b"
      "tlog t = tlog (Transport (scli st1)) @ [b]" "Transport (scli st2) = fst (tClose t)"
    using retry_disconnected [OF assms(1,3) l, of tClose hServe None err evs] by blast
  let ?rc = "(countRetry rc1)\<lparr>clis := (clis rc1)(a := (st2, evs))\<rparr>"
  have run: "runQueued ?call False a (QRetry (RetryPublish x)) (countRetry rc1) = (?rc, Ret (Some e))"
    using 1(2) 2(1) by (simp add: callBase_eq countRetry_def)
  let ?rc' = "?rc\<lparr>retryQueue := (retryQueue ?rc @ [QRetry (RetryPublish (x\<lparr>mDup := True\<rparr>))]) @ retryQueue rc\<rparr>"
  have "runTask ?call False a TRetry rc = (?rc', Ret ())"
    using 1(1) run 2(2) by (simp add: Let_def del: runQueued.simps)
  then show ?thesis
    using 1(4-6) 2(3-5) assms(6)
    by (intro exI [of _ ?rc'] exI [of _ pkts] exI [of _ b] exI [of _ st2] conjI exI [of _ t]) (simp_all add: countRetry_def)
qed

theorem retry_requeues_completed_witness:
  "\<exists>rc'. runTask demoCall False 0 TRetry
       ((demoRetry [QRetry (RetryPublish (demoMessage 2)), QRetry (RetryPublish (demoMessage 1)), QSubscribe False []])
          \<lparr>clis := \<lambda>_. demoOnline (ackEvents (demoMessage 2) @ [EvReadErr (Sentinel io_EOF), EvClosed])\<rparr>) = (rc', Ret ())
     \<and> retryQueue rc' = [QRetry (RetryPublish ((demoMessage 1)\<lparr>mDup := True\<rparr>)), QRetry (RetryPublish (demoMessage 2)),
         QRetry (RetryPublish (demoMessage 1)), QSubscribe False []]"
proof -
  let ?d = "demoOnline (ackEvents (demoMessage 2) @ [EvReadErr (Sentinel io_EOF), EvClosed])"
  let ?rc = "(demoRetry [QRetry (RetryPublish (demoMessage 2)), QRetry (RetryPublish (demoMessage 1)), QSubscribe False []])
      \<lparr>clis := \<lambda>_. ?d\<rparr>"
  have h: "list_all retriable [demoMessage 2]" "online (scli (fst ?d))" "connClosed (scli (fst ?d)) = ChanOpen"
      "retryQueue ?rc = map (QRetry \<circ> RetryPublish) [demoMessage 2] @ QRetry (RetryPublish (demoMessage 1)) # [QSubscribe False []]"
      "clis ?rc 0 = (fst ?d, concat (map ackEvents [demoMessage 2]) @ EvReadErr (Sentinel io_EOF) # EvClosed # [])"
    using demo_retriable by (simp_all add: online_def)
  from retry_requeues_completed [OF demo_accepts h(1) demo_retriable(1) h(2-5), of "\<lambda>t. (t, None)" "\<lambda>h m s. s @ [m]"]
  show ?thesis by fastforce
qed

end
