(* ===== verification/RetryTasks.thy ===== *)
theory RetryTasks
  imports RetryClient
begin

text \<open>
  The task goroutine of \<open>retryclient.go\<close>: the order in which tasks run, what a change of the base client
  and a failed connection do to it, and how \<open>Disconnect\<close> ends it. The definitions are those of theory
  \<open>RetryClient\<close>; this theory holds the lemmas and properties about sequences of their steps.
\<close>

subsection \<open>Number of tasks\<close>

text \<open>No request or retry changes the number of tasks done.\<close>

lemma afterCall_TotalTasks: "TotalTasks (rStats (fst (afterCall b x))) = TotalTasks (rStats (fst x))"
  by (cases x; cases "snd x")
    (auto simp: afterCall_def queueRetry_def onError_def Let_def split: option.splits)

lemma callBase_queue: "callBase call cx a op rc = (rc', r) \<Longrightarrow>
    taskQueue rc' = taskQueue rc \<and> rStats rc' = rStats rc \<and> stopped rc' = stopped rc \<and> pc rc' = pc rc"
  by (auto simp: callBase_eq)

lemma callBase_TotalTasks [simp]: "rStats (fst (callBase call cx a op rc)) = rStats rc"
  by (simp add: callBase_eq)

lemma publishNow_TotalTasks [simp]: "TotalTasks (rStats (fst (publishNow call d a m rc))) = TotalTasks (rStats rc)"
  by (simp add: publishNow_def afterCall_TotalTasks)

lemma subscribeNow_TotalTasks [simp]:
  "TotalTasks (rStats (fst (subscribeNow call d b a subs rc))) = TotalTasks (rStats rc)"
  by (simp add: subscribeNow_def afterCall_TotalTasks Let_def)

lemma unsubscribeNow_TotalTasks [simp]:
  "TotalTasks (rStats (fst (unsubscribeNow call d a topics rc))) = TotalTasks (rStats rc)"
  by (cases "unsubscriptions_applyTo topics (subEstablished rc)")
    (simp_all add: unsubscribeNow_def afterCall_TotalTasks Let_def)

lemma publishTask_TotalTasks: "TotalTasks (rStats (fst (publishTask call d a m rc))) = TotalTasks (rStats rc)"
proof -
  obtain rc1 r where v: "callBase call None a (BValidate m) rc = (rc1, r)" by (cases "callBase call None a (BValidate m) rc")
  then have "rStats rc1 = rStats rc" using callBase_queue by blast
  then show ?thesis using v by (cases r) (simp_all add: publishTask_def)
qed

lemma subscribeTask_TotalTasks [simp]:
  "TotalTasks (rStats (fst (subscribeTask call d b a subs rc))) = TotalTasks (rStats rc)"
  by (simp add: subscribeTask_def)

lemma resubscribeLoop_TotalTasks:
  "TotalTasks (rStats (fst (resubscribeLoop call d a subs rc))) = TotalTasks (rStats rc)"
proof (induction subs arbitrary: rc)
  case (Cons sub subs)
  obtain rc1 r where s: "subscribeTask call d True a [sub] rc = (rc1, r)" by (cases "subscribeTask call d True a [sub] rc")
  then have "TotalTasks (rStats rc1) = TotalTasks (rStats rc)" using subscribeTask_TotalTasks [of call d True a "[sub]" rc] by simp
  then show ?case using Cons.IH [of rc1] s by (cases r) auto
qed simp

lemma runQueued_TotalTasks: "TotalTasks (rStats (fst (runQueued call d a q rc))) = TotalTasks (rStats rc)"
proof (cases q)
  case (QRetry r)
  then show ?thesis by (auto split: prod.splits outcome.splits dest: callBase_queue)
next
  case (QPublish m)
  then show ?thesis using publishNow_TotalTasks [of call d a m rc] by (auto split: prod.splits simp del: publishNow_TotalTasks)
next
  case (QSubscribe b subs)
  then show ?thesis using subscribeNow_TotalTasks [of call d b a subs rc]
    by (auto split: prod.splits simp del: subscribeNow_TotalTasks)
next
  case (QUnsubscribe topics)
  then show ?thesis using unsubscribeNow_TotalTasks [of call d a topics rc]
    by (auto split: prod.splits simp del: unsubscribeNow_TotalTasks)
qed

lemma retryLoop_TotalTasks: "TotalTasks (rStats (fst (retryLoop call d a old rest rc))) = TotalTasks (rStats rc)"
proof (induction rest arbitrary: rc)
  case (Cons q rest)
  obtain rc1 r where s: "runQueued call d a q (countRetry rc) = (rc1, r)" by (cases "runQueued call d a q (countRetry rc)")
  then have "TotalTasks (rStats rc1) = TotalTasks (rStats rc)"
    using runQueued_TotalTasks [of call d a q "countRetry rc"] by (simp add: countRetry_def)
  then show ?case using Cons.IH [of rc1] s by (cases r) (auto split: option.splits)
qed simp

lemma runTask_TotalTasks: "TotalTasks (rStats (fst (runTask call d a t rc))) = TotalTasks (rStats rc)"
proof (cases t)
  case TDisconnect
  then show ?thesis by (auto simp: onError_def split: prod.splits outcome.splits dest: callBase_queue)
qed (simp_all add: publishTask_TotalTasks unsubscribeTask_def resubscribeLoop_TotalTasks retryLoop_TotalTasks Let_def)

lemma finishTask_TotalTasks:
  assumes "finishTask call a t rc = (rc', Ret ())"
  shows "TotalTasks (rStats rc') = TotalTasks (rStats rc)"
proof -
  obtain rc2 r where t: "runTask call False a t rc = (rc2, r)" by (cases "runTask call False a t rc")
  have "TotalTasks (rStats rc2) = TotalTasks (rStats rc)" using runTask_TotalTasks [of call False a t rc] t by simp
  then show ?thesis using assms t by (cases r) (auto simp: finishTask_def callBase_eq split: if_splits)
qed

subsection \<open>Runs with their accepted and executed tasks\<close>

text \<open>A step with what it means for the tasks: a method accepted a task, by its result to the caller; the
  goroutine ran a task; or neither.\<close>

datatype taskEvent = Accepted task | Ran task | Silent

definition acceptedIf :: "task \<Rightarrow> 'a result \<Rightarrow> taskEvent" where
  "acceptedIf t r = (if is_Ret r then Accepted t else Silent)"

text \<open>The goroutine ran \<open>t\<close>: the state after the step has what the task left in it.\<close>

definition ranBy :: "('c, 'h) baseMethods \<Rightarrow> nat \<Rightarrow> task \<Rightarrow> ('c, 'h) RetryClient \<Rightarrow> ('c, 'h) RetryClient \<Rightarrow> bool" where
  "ranBy call a t rc rc' \<longleftrightarrow> (\<exists>rc2. runTask call False a t rc = (rc2, Ret ())
     \<and> retryQueue rc' = retryQueue rc2 \<and> subEstablished rc' = subEstablished rc2
     \<and> onErrors rc' = onErrors rc2 \<and> rStats rc' = rStats rc2)"

inductive rcEvent ::
  "('c, 'h) baseMethods \<Rightarrow> taskEvent \<Rightarrow> ('c, 'h) RetryClient \<Rightarrow> ('c, 'h) RetryClient \<Rightarrow> bool" for call where
  ev_handle: "rcEvent call Silent rc (RetryClient_Handle call rc h)"
| ev_publish: "RetryClient_Publish call cx rc m = (rc', r) \<Longrightarrow> \<not> is_Panic r \<Longrightarrow>
    rcEvent call (if DirectlyPublishQoS0 rc \<and> mQoS m = QoS0 then Silent else acceptedIf (TPublish m) r) rc rc'"
| ev_subscribe: "RetryClient_Subscribe rc subs = (rc', r) \<Longrightarrow> \<not> is_Panic r \<Longrightarrow> rcEvent call (acceptedIf (TSubscribe subs) r) rc rc'"
| ev_unsubscribe: "RetryClient_Unsubscribe rc topics = (rc', r) \<Longrightarrow> \<not> is_Panic r \<Longrightarrow>
    rcEvent call (acceptedIf (TUnsubscribe topics) r) rc rc'"
| ev_disconnect: "RetryClient_Disconnect rc = (rc', r) \<Longrightarrow> \<not> is_Panic r \<Longrightarrow> rcEvent call (acceptedIf TDisconnect r) rc rc'"
| ev_ping: "RetryClient_Ping call cx rc = (rc', r) \<Longrightarrow> \<not> is_Panic r \<Longrightarrow> rcEvent call Silent rc rc'"
| ev_set: "RetryClient_SetClient rc a = (rc', r) \<Longrightarrow> \<not> is_Panic r \<Longrightarrow> rcEvent call Silent rc rc'"
| ev_connect: "RetryClient_Connect call cx rnd rc i opts = (rc', r) \<Longrightarrow> \<not> is_Panic r \<Longrightarrow> rcEvent call Silent rc rc'"
| ev_resubscribe: "RetryClient_Resubscribe rc = (rc', r) \<Longrightarrow> \<not> is_Panic r \<Longrightarrow>
    rcEvent call (if stopped rc then Silent else Accepted TResubscribe) rc rc'"
| ev_retry: "RetryClient_Retry rc = (rc', r) \<Longrightarrow> \<not> is_Panic r \<Longrightarrow>
    rcEvent call (if stopped rc then Silent else Accepted TRetry) rc rc'"
| ev_task: "taskStep call sel rc = Some (rc', Ret ()) \<Longrightarrow> (\<And>a t. pc rc \<noteq> GoRunning a t) \<Longrightarrow> rcEvent call Silent rc rc'"
| ev_ran: "taskStep call sel rc = Some (rc', Ret ()) \<Longrightarrow> pc rc = GoRunning a t \<Longrightarrow> ranBy call a t rc rc' \<Longrightarrow>
    rcEvent call (Ran t) rc rc'"

inductive rcRun ::
  "('c, 'h) baseMethods \<Rightarrow> ('c, 'h) RetryClient \<Rightarrow> taskEvent list \<Rightarrow> ('c, 'h) RetryClient \<Rightarrow> bool" for call rc where
  run_none: "rcRun call rc [] rc"
| run_step: "rcRun call rc evs rc1 \<Longrightarrow> rcEvent call ev rc1 rc2 \<Longrightarrow> rcRun call rc (evs @ [ev]) rc2"

fun accepted :: "taskEvent list \<Rightarrow> task list" where
  "accepted [] = []"
| "accepted (Accepted t # evs) = t # accepted evs"
| "accepted (ev # evs) = accepted evs"

fun executed :: "taskEvent list \<Rightarrow> task list" where
  "executed [] = []"
| "executed (Ran t # evs) = t # executed evs"
| "executed (ev # evs) = executed evs"

lemma taskEvents_append [simp]:
  "accepted (xs @ ys) = accepted xs @ accepted ys" "executed (xs @ ys) = executed xs @ executed ys"
proof -
  show "accepted (xs @ ys) = accepted xs @ accepted ys" by (induction xs rule: accepted.induct) simp_all
  show "executed (xs @ ys) = executed xs @ executed ys" by (induction xs rule: executed.induct) simp_all
qed

definition running :: "('c, 'h) RetryClient \<Rightarrow> task list" where
  "running rc = (case pc rc of GoRunning a t \<Rightarrow> [t] | _ \<Rightarrow> [])"

lemma finishTask_ranBy: "finishTask call a t rc = (rc', Ret ()) \<Longrightarrow> ranBy call a t rc rc'"
  by (auto simp: finishTask_def ranBy_def callBase_eq split: prod.splits outcome.splits if_splits)

text \<open>Every step is a step with an event, and the other way round.\<close>

lemma rcStep_event: "rcStep call rc rc' \<Longrightarrow> \<exists>ev. rcEvent call ev rc rc'"
proof (induction rule: rcStep.induct)
  case (rc_task sel rc rc')
  show ?case
  proof (cases "\<exists>a t. pc rc = GoRunning a t")
    case True
    then obtain a t where t: "pc rc = GoRunning a t" by blast
    with rc_task have "ranBy call a t rc rc'" by (auto simp: taskStep_def intro: finishTask_ranBy)
    then show ?thesis using ev_ran rc_task t by blast
  next
    case False
    then show ?thesis using ev_task rc_task by blast
  qed
qed (blast intro: rcEvent.intros)+

lemma rcEvent_step: "rcEvent call ev rc rc' \<Longrightarrow> rcStep call rc rc'"
  by (induction rule: rcEvent.induct) (blast intro: rcStep.intros)+

lemma rcSteps_run: "(rcStep call)\<^sup>*\<^sup>* rc rc' \<Longrightarrow> \<exists>evs. rcRun call rc evs rc'"
  by (induction rule: rtranclp_induct) (blast intro: run_none run_step dest: rcStep_event)+

text \<open>What an event does to the tasks: those that are running or queued, and those accepted, are those that
  ran and those that are running or queued afterwards, in this order. \<open>TotalTasks\<close> counts the tasks that
  were started.\<close>

definition inOrder :: "('c, 'h) RetryClient \<Rightarrow> taskEvent list \<Rightarrow> ('c, 'h) RetryClient \<Rightarrow> bool" where
  "inOrder rc evs rc' \<longleftrightarrow>
     running rc @ taskQueue rc @ accepted evs = executed evs @ running rc' @ taskQueue rc'
     \<and> TotalTasks (rStats rc') + length (running rc) = TotalTasks (rStats rc) + length (executed evs) + length (running rc')"

lemma inOrder_trans: "inOrder rc xs rc1 \<Longrightarrow> inOrder rc1 ys rc2 \<Longrightarrow> inOrder rc (xs @ ys) rc2"
proof -
  assume a: "inOrder rc xs rc1" "inOrder rc1 ys rc2"
  have "running rc @ taskQueue rc @ accepted (xs @ ys) = (executed xs @ running rc1 @ taskQueue rc1) @ accepted ys"
    using a(1) by (simp add: inOrder_def)
  also have "\<dots> = executed (xs @ ys) @ running rc2 @ taskQueue rc2" using a(2) by (simp add: inOrder_def)
  finally show ?thesis using a by (simp add: inOrder_def)
qed

lemma inOrder_same:
  "taskQueue rc' = taskQueue rc \<Longrightarrow> pc rc' = pc rc \<Longrightarrow> TotalTasks (rStats rc') = TotalTasks (rStats rc) \<Longrightarrow> inOrder rc [Silent] rc'"
  by (simp add: inOrder_def running_def)

lemma inOrder_push:
  assumes "pushTask rc t = (rc', r)"
  shows "if stopped rc then rc' = rc \<and> r = Fail (Sentinel ErrClosedClient) else inOrder rc [Accepted t] rc' \<and> (r = Ret () \<or> is_Panic r)"
  using assms
  by (auto simp: pushTask_def Let_def inOrder_def running_def split: if_splits taskChan.splits)

text \<open>A method that pushes a task and passes its error on.\<close>

lemma inOrder_pushed:
  assumes "pushTask rc t = (rc', r)" "\<not> is_Panic (wrapResult s r)"
  shows "inOrder rc [acceptedIf t (wrapResult s r)] rc'"
  using inOrder_push [OF assms(1)] assms(2)
  by (cases r) (auto simp: acceptedIf_def wrapResult_def inOrder_def split: if_splits)

lemma inOrder_publish:
  assumes "RetryClient_Publish call cx rc m = (rc', r)" "\<not> is_Panic r"
  shows "inOrder rc [if DirectlyPublishQoS0 rc \<and> mQoS m = QoS0 then Silent else acceptedIf (TPublish m) r] rc'"
proof (cases "DirectlyPublishQoS0 rc \<and> mQoS m = QoS0")
  case True
  then show ?thesis
    using assms by (auto simp: RetryClient_Publish_def callBase_eq nilDeref_def intro: inOrder_same split: option.splits)
next
  case False
  obtain rc1 x where v: "(case rCli rc of None \<Rightarrow> (rc, Ret RNone) | Some a \<Rightarrow> callBase call None a (BValidate m) rc) = (rc1, x)"
    by (metis surj_pair)
  then have rc1: "taskQueue rc1 = taskQueue rc" "pc rc1 = pc rc" "rStats rc1 = rStats rc"
    by (auto simp: callBase_eq split: option.splits)
  show ?thesis
  proof (cases x)
    case (Ret y)
    obtain rc2 z where p: "pushTask rc1 (TPublish m) = (rc2, z)" by (cases "pushTask rc1 (TPublish m)")
    then have r: "rc' = rc2" "r = wrapResult ''retryclient: publishing'' z"
      using assms(1) False v Ret by (auto simp: RetryClient_Publish_def split: if_splits)
    moreover from this have "inOrder rc1 [acceptedIf (TPublish m) r] rc2" using inOrder_pushed [OF p] assms(2) by metis
    moreover have "\<not> (DirectlyPublishQoS0 rc \<and> mQoS m = QoS0)" by (rule False)
    ultimately show ?thesis using rc1 by (simp only: if_False inOrder_def running_def)
  qed (use assms False v rc1 in \<open>auto simp: RetryClient_Publish_def inOrder_def running_def acceptedIf_def split: if_splits\<close>)
qed

lemma inOrder_disconnect:
  assumes "RetryClient_Disconnect rc = (rc', r)" "\<not> is_Panic r"
  shows "inOrder rc [acceptedIf TDisconnect r] rc'"
proof -
  obtain rc1 x where p: "pushTask rc TDisconnect = (rc1, x)" by (cases "pushTask rc TDisconnect")
  have "\<not> is_Panic x" using assms p by (cases x) (auto simp: RetryClient_Disconnect_def)
  then have "taskQueue rc' = taskQueue rc1 \<and> rStats rc' = rStats rc1 \<and> pc rc' = pc rc1
      \<and> r = wrapResult ''retryclient: disconnecting'' x"
    using assms p by (cases x) (auto simp: RetryClient_Disconnect_def closeTask_def split: taskChan.splits)
  moreover from this have "inOrder rc [acceptedIf TDisconnect r] rc1" using inOrder_pushed [OF p] assms(2) by metis
  ultimately show ?thesis by (simp add: inOrder_def running_def)
qed

lemma inOrder_set:
  assumes "RetryClient_SetClient rc a = (rc', r)" "rcInv rc"
  shows "inOrder rc [Silent] rc'"
proof -
  have "running rc' = running rc" "taskQueue rc' = taskQueue rc" "TotalTasks (rStats rc') = TotalTasks (rStats rc)"
    using assms
    by (auto simp: RetryClient_SetClient_def switchClient_def running_def rcInv_def Let_def split: if_splits)
  then show ?thesis by (simp add: inOrder_def)
qed

lemma inOrder_connect:
  assumes "RetryClient_Connect call cx rnd rc i opts = (rc', r)"
  shows "inOrder rc [Silent] rc'"
  using assms
  by (auto simp: RetryClient_Connect_def callBase_eq Let_def intro!: inOrder_same split: option.splits prod.splits outcome.splits)

lemma inOrder_task:
  assumes "taskStep call sel rc = Some (rc', Ret ())"
  shows "inOrder rc [case pc rc of GoRunning a t \<Rightarrow> Ran t | _ \<Rightarrow> Silent] rc'"
proof (cases "\<exists>a t. pc rc = GoRunning a t")
  case True
  then obtain a t where t: "pc rc = GoRunning a t" by blast
  then have f: "finishTask call a t rc = (rc', Ret ())" using assms by (simp add: taskStep_def)
  have "pc rc' \<in> {GoConnected, GoUnconnected}" "taskQueue rc' = taskQueue rc"
    using finishTask_control [OF f] by (auto simp: sameControl_def)
  then show ?thesis using t finishTask_TotalTasks [OF f] by (auto simp: inOrder_def running_def)
next
  case False
  show ?thesis
  proof (cases "\<exists>a. pc rc = GoConnected \<and> taskQueue rc \<noteq> [] \<and> rc' = takeTask a rc")
    case True
    then show ?thesis by (cases "taskQueue rc") (auto simp: inOrder_def running_def takeTask_def)
  next
    case no: False
    with assms False have "taskQueue rc' = taskQueue rc" "rStats rc' = rStats rc" "running rc' = []" "running rc = []"
      by (auto simp: taskStep_def running_def split: goPC.splits taskSel.splits option.splits prod.splits list.splits
          bool.splits if_splits taskChan.splits)
    then show ?thesis using False by (auto simp: inOrder_def split: goPC.splits)
  qed
qed

lemma rcEvent_inOrder: "rcEvent call ev rc rc' \<Longrightarrow> rcInv rc \<Longrightarrow> inOrder rc [ev] rc'"
proof (induction rule: rcEvent.induct)
  case (ev_handle rc h)
  then show ?case
    by (auto simp: RetryClient_Handle_def Let_def callBase_eq intro!: inOrder_same split: option.splits)
next
  case (ev_subscribe rc subs rc' r)
  then show ?case by (auto simp: RetryClient_Subscribe_def intro: inOrder_pushed split: prod.splits)
next
  case (ev_unsubscribe rc topics rc' r)
  then show ?case by (auto simp: RetryClient_Unsubscribe_def intro: inOrder_pushed split: prod.splits)
next
  case (ev_ping cx rc rc' r)
  then show ?case
    by (auto simp: RetryClient_Ping_def callBase_eq intro!: inOrder_same split: option.splits prod.splits)
next
  case (ev_resubscribe rc rc' r)
  obtain rc1 x where p: "pushTask rc TResubscribe = (rc1, x)" by (cases "pushTask rc TResubscribe")
  then show ?case
    using ev_resubscribe inOrder_push [OF p] by (cases x) (auto simp: RetryClient_Resubscribe_def inOrder_same split: if_splits)
next
  case (ev_retry rc rc' r)
  obtain rc1 x where p: "pushTask rc TRetry = (rc1, x)" by (cases "pushTask rc TRetry")
  then show ?case
    using ev_retry inOrder_push [OF p] by (cases x) (auto simp: RetryClient_Retry_def inOrder_same split: if_splits)
next
  case (ev_task sel rc rc')
  have "(case pc rc of GoRunning a t \<Rightarrow> Ran t | _ \<Rightarrow> Silent) = Silent"
  proof (cases "pc rc")
    case (GoRunning a t)
    then show ?thesis using ev_task.hyps(2) by blast
  qed simp_all
  then show ?case using inOrder_task [OF ev_task.hyps(1)] by simp
next
  case (ev_ran sel rc rc' a t)
  then show ?case using inOrder_task [OF ev_ran.hyps(1)] by simp
qed (blast intro: inOrder_publish inOrder_disconnect inOrder_set inOrder_connect)+

lemma rcRun_inOrder:
  assumes "rcRun call rc evs rc'" "rcInv rc"
  shows "inOrder rc evs rc' \<and> rcInv rc'"
  using assms
proof (induction rule: rcRun.induct)
  case run_none
  then show ?case by (simp add: inOrder_def)
next
  case (run_step evs rc1 ev rc2)
  then show ?case using inOrder_trans rcEvent_inOrder rcStep_inv rcEvent_step by blast
qed

subsection \<open>The end of the goroutine\<close>

lemma two_steps: "R x y \<Longrightarrow> R y z \<Longrightarrow> R\<^sup>*\<^sup>* x z"
  by (meson converse_rtranclp_into_rtranclp r_into_rtranclp)

text \<open>Running the tasks \<open>ts\<close> of the queue one after the other; and that each of them, run in the state that the
  ones before it have left, returns and leaves the connection up (it ends without an error that carries a
  retry).\<close>

primrec runTasks :: "('c, 'h) baseMethods \<Rightarrow> nat \<Rightarrow> task list \<Rightarrow> ('c, 'h) RetryClient \<Rightarrow> ('c, 'h) RetryClient" where
  "runTasks call a [] rc = rc"
| "runTasks call a (t # ts) rc = runTasks call a ts (fst (finishTask call a t (takeTask a rc)))"

primrec tasksReturn :: "('c, 'h) baseMethods \<Rightarrow> nat \<Rightarrow> task list \<Rightarrow> ('c, 'h) RetryClient \<Rightarrow> bool" where
  "tasksReturn call a [] rc = True"
| "tasksReturn call a (t # ts) rc =
     (case finishTask call a t (takeTask a rc) of
        (rc1, r) \<Rightarrow> r = Ret () \<and> pc rc1 = GoConnected \<and> tasksReturn call a ts rc1)"

text \<open>A closed task channel: the goroutine does the remaining tasks and ends.\<close>

abbreviation goStep :: "('c, 'h) baseMethods \<Rightarrow> ('c, 'h) RetryClient \<Rightarrow> ('c, 'h) RetryClient \<Rightarrow> bool" where
  "goStep call x y \<equiv> \<exists>sel. taskStep call sel x = Some (y, Ret ())"

lemma exits_on_closed:
  assumes "pc x = GoConnected" "rCli x = Some a" "chConnSwitch x = Some s" "\<not> switchClosed x s" "taskQueue x = []"
    "chTask x = TaskClosed False"
  shows "(goStep call)\<^sup>*\<^sup>* x (x\<lparr>pc := GoExit\<rparr>)"
proof -
  have "goStep call x (x\<lparr>pc := GoIdle s\<rparr>)" using assms by (simp add: taskStep_def)
  moreover have "goStep call (x\<lparr>pc := GoIdle s\<rparr>) (x\<lparr>pc := GoExit\<rparr>)"
    using assms by (auto simp: taskStep_def intro!: exI [of _ SelTask])
  ultimately show ?thesis by (rule two_steps [where R = "goStep call"])
qed

lemma exits_when_idle:
  assumes "rcInv x" "pc x = GoConnected" "taskQueue x = []" "chTask x = TaskClosed b"
  shows "(goStep call)\<^sup>*\<^sup>* x (x\<lparr>chTask := TaskClosed False, pc := GoExit\<rparr>)"
proof -
  obtain a s where as: "rCli x = Some a" "chConnSwitch x = Some s" "\<not> switchClosed x s"
    using assms(1,2) by (auto simp: rcInv_def)
  let ?w = "x\<lparr>chTask := TaskClosed False\<rparr>"
  have w: "(goStep call)\<^sup>*\<^sup>* ?w (?w\<lparr>pc := GoExit\<rparr>)" by (rule exits_on_closed) (use as assms in simp_all)
  have "(goStep call)\<^sup>*\<^sup>* x ?w"
  proof (cases b)
    case True
    have "goStep call x (x\<lparr>pc := GoIdle s\<rparr>)" using as assms by (simp add: taskStep_def)
    moreover have "goStep call (x\<lparr>pc := GoIdle s\<rparr>) ?w"
      using as assms True by (auto simp: taskStep_def intro!: exI [of _ SelTask])
    ultimately show ?thesis by (rule two_steps [where R = "goStep call"])
  next
    case False
    then have "?w = x" using assms(4) by (cases x) simp
    then show ?thesis by simp
  qed
  then show ?thesis using w by (rule rtranclp_trans)
qed

lemma drains_and_exits:
  assumes "rcInv rc" "pc rc = GoConnected" "rCli rc = Some a" "chTask rc = TaskClosed b"
    "tasksReturn call a (taskQueue rc) rc"
  shows "(goStep call)\<^sup>*\<^sup>* rc ((runTasks call a (taskQueue rc) rc)\<lparr>chTask := TaskClosed False, pc := GoExit\<rparr>)
    \<and> taskQueue (runTasks call a (taskQueue rc) rc) = []
    \<and> TotalTasks (rStats (runTasks call a (taskQueue rc) rc)) = TotalTasks (rStats rc) + length (taskQueue rc)"
  using assms
proof (induction "taskQueue rc" arbitrary: rc)
  case Nil
  from exits_when_idle [OF Nil.prems(1,2) Nil.hyps [symmetric] Nil.prems(4), of call] Nil.hyps
  show ?case by (simp flip: Nil.hyps)
next
  case (Cons t ts)
  obtain s where s: "chConnSwitch rc = Some s" "\<not> switchClosed rc s"
    using Cons.prems(1,2) by (auto simp: rcInv_def)
  let ?rc = "takeTask a rc"
  obtain rc1 where f: "finishTask call a t ?rc = (rc1, Ret ())" "pc rc1 = GoConnected" "tasksReturn call a ts rc1"
    using Cons.prems(5) by (auto simp flip: Cons.hyps(2) split: prod.splits)
  have q: "taskQueue rc = t # ts" by (rule Cons.hyps(2) [symmetric])
  have steps: "taskStep call SelTask rc = Some (?rc, Ret ())" "taskStep call SelTask ?rc = Some (rc1, Ret ())"
    using f(1) s Cons.prems(2,3) q by (simp_all add: taskStep_def takeTask_def)
  have inv: "rcInv rc1" by (rule rcInv_task [OF rcInv_task [OF Cons.prems(1) steps(1)] steps(2)])
  have c: "sameControl (?rc\<lparr>pc := pc rc1\<rparr>) rc1" using finishTask_control [OF f(1)] by simp
  then have q1: "taskQueue rc1 = ts" "chTask rc1 = TaskClosed b" "rCli rc1 = Some a"
    using q Cons.prems(3,4) by (simp_all add: sameControl_def takeTask_def)
  have "TotalTasks (rStats rc1) = TotalTasks (rStats rc) + 1"
    using finishTask_TotalTasks [OF f(1)] by (simp add: takeTask_def)
  moreover note Cons.hyps(1) [OF q1(1) [symmetric] inv f(2) q1(3,2)]
  moreover have "runTasks call a (taskQueue rc) rc = runTasks call a (taskQueue rc1) rc1" using f(1) q q1(1) by simp
  moreover have "(goStep call)\<^sup>*\<^sup>* rc rc1" using steps by (blast intro: two_steps [where R = "goStep call"])
  ultimately show ?case using f(3) q q1(1) by (auto intro: rtranclp_trans)
qed

subsection \<open>Properties\<close>

text \<open>C10: tasks run in the order in which they were accepted, and each once. A run of the retry client from
  its creation, by method calls of any goroutine and steps of the task goroutine in any order (calls also
  between the start and the end of a task), is a sequence of events: a method that returned without an
  error accepted its task, and the goroutine ran a task. In every such run the accepted tasks are, in this
  order, those that ran to their end, the one that is running, and those in the queue; and \<open>TotalTasks\<close>
  counts those that were started.\<close>

theorem tasks_in_order:
  fixes rc :: "('c, 'h) RetryClient"
  assumes "(rcStep call)\<^sup>*\<^sup>* (newRetryClient cs) rc"
  shows "(\<exists>evs. rcRun call (newRetryClient cs) evs rc)
    \<and> (\<forall>evs. rcRun call (newRetryClient cs) evs rc \<longrightarrow>
          accepted evs = executed evs @ running rc @ taskQueue rc
          \<and> TotalTasks (rStats rc) = length (executed evs @ running rc))"
proof -
  let ?n = "newRetryClient cs :: ('c, 'h) RetryClient"
  have new: "rcInv ?n" "running ?n = []" "taskQueue ?n = []" "TotalTasks (rStats ?n) = 0"
    by (simp_all add: newRetryClient_def rcInv_def running_def zeroRetryStats_def)
  have "accepted evs = executed evs @ running rc @ taskQueue rc \<and> TotalTasks (rStats rc) = length (executed evs @ running rc)"
    if "rcRun call (newRetryClient cs) evs rc" for evs
    using rcRun_inOrder [OF that new(1)] new(2-) by (simp add: inOrder_def)
  then show ?thesis using rcSteps_run [OF assms] by blast
qed

text \<open>A retry client with the connection up, and with tasks and a task channel as given.\<close>

abbreviation demoUp :: "(nat \<Rightarrow> 'c) \<Rightarrow> task list \<Rightarrow> taskChan \<Rightarrow> ('c, 'h) RetryClient" where
  "demoUp cs ts ch \<equiv> (newRetryClient cs)\<lparr>rCli := Some 0, chConnectErr := Some 0, chConnSwitch := Some 1,
     errChans := (\<lambda>_. ([], False))(0 := ([], True)), nextCh := 2, chTask := ch, pc := GoConnected,
     stopped := (case ch of TaskClosed b \<Rightarrow> True | _ \<Rightarrow> False), taskQueue := ts\<rparr>"

abbreviation okCall :: "ctx \<Rightarrow> unit \<Rightarrow> unit baseOp \<Rightarrow> unit \<times> reply result" where
  "okCall \<equiv> \<lambda>cx c op. (c, Ret RNone)"

text \<open>A run: a client is set and connected, the goroutine sees it, and \<open>Disconnect\<close> is called.\<close>

abbreviation demoSet :: "(unit, unit) RetryClient" where
  "demoSet \<equiv> fst (RetryClient_SetClient (newRetryClient (\<lambda>_. ())) 0)"

abbreviation demoConnect :: "(unit, unit) RetryClient" where
  "demoConnect \<equiv> fst (RetryClient_Connect okCall None 0 demoSet [] [])"

abbreviation demoRun :: "(unit, unit) RetryClient" where
  "demoRun \<equiv> fst (the (taskStep okCall SelErr (fst (the (taskStep okCall SelErr demoConnect)))))"

abbreviation demoStopped :: "(unit, unit) RetryClient" where
  "demoStopped \<equiv> fst (RetryClient_Disconnect demoRun)"

lemmas demo_steps = RetryClient_SetClient_def switchClient_def newRetryClient_def RetryClient_Connect_def callBase_def
  closeErr_def taskStep_def RetryClient_Disconnect_def pushTask_def closeTask_def wrapResult_def Let_def

lemma rcReachable_new: "rcReachable call (newRetryClient cs)"
  unfolding rcReachable_def by blast

lemma rcReachable_step: "rcReachable call rc \<Longrightarrow> rcStep call rc rc' \<Longrightarrow> rcReachable call rc'"
  unfolding rcReachable_def by (blast intro: rtranclp.rtrancl_into_rtrancl)

lemma taskStep_running:
  "pc x = GoRunning a t \<Longrightarrow> finishTask call a t x = (y, r) \<Longrightarrow> taskStep call sel x = Some (y, r)"
  by (simp add: taskStep_def)

lemma demo_run: "rcRun okCall (newRetryClient (\<lambda>_. ())) [Silent, Silent, Silent, Silent] demoRun"
proof -
  have e1: "rcEvent okCall Silent (newRetryClient (\<lambda>_. ())) demoSet"
    by (rule ev_set [of _ 0 _ "Ret ()"]) (simp_all add: demo_steps)
  have e2: "rcEvent okCall Silent demoSet demoConnect"
    by (rule ev_connect [of _ None 0 _ "[]" "[]" _ "Ret RNone"]) (simp_all add: demo_steps)
  have e3: "rcEvent okCall Silent demoConnect (fst (the (taskStep okCall SelErr demoConnect)))"
    by (rule ev_task [of _ SelErr]) (simp_all add: demo_steps)
  have e4: "rcEvent okCall Silent (fst (the (taskStep okCall SelErr demoConnect))) demoRun"
    by (rule ev_task [of _ SelErr]) (simp_all add: demo_steps)
  from run_step [OF run_step [OF run_step [OF run_step [OF run_none e1] e2] e3] e4]
  show ?thesis by (simp only: append.simps)
qed

lemma rcRun_steps: "rcRun call rc evs rc' \<Longrightarrow> (rcStep call)\<^sup>*\<^sup>* rc rc'"
  by (induction rule: rcRun.induct) (auto intro: rtranclp.rtrancl_into_rtrancl dest: rcEvent_step)

lemma demo_reachable: "rcReachable okCall demoStopped"
proof -
  have "rcReachable okCall demoRun" using rcRun_steps [OF demo_run] unfolding rcReachable_def by blast
  moreover have "rcStep okCall demoRun demoStopped"
    by (rule rc_disconnect [of _ _ "Ret ()"]) (simp_all add: demo_steps)
  ultimately show ?thesis by (rule rcReachable_step)
qed

text \<open>The run goes on: two tasks are queued, the goroutine takes the first and runs it.\<close>

abbreviation demoQueued :: "(unit, unit) RetryClient" where
  "demoQueued \<equiv> fst (RetryClient_Retry (fst (RetryClient_Subscribe demoRun [])))"

abbreviation demoRan :: "(unit, unit) RetryClient" where
  "demoRan \<equiv> fst (finishTask okCall 0 (TSubscribe []) (takeTask 0 demoQueued))"

lemma demo_ran: "rcRun okCall (newRetryClient (\<lambda>_. ()))
   [Silent, Silent, Silent, Silent, Accepted (TSubscribe []), Accepted TRetry, Silent, Ran (TSubscribe [])] demoRan"
proof -
  let ?s = "fst (RetryClient_Subscribe demoRun [])"
  have "acceptedIf (TSubscribe []) (Ret () :: unit result) = Accepted (TSubscribe [])" "\<not> stopped ?s"
    by (simp_all add: acceptedIf_def demo_steps RetryClient_Subscribe_def)
  moreover have "rcEvent okCall (acceptedIf (TSubscribe []) (Ret () :: unit result)) demoRun ?s"
    by (rule ev_subscribe) (simp_all add: demo_steps RetryClient_Subscribe_def)
  moreover have "rcEvent okCall (if stopped ?s then Silent else Accepted TRetry) ?s demoQueued"
    by (rule ev_retry [of _ _ "Ret ()"]) (simp_all add: demo_steps RetryClient_Subscribe_def RetryClient_Retry_def)
  ultimately have e: "rcEvent okCall (Accepted (TSubscribe [])) demoRun ?s" "rcEvent okCall (Accepted TRetry) ?s demoQueued"
    by (simp_all only: if_False)
  have e3: "rcEvent okCall Silent demoQueued (takeTask 0 demoQueued)"
    by (rule ev_task [of _ SelTask]) (simp_all add: demo_steps RetryClient_Subscribe_def RetryClient_Retry_def)
  have f: "finishTask okCall 0 (TSubscribe []) (takeTask 0 demoQueued) = (demoRan, Ret ())"
    by (simp add: demo_steps RetryClient_Subscribe_def RetryClient_Retry_def finishTask_def takeTask_def
        subscribeTask_def subscribeNow_def afterCall_def)
  have pc: "pc (takeTask 0 demoQueued) = GoRunning 0 (TSubscribe [])"
    by (simp add: demo_steps RetryClient_Subscribe_def RetryClient_Retry_def takeTask_def)
  have e4: "rcEvent okCall (Ran (TSubscribe [])) (takeTask 0 demoQueued) demoRan"
    by (rule ev_ran [OF taskStep_running [OF pc f, of SelTask] pc finishTask_ranBy [OF f]])
  from run_step [OF run_step [OF run_step [OF run_step [OF demo_run e(1)] e(2)] e3] e4]
  show ?thesis by (simp only: append.simps)
qed

theorem tasks_in_order_witness:
  "\<exists>evs. rcRun okCall (newRetryClient (\<lambda>_. ())) evs demoRan \<and> accepted evs = [TSubscribe [], TRetry]
     \<and> executed evs = [TSubscribe []] \<and> accepted evs = executed evs @ running demoRan @ taskQueue demoRan
     \<and> TotalTasks (rStats demoRan) = length (executed evs @ running demoRan)"
proof -
  let ?evs = "[Silent, Silent, Silent, Silent, Accepted (TSubscribe []), Accepted TRetry, Silent, Ran (TSubscribe [])]"
  have "accepted ?evs = executed ?evs @ running demoRan @ taskQueue demoRan
      \<and> TotalTasks (rStats demoRan) = length (executed ?evs @ running demoRan)"
    using tasks_in_order [OF rcRun_steps [OF demo_ran]] demo_ran by blast
  then show ?thesis using demo_ran by (intro exI [of _ ?evs]) simp
qed

text \<open>C12: after \<open>Disconnect\<close> the goroutine ends. Take any state that satisfies \<open>rcInv\<close>, as every reachable one
  does, in which the connection is up and the task channel is closed, and let each of the remaining
  tasks, run in turn on the current base client, return without an error that carries a retry. Then the
  goroutine runs exactly these tasks in their order, changes nothing else, and returns.\<close>

theorem goroutine_ends:
  assumes "rcInv rc" "pc rc = GoConnected" "rCli rc = Some a" "chTask rc = TaskClosed b"
    and "tasksReturn call a (taskQueue rc) rc"
  shows "(goStep call)\<^sup>*\<^sup>* rc ((runTasks call a (taskQueue rc) rc)\<lparr>chTask := TaskClosed False, pc := GoExit\<rparr>)
    \<and> taskQueue (runTasks call a (taskQueue rc) rc) = []
    \<and> TotalTasks (rStats (runTasks call a (taskQueue rc) rc)) = TotalTasks (rStats rc) + length (taskQueue rc)"
  by (rule drains_and_exits [OF assms])

text \<open>Two tasks on the program's own client, connected and on a transport that accepts every write: a QoS 0
  publish and the disconnection.\<close>

lemma publishTask_qos0:
  assumes "accepts_all tWrite tlog" "publishable m" "mQoS m = QoS0" "mID m \<noteq> 0" "sig (scli st) = Some s"
    and "ValidateMessage (scli st) m = Ret ()" "clis rc a = (st, evs)" "retryQueue rc = []"
  shows "\<exists>t'. publishTask (baseCall tWrite tClose hServe) False a m rc
      = (rc\<lparr>clis := (clis rc)(a := (st\<lparr>scli := (scli st)\<lparr>Transport := t'\<rparr>\<rparr>, evs))\<rparr>, Ret ())"
proof -
  have "publishRegister (scli st) s (m\<lparr>mDup := False\<rparr>) = (scli st, Finished (Ret RNone))"
    using assms(3) by (simp add: publishRegister_def QoS_defs)
  from publishImpl_accepts [OF assms(1,2,4,5) this] obtain t' where
    "publishImpl tWrite (scli st) m False = ((scli st)\<lparr>Transport := t'\<rparr>, m\<lparr>mDup := False\<rparr>, Finished (Ret RNone))"
    by blast
  then show ?thesis
    using assms(6-8)
    by (auto simp: publishTask_def publishNow_def callBase_def baseCall_def runRequest_def isConnect_def Publish_def
        afterCall_def)
qed

lemma disconnectTask:
  assumes "accepts_all tWrite tlog" "clis rc a = (st, evs)"
  shows "\<exists>c'. runTask (baseCall tWrite tClose hServe) False a TDisconnect rc
      = (rc\<lparr>clis := (clis rc)(a := (st\<lparr>scli := c'\<rparr>, evs))\<rparr>, Ret ())"
proof -
  obtain c' where "Disconnect tWrite tClose (scli st) = (c', Finished (Ret RNone))"
    using disconnect_outcome [OF assms(1), of tClose "scli st"] by blast
  then show ?thesis
    using assms(2) by (auto simp: callBase_def baseCall_def runRequest_def isConnect_def)
qed

theorem goroutine_ends_witness:
  "\<exists>rc'. (goStep demoCall)\<^sup>*\<^sup>* (demoUp (\<lambda>_. demoOnline []) [TPublish (demoMessage 0), TDisconnect] (TaskClosed True)) rc'
     \<and> pc rc' = GoExit \<and> TotalTasks (rStats rc') = 2"
proof -
  let ?rc = "demoUp (\<lambda>_. demoOnline []) [TPublish (demoMessage 0), TDisconnect] (TaskClosed True)
      :: ((byte list list, unit, Message list) serveState \<times> event list, unit) RetryClient"
  have d: "rcInv ?rc" "pc ?rc = GoConnected" "rCli ?rc = Some 0" "chTask ?rc = TaskClosed True"
      "taskQueue ?rc = [TPublish (demoMessage 0), TDisconnect]" "TotalTasks (rStats ?rc) = 0"
    by (auto simp: newRetryClient_def rcInv_def zeroRetryStats_def)
  have pub: "publishable (demoMessage 0)" "mQoS (demoMessage 0) = QoS0" "mID (demoMessage 0) \<noteq> 0"
    using demo_publishable [of 0] by (simp_all add: QoS_defs)
  have st: "sig (scli (fst (demoOnline []))) = Some newSignaller"
      "ValidateMessage (scli (fst (demoOnline []))) (demoMessage 0) = Ret ()"
      "clis (takeTask 0 ?rc) 0 = (fst (demoOnline []), [])" "retryQueue (takeTask 0 ?rc) = []"
    by (simp_all add: newRetryClient_def ValidateMessage_def QoS_defs takeTask_def)
  obtain c1 where 1: "publishTask demoCall False 0 (demoMessage 0) (takeTask 0 ?rc)
      = ((takeTask 0 ?rc)\<lparr>clis := (clis (takeTask 0 ?rc))(0 := (c1, []))\<rparr>, Ret ())"
    using publishTask_qos0 [OF demo_accepts pub st] by blast
  let ?rc1 = "(takeTask 0 ?rc)\<lparr>clis := (clis (takeTask 0 ?rc))(0 := (c1, [])), pc := GoConnected\<rparr>"
  have f1: "finishTask demoCall 0 (TPublish (demoMessage 0)) (takeTask 0 ?rc) = (?rc1, Ret ())"
    using 1 by (simp add: finishTask_def newRetryClient_def takeTask_def)
  have "clis (takeTask 0 ?rc1) 0 = (c1, [])" by (simp add: takeTask_def)
  then obtain c2 where 2: "runTask demoCall False 0 TDisconnect (takeTask 0 ?rc1)
      = ((takeTask 0 ?rc1)\<lparr>clis := (clis (takeTask 0 ?rc1))(0 := (c1\<lparr>scli := c2\<rparr>, []))\<rparr>, Ret ())"
    using disconnectTask [OF demo_accepts] by blast
  have f2: "\<exists>rc2. finishTask demoCall 0 TDisconnect (takeTask 0 ?rc1) = (rc2, Ret ()) \<and> pc rc2 = GoConnected"
    using 2 by (simp add: finishTask_def newRetryClient_def takeTask_def del: runTask.simps)
  have "tasksReturn demoCall 0 [TPublish (demoMessage 0), TDisconnect] ?rc"
    using f2 f1 by (auto split: prod.splits)
  from goroutine_ends [OF d(1-4), unfolded d(5), OF this] d(6) show ?thesis
    by (intro exI [of _ "(runTasks demoCall 0 [TPublish (demoMessage 0), TDisconnect] ?rc)\<lparr>chTask := TaskClosed False, pc := GoExit\<rparr>"])
      simp
qed

lemma publish_unconnected:
  assumes "sig (scli (fst c)) = None" "ValidateMessage (scli (fst c)) m = Ret ()"
  shows "snd (baseCall tWrite tClose hServe cx c (BPublish m)) = Fail (Sentinel ErrNotConnected)"
proof -
  obtain st evs where c: "c = (st, evs)" by (cases c)
  obtain c1 m1 where a: "publishAssign (scli st) m False = (c1, m1)" by (cases "publishAssign (scli st) m False")
  then obtain l where "c1 = (scli st)\<lparr>idLast := l\<rparr>" using publishAssign_cases(4) by blast
  then have "publishImpl tWrite (scli st) m False = (c1, m1, Finished (Fail (Sentinel ErrNotConnected)))"
    using a assms(1) c by (simp add: publishImpl_def)
  then show ?thesis
    using assms(2) c by (simp add: baseCall_def runRequest_def Publish_def isConnect_def)
qed

text \<open>C17: \<open>SetClient\<close> is not noticed by a goroutine that is connected and has tasks. The check of the
  switch channel reads the channel of the new client, which is open, so the next task is taken and runs on
  the new client before it is connected; a message published by that task is refused with
  \<open>ErrNotConnected\<close>, which is passed to \<open>OnError\<close> if it is set, and is not queued for a retry.\<close>

theorem setClient_loses_message:
  assumes "rcInv rc" "pc rc = GoConnected" "taskQueue rc = TPublish m # ts" "retryQueue rc = []" "\<not> newRetryByError rc"
    and "sig (scli (fst (clis rc a))) = None" "ValidateMessage (scli (fst (clis rc a))) m = Ret ()"
  shows "\<exists>rc1 rc2 rc3. RetryClient_SetClient rc a = (rc1, Ret ())
    \<and> taskStep (baseCall tWrite tClose hServe) sel rc1 = Some (rc2, Ret ()) \<and> pc rc2 = GoRunning a (TPublish m)
    \<and> taskStep (baseCall tWrite tClose hServe) sel rc2 = Some (rc3, Ret ())
    \<and> pc rc3 = GoConnected \<and> taskQueue rc3 = ts \<and> retryQueue rc3 = []
    \<and> onErrors rc3 = onErrors rc @ (if OnError rc then [Sentinel ErrNotConnected] else [])"
proof -
  let ?call = "baseCall tWrite tClose hServe"
  obtain s where s: "chConnSwitch rc = Some s" "\<not> switchClosed rc s" "chTask rc \<noteq> TaskNil"
    using assms(1,2) by (auto simp: rcInv_def)
  let ?rc1 = "switchClient a rc"
  have set: "RetryClient_SetClient rc a = (?rc1, Ret ())"
    using s by (simp add: RetryClient_SetClient_def switchClient_def)
  have f: "rCli ?rc1 = Some a" "clis ?rc1 = clis rc" "taskQueue ?rc1 = TPublish m # ts" "pc ?rc1 = GoConnected"
      "retryQueue ?rc1 = []" "\<not> newRetryByError ?rc1" "onErrors ?rc1 = onErrors rc" "OnError ?rc1 = OnError rc"
      "chConnSwitch ?rc1 = Some (nextCh rc + 1)" "\<not> switchClosed ?rc1 (nextCh rc + 1)"
    using assms by (simp_all add: switchClient_def)
  let ?rc2 = "takeTask a ?rc1"
  let ?rc3 = "onError (Sentinel ErrNotConnected) (fst (callBase ?call (requestContext None ?rc2) a (BPublish m) ?rc2))"
  have take: "taskStep ?call sel ?rc1 = Some (?rc2, Ret ())" "pc ?rc2 = GoRunning a (TPublish m)"
    using f by (simp_all add: taskStep_def takeTask_def)
  have "runTask ?call False a (TPublish m) ?rc2 = (?rc3, Ret ())"
    using publish_unconnected [OF assms(6,7)] assms(7) f
    by (simp add: takeTask_def baseClient.publishTask_eq baseCall_def [of _ _ _ _ _ "BValidate m"] publishNow_def
        afterCall_def callBase_eq queueRetry_def Let_def)
  then have "finishTask ?call a (TPublish m) ?rc2 = (?rc3\<lparr>pc := GoConnected\<rparr>, Ret ())"
    using f by (simp add: finishTask_def onError_def callBase_eq takeTask_def)
  from taskStep_running [OF take(2) this]
  have "taskStep ?call sel ?rc2 = Some (?rc3\<lparr>pc := GoConnected\<rparr>, Ret ())" .
  then show ?thesis
    using set take f
    by (intro exI [of _ ?rc1] exI [of _ ?rc2] exI [of _ "?rc3\<lparr>pc := GoConnected\<rparr>"])
      (simp add: onError_def callBase_eq, simp add: takeTask_def)
qed

theorem setClient_loses_message_witness:
  "\<exists>rc1 rc2 rc3. RetryClient_SetClient ((demoUp (\<lambda>_. (\<lparr>scli = newClient [], subBuffer = Map.empty, hstate = []\<rparr>, []))
        [TPublish (demoMessage 1), TRetry] (TaskOpen False))\<lparr>OnError := True\<rparr>) 1 = (rc1, Ret ())
     \<and> taskStep demoCall SelTask rc1 = Some (rc2, Ret ()) \<and> taskStep demoCall SelTask rc2 = Some (rc3, Ret ())
     \<and> pc rc3 = GoConnected \<and> taskQueue rc3 = [TRetry] \<and> retryQueue rc3 = []
     \<and> onErrors rc3 = [Sentinel ErrNotConnected]"
proof -
  let ?rc = "(demoUp (\<lambda>_. (\<lparr>scli = newClient [], subBuffer = Map.empty, hstate = []\<rparr>, []))
        [TPublish (demoMessage 1), TRetry] (TaskOpen False))\<lparr>OnError := True\<rparr>
        :: ((byte list list, unit, Message list) serveState \<times> event list, unit) RetryClient"
  have "rcInv ?rc" "pc ?rc = GoConnected" "taskQueue ?rc = TPublish (demoMessage 1) # [TRetry]" "retryQueue ?rc = []"
      "\<not> newRetryByError ?rc" "sig (scli (fst (clis ?rc 1))) = None"
      "ValidateMessage (scli (fst (clis ?rc 1))) (demoMessage 1) = Ret ()" "onErrors ?rc = []" "OnError ?rc"
    by (simp_all add: newRetryClient_def rcInv_def ValidateMessage_def QoS_defs)
  from setClient_loses_message [OF this(1-7), of logWrite "\<lambda>t. (t, None)" "\<lambda>h m s. s @ [m]" SelTask] this(8,9)
  show ?thesis by fastforce
qed

text \<open>C18: a failed connection is taken for an established one. \<open>Connect\<close> sends its error on the error
  channel and then closes it; the goroutine that waits for the connection reads the error, looks again
  at the same channel, finds it closed and goes on to run tasks on the unconnected client.\<close>

theorem failed_connect_runs_tasks:
  assumes "pc rc = GoWaitConn k s" "rCli rc = Some a" "chConnectErr rc = Some k" "chConnSwitch rc = Some s"
    and "errChans rc k = ([], False)"
    and "snd (call cx (fst (call None (clis rc a) (BHandle (rHandler rc)))) (BConnect rnd clientID opts)) = Fail err"
  shows "\<exists>rc1 rc2 rc3 rc4.
      RetryClient_Connect call cx rnd rc clientID opts = (rc1, Fail (wrapE err ''retryclient: connecting''))
    \<and> taskStep call SelErr rc1 = Some (rc2, Ret ()) \<and> taskStep call SelErr rc2 = Some (rc3, Ret ())
    \<and> taskStep call SelErr rc3 = Some (rc4, Ret ()) \<and> pc rc4 = GoConnected \<and> taskQueue rc4 = taskQueue rc"
proof -
  obtain rc1 where rc1: "RetryClient_Connect call cx rnd rc clientID opts = (rc1, Fail (wrapE err ''retryclient: connecting''))"
      "pc rc1 = GoWaitConn k s" "errChans rc1 k = ([err], True)" "chConnectErr rc1 = Some k" "chConnSwitch rc1 = Some s"
      "taskQueue rc1 = taskQueue rc"
    using assms by (auto simp: RetryClient_Connect_def callBase_eq Let_def sendErr_def closeErr_def)
  let ?rc2 = "rc1\<lparr>errChans := (errChans rc1)(k := ([], True)), pc := GoUnconnected\<rparr>"
  let ?rc3 = "?rc2\<lparr>pc := GoWaitConn k s\<rparr>"
  have "taskStep call SelErr rc1 = Some (?rc2, Ret ())" "taskStep call SelErr ?rc2 = Some (?rc3, Ret ())"
    "taskStep call SelErr ?rc3 = Some (?rc3\<lparr>pc := GoConnected\<rparr>, Ret ())"
    using rc1 by (simp_all add: taskStep_def)
  then show ?thesis using rc1 by (intro exI [of _ rc1] exI [of _ ?rc2] exI [of _ ?rc3] exI [of _ "?rc3\<lparr>pc := GoConnected\<rparr>"]) simp
qed

abbreviation refuseCall :: "ctx \<Rightarrow> unit \<Rightarrow> unit baseOp \<Rightarrow> unit \<times> reply result" where
  "refuseCall \<equiv> \<lambda>cx c op. (c, Fail (Sentinel ErrClosedTransport))"

theorem failed_connect_runs_tasks_witness:
  "\<exists>rc1 rc2 rc3 rc4.
      RetryClient_Connect refuseCall None 0 (demoSet\<lparr>pc := GoWaitConn 0 1, taskQueue := [TRetry]\<rparr>) [] []
        = (rc1, Fail (wrapE (Sentinel ErrClosedTransport) ''retryclient: connecting''))
    \<and> taskStep refuseCall SelErr rc1 = Some (rc2, Ret ()) \<and> taskStep refuseCall SelErr rc2 = Some (rc3, Ret ())
    \<and> taskStep refuseCall SelErr rc3 = Some (rc4, Ret ()) \<and> pc rc4 = GoConnected \<and> taskQueue rc4 = [TRetry]"
proof -
  let ?rc = "demoSet\<lparr>pc := GoWaitConn 0 1, taskQueue := [TRetry]\<rparr>"
  have d: "pc ?rc = GoWaitConn 0 1" "rCli ?rc = Some 0" "chConnectErr ?rc = Some 0" "chConnSwitch ?rc = Some 1"
      "errChans ?rc 0 = ([], False)" "taskQueue ?rc = [TRetry]"
    by (simp_all add: demo_steps)
  have "snd (refuseCall None (fst (refuseCall None (clis ?rc 0) (BHandle (rHandler ?rc)))) (BConnect 0 [] []))
      = Fail (Sentinel ErrClosedTransport)" by simp
  from failed_connect_runs_tasks [where call = refuseCall and cx = None and rnd = 0 and clientID = "[]" and opts = "[]", OF d(1-5) this]
  show ?thesis unfolding d .
qed

text \<open>After \<open>Disconnect\<close> every request is refused with \<open>ErrClosedClient\<close> and leaves the client as it is;
  a second \<open>Disconnect\<close> panics.\<close>

theorem disconnect_is_final:
  assumes "RetryClient_Disconnect rc = (rc1, r)" "\<not> is_Panic r"
  shows "RetryClient_Subscribe rc1 subs = (rc1, Fail (wrapE (Sentinel ErrClosedClient) ''retryclient: subscribing''))
    \<and> RetryClient_Unsubscribe rc1 topics = (rc1, Fail (wrapE (Sentinel ErrClosedClient) ''retryclient: unsubscribing''))
    \<and> RetryClient_Retry rc1 = (rc1, Ret ()) \<and> RetryClient_Resubscribe rc1 = (rc1, Ret ())
    \<and> RetryClient_Disconnect rc1 = (rc1, Panic ''close of closed channel'')"
proof -
  have "stopped rc1" "\<exists>b. chTask rc1 = TaskClosed b"
    using assms by (auto simp: RetryClient_Disconnect_def closeTask_def split: prod.splits outcome.splits taskChan.splits)
  then show ?thesis
    by (auto simp: RetryClient_Subscribe_def RetryClient_Unsubscribe_def RetryClient_Retry_def RetryClient_Resubscribe_def
        RetryClient_Disconnect_def pushTask_def closeTask_def wrapResult_def)
qed

theorem disconnect_is_final_witness:
  "snd (RetryClient_Disconnect demoStopped) = Panic ''close of closed channel''"
proof -
  have "RetryClient_Disconnect demoRun = (demoStopped, Ret ())" by (simp add: demo_steps)
  from disconnect_is_final [OF this] show ?thesis by simp
qed

text \<open>C11: in every reachable state the channels of the retry client are in order: the switch channel of the
  current client is open, the task channel is closed exactly when the client is stopped, and the task
  goroutine has a client once it runs. So no request panics on a closed channel, \<open>SetClient\<close> never does,
  and a step of the goroutine is only missing where it waits or has ended.\<close>

theorem reachable_channels_in_order:
  assumes "rcReachable call rc"
  shows "(\<forall>s. chConnSwitch rc = Some s \<longrightarrow> \<not> switchClosed rc s)
    \<and> (stopped rc \<longleftrightarrow> (\<exists>b. chTask rc = TaskClosed b))
    \<and> \<not> is_Panic (snd (pushTask rc t)) \<and> snd (RetryClient_SetClient rc a) = Ret ()
    \<and> (pc rc \<in> {GoUnconnected, GoConnected} \<longrightarrow> taskStep call sel rc \<noteq> None)"
proof -
  have inv: "rcInv rc" by (rule rcReachable_inv [OF assms])
  obtain rc1 r1 where p: "pushTask rc t = (rc1, r1)" by (cases "pushTask rc t")
  obtain rc2 r2 where s: "RetryClient_SetClient rc a = (rc2, r2)" by (cases "RetryClient_SetClient rc a")
  have "\<not> is_Panic (snd (pushTask rc t))" using pushTask_no_panic [OF inv p] p by simp
  moreover have "snd (RetryClient_SetClient rc a) = Ret ()" using rcInv_set [OF inv s] s by simp
  moreover have "taskStep call sel rc \<noteq> None" if "pc rc \<in> {GoUnconnected, GoConnected}"
    using that inv by (auto simp: rcInv_def taskStep_def)
  ultimately show ?thesis using inv by (simp add: rcInv_def)
qed

theorem reachable_channels_in_order_witness:
  "\<not> is_Panic (snd (pushTask demoStopped TRetry)) \<and> snd (RetryClient_SetClient demoStopped 1) = Ret ()"
  using reachable_channels_in_order [OF demo_reachable] by blast

text \<open>A retry on a client that is not connected.\<close>

lemma retry_unconnected:
  assumes "sig (scli (fst c)) = None"
  shows "\<exists>c'. baseCall tWrite tClose hServe cx c (BRetry r) = (c', Fail (Sentinel ErrNotConnected)) \<and> sig (scli (fst c')) = None"
proof -
  obtain st evs where c: "c = (st, evs)" by (cases c)
  have "\<exists>c1. runRetry tWrite (scli st) r = (c1, Finished (Fail (Sentinel ErrNotConnected))) \<and> sig c1 = None"
  proof (cases r)
    case (RetryPublish m)
    obtain c1 m1 where a: "publishAssign (scli st) m True = (c1, m1)" by (cases "publishAssign (scli st) m True")
    then obtain l where "c1 = (scli st)\<lparr>idLast := l\<rparr>" using publishAssign_cases(4) by blast
    then show ?thesis using a RetryPublish assms c by (simp add: publishImpl_def)
  qed (use assms c in \<open>simp_all add: retryPublish2_def subscribeImpl_def unsubscribeImpl_def clientNewID_def split: prod.splits\<close>)
  then show ?thesis using c by (auto simp: baseCall_def runRequest_def isConnect_def)
qed

lemma retryLoop_unconnected:
  assumes "sig (scli (fst (clis rc a))) = None"
  shows "\<exists>rc'. retryLoop (baseCall tWrite tClose hServe) False a old (map QRetry rs) rc = (rc', Ret ())
    \<and> retryQueue rc' = retryQueue rc \<and> onErrors rc' = onErrors rc"
  using assms
proof (induction rs arbitrary: rc)
  case (Cons r rs)
  obtain c' where c': "baseCall tWrite tClose hServe None (clis rc a) (BRetry r) = (c', Fail (Sentinel ErrNotConnected))"
      "sig (scli (fst c')) = None"
    using retry_unconnected [OF Cons.prems] by blast
  let ?rc = "(countRetry rc)\<lparr>clis := (clis rc)(a := c')\<rparr>"
  have "runQueued (baseCall tWrite tClose hServe) False a (QRetry r) (countRetry rc) = (?rc, Ret (Some (Sentinel ErrNotConnected)))"
    using c'(1) by (simp add: callBase_eq countRetry_def)
  moreover have "sig (scli (fst (clis ?rc a))) = None" "retryQueue ?rc = retryQueue rc" "onErrors ?rc = onErrors rc"
    using c'(2) by (simp_all add: countRetry_def)
  ultimately show ?case using Cons.IH [of ?rc] by simp
qed simp

text \<open>C16: a retry task that runs on a client that is not connected (which \<open>SetClient\<close> allows, see above) loses
  every pending retry: each fails with \<open>ErrNotConnected\<close>, which carries no retry, and the error is neither
  reported nor is the request kept.\<close>

theorem retries_lost_when_unconnected:
  assumes "sig (scli (fst (clis rc a))) = None" "retryQueue rc = map QRetry rs"
  shows "\<exists>rc'. runTask (baseCall tWrite tClose hServe) False a TRetry rc = (rc', Ret ())
    \<and> retryQueue rc' = [] \<and> onErrors rc' = onErrors rc"
  using retryLoop_unconnected [of "rc\<lparr>retryQueue := []\<rparr>" a tWrite tClose hServe "retryQueue rc" rs] assms
  by (simp add: Let_def)

theorem retries_lost_when_unconnected_witness:
  "\<exists>rc'. runTask demoCall False 1 TRetry
       ((demoUp (\<lambda>_. (\<lparr>scli = newClient [], subBuffer = Map.empty, hstate = []\<rparr>, [])) [] (TaskOpen False))
          \<lparr>retryQueue := [QRetry (RetryPublish (demoMessage 1)), QRetry (RetryPublish2 (demoMessage 2))]\<rparr>) = (rc', Ret ())
     \<and> retryQueue rc' = [] \<and> onErrors rc' = []"
  using retries_lost_when_unconnected [of "(demoUp (\<lambda>_. (\<lparr>scli = newClient [], subBuffer = Map.empty, hstate = []\<rparr>, [])) [] (TaskOpen False))
          \<lparr>retryQueue := [QRetry (RetryPublish (demoMessage 1)), QRetry (RetryPublish2 (demoMessage 2))]\<rparr>" 1
      "[RetryPublish (demoMessage 1), RetryPublish2 (demoMessage 2)]" logWrite "\<lambda>t. (t, None)" "\<lambda>h m s. s @ [m]"]
  by (simp add: newRetryClient_def del: runTask.simps)

text \<open>\<open>ResponseTimeout\<close> bounds the first attempt only. With a broker that does not answer, a publish at QoS 1
  ends at the timeout and is queued for a retry, but the retry runs with the context of the task goroutine,
  which never ends: the same broker then blocks the goroutine until the connection is closed.\<close>

lemma publishImpl_qos1:
  assumes "accepts_all tWrite tlog" "publishable m" "mQoS m = QoS1" "mID m \<noteq> 0" "sig c = Some s"
  shows "\<exists>c' ch. publishImpl tWrite c m dup = (c', m\<lparr>mDup := dup\<rparr>, Waiting (WPubAck (m\<lparr>mDup := dup\<rparr>) ch))"
proof -
  obtain c1 where "publishRegister c s (m\<lparr>mDup := dup\<rparr>) = (c1, Waiting (WPubAck (m\<lparr>mDup := dup\<rparr>) (nextChan c)))"
    using assms(3) by (simp add: publishRegister_def makeChan_def)
  from publishImpl_accepts [OF assms(1,2,4,5) this] show ?thesis by blast
qed

theorem retry_has_no_timeout:
  assumes "accepts_all tWrite tlog" "publishable m" "mQoS m = QoS1" "mID m \<noteq> 0" "sig (scli st) = Some s"
    and "ValidateMessage (scli st) m = Ret ()" "clis rc a = (st, [EvCtx])" "ResponseTimeout rc \<noteq> 0"
  shows "(\<exists>rc'. publishNow (baseCall tWrite tClose hServe) False a m rc = (rc', Ret ())
        \<and> retryQueue rc' = retryQueue rc @ [QRetry (RetryPublish (m\<lparr>mDup := False\<rparr>))])
    \<and> (retryQueue rc = [QRetry (RetryPublish m)] \<longrightarrow> snd (runTask (baseCall tWrite tClose hServe) False a TRetry rc) = Hang)"
proof (intro conjI impI)
  let ?err = "RequestTimeoutError (Some (Sentinel context_DeadlineExceeded))"
  obtain c' ch where p: "publishImpl tWrite (scli st) m False
      = (c', m\<lparr>mDup := False\<rparr>, Waiting (WPubAck (m\<lparr>mDup := False\<rparr>) ch))"
    using publishImpl_qos1 [OF assms(1-5)] by blast
  then show "\<exists>rc'. publishNow (baseCall tWrite tClose hServe) False a m rc = (rc', Ret ())
        \<and> retryQueue rc' = retryQueue rc @ [QRetry (RetryPublish (m\<lparr>mDup := False\<rparr>))]"
    using assms(6-8)
    by (simp add: publishNow_def callBase_def requestContext_def baseCall_def runRequest_def isConnect_def Publish_def
        resume_def onCtx_def wrapErrorWithRetry_def wrapE_def afterCall_def queueRetry_def onError_def Let_def)
next
  assume "retryQueue rc = [QRetry (RetryPublish m)]"
  obtain c' ch where "publishImpl tWrite (scli st) m True
      = (c', m\<lparr>mDup := True\<rparr>, Waiting (WPubAck (m\<lparr>mDup := True\<rparr>) ch))"
    using publishImpl_qos1 [OF assms(1-5)] by blast
  then show "snd (runTask (baseCall tWrite tClose hServe) False a TRetry rc) = Hang"
    using assms(7) \<open>retryQueue rc = _\<close>
    by (simp add: Let_def callBase_def baseCall_def runRequest_def isConnect_def countRetry_def)
qed

theorem retry_has_no_timeout_witness:
  "snd (runTask demoCall False 0 TRetry
     ((demoUp (\<lambda>_. (\<lparr>scli = demoClient, subBuffer = Map.empty, hstate = []\<rparr>, [EvCtx])) [] (TaskOpen False))
        \<lparr>retryQueue := [QRetry (RetryPublish (demoMessage 1))], ResponseTimeout := 1000\<rparr>)) = Hang"
proof -
  let ?st = "\<lparr>scli = demoClient, subBuffer = Map.empty, hstate = []\<rparr>"
  let ?rc = "(demoUp (\<lambda>_. (?st, [EvCtx])) [] (TaskOpen False))\<lparr>retryQueue := [QRetry (RetryPublish (demoMessage 1))],
      ResponseTimeout := 1000\<rparr>"
  have m: "publishable (demoMessage 1)" "mQoS (demoMessage 1) = QoS1" "mID (demoMessage 1) \<noteq> 0"
    using demo_publishable [of 1] by (simp_all add: QoS_defs)
  have st: "sig (scli ?st) = Some newSignaller" "ValidateMessage (scli ?st) (demoMessage 1) = Ret ()"
    by (simp_all add: ValidateMessage_def QoS_defs)
  have rc: "clis ?rc 0 = (?st, [EvCtx])" "ResponseTimeout ?rc \<noteq> 0" "retryQueue ?rc = [QRetry (RetryPublish (demoMessage 1))]"
    by (simp_all add: newRetryClient_def)
  show ?thesis
    using retry_has_no_timeout [OF demo_accepts m st rc(1,2), of "\<lambda>t. (t, None)" "\<lambda>h m s. s @ [m]"] rc(3)
    by blast
qed

end
