(* ===== verification/KeepAlive.thy ===== *)
theory KeepAlive
  imports Runner
begin

text \<open>
  \<open>keepalive.go\<close>: the loop that pings the broker at every tick of a timer.

  The client is the interface \<open>Client\<close>; only \<open>Ping\<close> is called, an argument here. What the environment
  does during one iteration is a \<open>tick\<close>: the error with which the context of the ping ends if it ends, and
  after the ping the error of the parent context (if it has ended) and whether the context of the ping
  has ended. A run is over a finite list of ticks: \<open>Ret None\<close> says that the loop is still running after
  them.
\<close>

record tick =
  pingCtx :: ctx
  parentErr :: "goerror option"
  pingCtxDone :: bool

type_synonym 'c ping = "ctx \<Rightarrow> 'c \<Rightarrow> 'c \<times> reply result"

text \<open>The error that is returned after a ping failed with \<open>err\<close>.\<close>

definition keepAliveError :: "tick \<Rightarrow> goerror \<Rightarrow> goerror" where
  "keepAliveError t err =
     (case parentErr t of
        Some e \<Rightarrow> wrapE e ''keeping alive''
      | None \<Rightarrow> if pingCtxDone t then wrapE (Sentinel ErrPingTimeout) ''keeping alive'' else err)"

fun keepAliveLoop :: "'c ping \<Rightarrow> tick list \<Rightarrow> 'c \<Rightarrow> 'c \<times> goerror option result" where
  "keepAliveLoop ping [] c = (c, Ret None)"
| "keepAliveLoop ping (t # ts) c =
     (case ping (pingCtx t) c of
        (c1, Fail err) \<Rightarrow> (c1, Ret (Some (keepAliveError t err)))
      | (c1, Ret x) \<Rightarrow> keepAliveLoop ping ts c1
      | (c1, Panic s) \<Rightarrow> (c1, Panic s)
      | (c1, Hang) \<Rightarrow> (c1, Hang))"

text \<open>\<open>time.NewTicker\<close> panics on an interval that is not positive.\<close>

definition KeepAlive_run :: "'c ping \<Rightarrow> Duration \<Rightarrow> tick list \<Rightarrow> 'c \<Rightarrow> 'c \<times> goerror option result" where
  "KeepAlive_run ping interval ticks c =
     (if sint interval \<le> 0 then (c, Panic ''non-positive interval for NewTicker'')
      else keepAliveLoop ping ticks c)"

subsection \<open>When the loop ends\<close>

text \<open>The states and replies of pings sent one after the other.\<close>

fun pings :: "'c ping \<Rightarrow> tick list \<Rightarrow> 'c \<Rightarrow> 'c \<times> reply result list" where
  "pings ping [] c = (c, [])"
| "pings ping (t # ts) c =
     (case ping (pingCtx t) c of (c1, r) \<Rightarrow> (case pings ping ts c1 of (c2, rs) \<Rightarrow> (c2, r # rs)))"

lemma keepAlive_running: "list_all is_Ret (snd (pings ping ts c)) \<Longrightarrow>
    keepAliveLoop ping (ts @ us) c = keepAliveLoop ping us (fst (pings ping ts c))"
proof (induction ts arbitrary: c)
  case (Cons t ts)
  obtain c1 r where "ping (pingCtx t) c = (c1, r)" by (cases "ping (pingCtx t) c")
  with Cons show ?case by (cases r) (auto split: prod.splits)
qed simp

lemma keepAlive_stops:
  assumes "snd (ping (pingCtx t) (fst (pings ping ts c))) = Fail err" "list_all is_Ret (snd (pings ping ts c))"
  shows "keepAliveLoop ping (ts @ t # us) c
    = (fst (ping (pingCtx t) (fst (pings ping ts c))), Ret (Some (keepAliveError t err)))"
proof -
  obtain c1 where "ping (pingCtx t) (fst (pings ping ts c)) = (c1, Fail err)"
    using assms(1) by (cases "ping (pingCtx t) (fst (pings ping ts c))") auto
  then show ?thesis using keepAlive_running [OF assms(2), of "t # us"] by simp
qed

text \<open>The loop ends exactly at the first ping that fails.\<close>

lemma keepAlive_Some_iff:
  "keepAliveLoop ping ts c = (c', Ret (Some e)) \<longleftrightarrow>
     (\<exists>us t vs err. ts = us @ t # vs \<and> list_all is_Ret (snd (pings ping us c))
        \<and> ping (pingCtx t) (fst (pings ping us c)) = (c', Fail err) \<and> e = keepAliveError t err)"
  (is "?L ts c \<longleftrightarrow> ?R ts c")
proof
  show "?L ts c \<Longrightarrow> ?R ts c"
  proof (induction ts arbitrary: c)
    case (Cons t ts)
    obtain c1 r where p: "ping (pingCtx t) c = (c1, r)" by (cases "ping (pingCtx t) c")
    show ?case
    proof (cases r)
      case (Ret x)
      with Cons.prems p have "?L ts c1" by simp
      then obtain us t' vs err where "ts = us @ t' # vs" "list_all is_Ret (snd (pings ping us c1))"
          "ping (pingCtx t') (fst (pings ping us c1)) = (c', Fail err)" "e = keepAliveError t' err"
        using Cons.IH by blast
      then show ?thesis
        using p Ret
        by - (rule exI [of _ "t # us"], rule exI [of _ t'], rule exI [of _ vs], rule exI [of _ err], auto split: prod.splits)
    next
      case (Fail err)
      with Cons.prems p show ?thesis
        by - (rule exI [of _ "[]"], rule exI [of _ t], rule exI [of _ ts], rule exI [of _ err], simp)
    qed (use Cons.prems p in auto)
  qed simp
next
  assume "?R ts c"
  then obtain us t vs err where "ts = us @ t # vs" "list_all is_Ret (snd (pings ping us c))"
      "ping (pingCtx t) (fst (pings ping us c)) = (c', Fail err)" "e = keepAliveError t err" by blast
  then show "?L ts c" using keepAlive_stops [of ping t us c err vs] by simp
qed

subsection \<open>A broker that does not answer\<close>

lemma ping_times_out:
  assumes "accepts_all tWrite tlog" "sig (scli st) = Some s"
  shows "\<exists>c'. baseCall tWrite tClose hServe (Some err) (st, EvCtx # evs) BPing = (c', Fail (wrapE err ''waiting PINGRESP''))"
proof -
  let ?c = "scli st" and ?ch = "nextChan (scli st)"
  let ?c1 = "?c\<lparr>chans := (chans ?c)(?ch := []), nextChan := ?ch + 1, sig := Some (s\<lparr>chPingResp := Some ?ch\<rparr>)\<rparr>"
  have "\<exists>b. pack packetPingReq [] = Ret b \<and> b \<noteq> []" by (rule pack_nonempty) simp
  from sendPkt_accepts [OF assms(1) this, of ?c1 "\<lambda>err. wrapError (Some err) ''sending PINGREQ''" "Waiting (WPing 0 ?ch)"]
  obtain t' where "Ping tWrite 0 ?c = (?c1\<lparr>Transport := t'\<rparr>, Waiting (WPing 0 ?ch))"
    using assms(2) by (auto simp: Ping_def makeChan_def)
  then show ?thesis
    by (auto simp: baseCall_def runRequest_def isConnect_def resume_def onCtx_def wrapError_def)
qed

subsection \<open>Properties\<close>

text \<open>C21: the keep-alive loop returns exactly when a ping fails, at the first one that does: with the error
  of the parent context if that has ended, with \<open>ErrPingTimeout\<close> if the ping's own context has, and with the
  error of the ping otherwise.\<close>

theorem keepalive_returns_iff:
  assumes "0 < sint interval"
  shows "KeepAlive_run ping interval ts c = (c', Ret (Some e)) \<longleftrightarrow>
     (\<exists>us t vs err. ts = us @ t # vs \<and> list_all is_Ret (snd (pings ping us c))
        \<and> ping (pingCtx t) (fst (pings ping us c)) = (c', Fail err)
        \<and> e = (case parentErr t of
                  Some p \<Rightarrow> wrapE p ''keeping alive''
                | None \<Rightarrow> if pingCtxDone t then wrapE (Sentinel ErrPingTimeout) ''keeping alive'' else err))"
  using assms keepAlive_Some_iff [of ping ts c c' e] by (simp add: KeepAlive_run_def keepAliveError_def)

abbreviation demoPing :: "((byte list list, unit, Message list) serveState \<times> event list) ping" where
  "demoPing cx c \<equiv> baseCall logWrite (\<lambda>t. (t, None)) (\<lambda>h m s. s @ [m]) cx c BPing"

theorem keepalive_returns_iff_witness:
  "\<exists>c'. KeepAlive_run demoPing 1000 [\<lparr>pingCtx = Some (Sentinel context_DeadlineExceeded), parentErr = None, pingCtxDone = True\<rparr>]
     (\<lparr>scli = demoClient, subBuffer = Map.empty, hstate = []\<rparr>, [EvCtx])
     = (c', Ret (Some (wrapE (Sentinel ErrPingTimeout) ''keeping alive'')))"
proof -
  let ?t = "\<lparr>pingCtx = Some (Sentinel context_DeadlineExceeded), parentErr = None, pingCtxDone = True\<rparr>"
  let ?st = "\<lparr>scli = demoClient, subBuffer = Map.empty, hstate = []\<rparr>"
  obtain c' where "demoPing (pingCtx ?t) (?st, [EvCtx]) = (c', Fail (wrapE (Sentinel context_DeadlineExceeded) ''waiting PINGRESP''))"
    using ping_times_out [OF demo_accepts, of ?st newSignaller "\<lambda>t. (t, None)" "\<lambda>h m s. s @ [m]" "Sentinel context_DeadlineExceeded" "[]"]
    by auto
  then show ?thesis
    using keepalive_returns_iff [of 1000 demoPing "[?t]" "(?st, [EvCtx])" c' "wrapE (Sentinel ErrPingTimeout) ''keeping alive''"]
    by (auto intro!: exI [of _ "[]"] exI [of _ c'])
qed

text \<open>A broker that does not answer a ping in time is noticed: after any number of answered pings, the
  ping whose context ends makes the loop return \<open>ErrPingTimeout\<close>.\<close>

lemma silent_broker_noticed:
  assumes "accepts_all tWrite tlog" "0 < sint interval"
    and "list_all is_Ret (snd (pings (\<lambda>cx c. baseCall tWrite tClose hServe cx c BPing) us c))"
    and "fst (pings (\<lambda>cx c. baseCall tWrite tClose hServe cx c BPing) us c) = (st, EvCtx # evs)"
    and "sig (scli st) = Some s" "pingCtx t = Some err" "parentErr t = None" "pingCtxDone t"
  shows "\<exists>c'. KeepAlive_run (\<lambda>cx c. baseCall tWrite tClose hServe cx c BPing) interval (us @ t # vs) c
    = (c', Ret (Some (wrapE (Sentinel ErrPingTimeout) ''keeping alive'')))"
proof -
  obtain c' where "baseCall tWrite tClose hServe (Some err) (st, EvCtx # evs) BPing = (c', Fail (wrapE err ''waiting PINGRESP''))"
    using ping_times_out [OF assms(1,5)] by blast
  then show ?thesis
    using keepAlive_stops [where us = vs and ts = us and t = t, OF _ assms(3)] assms(2,4,6-8)
    by (simp add: KeepAlive_run_def keepAliveError_def)
qed

end
