(* ===== verification/ReconnectClient.thy ===== *)
theory ReconnectClient
  imports RetryTasks KeepAlive
begin

text \<open>
  \<open>reconnclient.go\<close>: the client that dials, connects and, when the connection is lost, dials again.

  \<open>Connect\<close> starts one goroutine, whose local variables are the record \<open>reconnLoop\<close> and whose blocking
  operations are its positions \<open>reconnPC\<close>; \<open>loopStep\<close> is its code from one blocking operation to the next.
  What the environment decides is the input \<open>loopIn\<close> of a step: the result of the dialer (an argument,
  since it is an interface of the user), the end of contexts, and the ready case of a \<open>select\<close>. Each
  connection starts a keep-alive goroutine (theory \<open>KeepAlive\<close>), listed in \<open>keepers\<close> with a flag that says
  whether its context was cancelled. \<open>Done\<close> and \<open>Err\<close> of a base client are the arguments \<open>doneC\<close> and \<open>errC\<close>.
  One call of \<open>Connect\<close> per client is modelled.
\<close>

subsection \<open>Options\<close>

record ('c, 'h) ReconnectOptions =
  optConnectOptions :: "ConnectOption list"
  Timeout :: Duration
  ReconnectWaitBase :: Duration
  ReconnectWaitMax :: Duration
  PingInterval :: Duration
  optRetryClient :: "('c, 'h) RetryClient"
  AlwaysResubscribe :: bool

type_synonym ('c, 'h) ReconnectOption = "('c, 'h) ReconnectOptions \<Rightarrow> ('c, 'h) ReconnectOptions result"

definition second :: Duration where "second = 1000000000"

definition WithTimeout :: "Duration \<Rightarrow> ('c, 'h) ReconnectOption" where
  "WithTimeout timeout o' = Ret (o'\<lparr>Timeout := timeout\<rparr>)"

definition WithReconnectWait :: "Duration \<Rightarrow> Duration \<Rightarrow> ('c, 'h) ReconnectOption" where
  "WithReconnectWait base maxW o' = Ret (o'\<lparr>ReconnectWaitBase := base, ReconnectWaitMax := maxW\<rparr>)"

definition WithPingInterval :: "Duration \<Rightarrow> ('c, 'h) ReconnectOption" where
  "WithPingInterval interval o' = Ret (o'\<lparr>PingInterval := interval\<rparr>)"

definition WithRetryClient :: "('c, 'h) RetryClient \<Rightarrow> ('c, 'h) ReconnectOption" where
  "WithRetryClient cli o' = Ret (o'\<lparr>optRetryClient := cli\<rparr>)"

definition WithAlwaysResubscribe :: "bool \<Rightarrow> ('c, 'h) ReconnectOption" where
  "WithAlwaysResubscribe always o' = Ret (o'\<lparr>AlwaysResubscribe := always\<rparr>)"

fun applyReconnectOptions :: "('c, 'h) ReconnectOption list \<Rightarrow> ('c, 'h) ReconnectOption" where
  "applyReconnectOptions [] o' = Ret o'"
| "applyReconnectOptions (opt # opts) o' = bindO (opt o') (applyReconnectOptions opts)"

text \<open>The context of \<open>Connect\<close>, by the error with which it ends: with a timeout it can always end.\<close>

definition timeoutContext :: "('c, 'h) ReconnectOptions \<Rightarrow> ctx \<Rightarrow> ctx" where
  "timeoutContext o' cx =
     (if Timeout o' = 0 then cx
      else case cx of None \<Rightarrow> Some (Sentinel context_DeadlineExceeded) | Some e \<Rightarrow> Some e)"

subsection \<open>State\<close>

datatype reconnPC = RDialing | RConnecting nat | RServing nat | RClosing nat | RWaiting | RReturned

record reconnLoop =
  lPC :: reconnPC
  reconnWait :: Duration
  initialized :: bool
  background :: bool

record ('c, 'h) reconnectClient =
  cRetry :: "('c, 'h) RetryClient"
  cDone :: closeChan
  cOptions :: "('c, 'h) ReconnectOptions"
  disconnected :: closeChan
  errDial :: firstError
  errConnect :: firstError
  doneCh :: "bool list \<times> bool"
  cLoop :: "reconnLoop option"
  keepers :: "(nat \<times> bool) list"

definition NewReconnectClient :: "(nat \<Rightarrow> 'c) \<Rightarrow> ('c, 'h) ReconnectOption list \<Rightarrow> ('c, 'h) reconnectClient result" where
  "NewReconnectClient cs opts =
     bindO (applyReconnectOptions opts
        \<lparr>optConnectOptions = [], Timeout = 0, ReconnectWaitBase = second, ReconnectWaitMax = 10 * second,
         PingInterval = 0, optRetryClient = newRetryClient cs, AlwaysResubscribe = False\<rparr>)
       (\<lambda>options. Ret \<lparr>cRetry = optRetryClient options, cDone = ChanOpen, cOptions = options, disconnected = ChanOpen,
          errDial = None, errConnect = None, doneCh = ([], False), cLoop = None, keepers = []\<rparr>)"

subsection \<open>Connect\<close>

text \<open>\<open>Connect\<close> up to its \<open>select\<close>.\<close>

definition reconnect_Connect ::
  "('c, 'h) reconnectClient \<Rightarrow> ConnectOption list \<Rightarrow> ('c, 'h) reconnectClient \<times> unit result" where
  "reconnect_Connect s opts =
     (case applyOptions opts (defaultOptions\<lparr>oProtocolLevel := 0\<rparr>) of
        Ret connOptions \<Rightarrow>
          (let o1 = cOptions s;
               o2 = (if PingInterval o1 = 0 then o1\<lparr>PingInterval := ucast (oKeepAlive connOptions) * second\<rparr> else o1);
               o3 = (if Timeout o2 = 0 then o2\<lparr>Timeout := PingInterval o2\<rparr> else o2)
           in (s\<lparr>cOptions := o3, errDial := None, errConnect := None, doneCh := ([], False),
                 cLoop := Some \<lparr>lPC = RDialing, reconnWait = ReconnectWaitBase o3, initialized = False,
                                background = False\<rparr>\<rparr>, Ret ()))
      | Fail err \<Rightarrow> (s, Fail err)
      | Panic p \<Rightarrow> (s, Panic p)
      | Hang \<Rightarrow> (s, Hang))"

text \<open>Its \<open>select\<close>; \<open>errText\<close> is the text of an error (\<open>%v\<close>). A receive from the closed channel gives false.\<close>

datatype connectSel = SelEstablished | SelUserCtx goerror

fun joinStrings :: "string list \<Rightarrow> string \<Rightarrow> string" where
  "joinStrings [] sep = []"
| "joinStrings [a] sep = a"
| "joinStrings (a # b # xs) sep = a @ sep @ joinStrings (b # xs) sep"

definition firstConnErrors :: "(goerror \<Rightarrow> string) \<Rightarrow> ('c, 'h) reconnectClient \<Rightarrow> string" where
  "firstConnErrors errText s =
     (let actualErrs = (case firstError_Load (errDial s) of None \<Rightarrow> [] | Some e \<Rightarrow> [''dial: '' @ errText e])
            @ (case firstError_Load (errConnect s) of None \<Rightarrow> [] | Some e \<Rightarrow> [''connect: '' @ errText e])
      in if length actualErrs > 0 then '' ('' @ joinStrings actualErrs '', '' @ '')'' else [])"

definition reconnect_Connect_select ::
  "(goerror \<Rightarrow> string) \<Rightarrow> connectSel \<Rightarrow> ('c, 'h) reconnectClient \<Rightarrow> (('c, 'h) reconnectClient \<times> bool result) option" where
  "reconnect_Connect_select errText sel s =
     (case sel of
        SelEstablished \<Rightarrow>
          (case doneCh s of
             (v # vs, closed) \<Rightarrow> Some (s\<lparr>doneCh := (vs, closed)\<rparr>, Ret v)
           | ([], True) \<Rightarrow> Some (s, Ret False)
           | ([], False) \<Rightarrow> None)
      | SelUserCtx e \<Rightarrow> Some (s, Fail (wrapE e (''establishing first connection'' @ firstConnErrors errText s))))"

subsection \<open>The reconnect loop\<close>

datatype 'c loopIn =
    InDial "(nat \<times> 'c) + goerror" "goerror option"
  | InConnect ctx "goerror option" uint32
  | InDone | InCtx goerror | InDisconnected | InTimer

text \<open>Doubling the wait; durations are signed.\<close>

definition nextWait :: "Duration \<Rightarrow> Duration \<Rightarrow> Duration" where
  "nextWait maxW w = (let w2 = w * 2 in if sint w2 > sint maxW then maxW else w2)"

definition setLoop :: "('c, 'h) reconnectClient \<Rightarrow> reconnLoop \<Rightarrow> ('c, 'h) reconnectClient" where
  "setLoop s l = s\<lparr>cLoop := Some l\<rparr>"

text \<open>Returning from the goroutine closes \<open>c.done\<close>.\<close>

definition loopReturn :: "('c, 'h) reconnectClient \<Rightarrow> reconnLoop \<Rightarrow> ('c, 'h) reconnectClient \<times> unit result" where
  "loopReturn s l =
     (if cDone s = ChanOpen then ((setLoop s (l\<lparr>lPC := RReturned\<rparr>))\<lparr>cDone := ChanClosed\<rparr>, Ret ())
      else (s, Panic ''close of closed channel''))"

definition cancelKeeper :: "nat \<Rightarrow> ('c, 'h) reconnectClient \<Rightarrow> ('c, 'h) reconnectClient" where
  "cancelKeeper a s = s\<lparr>keepers := map (\<lambda>(b, c). (b, c \<or> b = a)) (keepers s)\<rparr>"

text \<open>After a connection was established: reset the wait, release \<open>Connect\<close> the first time, queue the
  resubscription and the retries, and start keep-alive.\<close>

definition onConnected ::
  "('c, 'h) reconnectClient \<Rightarrow> reconnLoop \<Rightarrow> nat \<Rightarrow> bool \<Rightarrow> ('c, 'h) reconnectClient \<times> unit result" where
  "onConnected s l a sessionPresent =
     (let o' = cOptions s;
          s1 = (if background l then s else s\<lparr>doneCh := (fst (doneCh s) @ [sessionPresent], True)\<rparr>);
          l1 = l\<lparr>reconnWait := ReconnectWaitBase o', background := True\<rparr>;
          (rc1, r1) = (if initialized l1 \<and> (\<not> sessionPresent \<or> AlwaysResubscribe o')
                       then RetryClient_Resubscribe (cRetry s1) else (cRetry s1, Ret ()))
      in case r1 of
           Ret u \<Rightarrow>
             (case RetryClient_Retry rc1 of
                (rc2, Ret v) \<Rightarrow>
                  (setLoop (s1\<lparr>cRetry := rc2,
                       keepers := keepers s1 @ (if sint (PingInterval o') > 0 then [(a, False)] else [])\<rparr>)
                     (l1\<lparr>initialized := True, lPC := RServing a\<rparr>), Ret ())
              | (rc2, r2) \<Rightarrow> (s1\<lparr>cRetry := rc2\<rparr>, r2))
         | r \<Rightarrow> (s1\<lparr>cRetry := rc1\<rparr>, r))"

text \<open>Closing the base client, and then waiting for its \<open>Done\<close>.\<close>

definition closeBase ::
  "('c, 'h) baseMethods \<Rightarrow> ('c, 'h) reconnectClient \<Rightarrow> reconnLoop \<Rightarrow> nat \<Rightarrow> ('c, 'h) reconnectClient" where
  "closeBase call s l a =
     setLoop (s\<lparr>cRetry := fst (callBase call None a BClose (cRetry s))\<rparr>) (l\<lparr>lPC := RClosing a\<rparr>)"

definition sessionOf :: "reply \<Rightarrow> bool" where
  "sessionOf x = (case x of RSession b \<Rightarrow> b | _ \<Rightarrow> False)"

definition loopStep ::
  "('c, 'h) baseMethods \<Rightarrow> ('c \<Rightarrow> bool) \<Rightarrow> ('c \<Rightarrow> goerror option) \<Rightarrow> gostring \<Rightarrow> ConnectOption list \<Rightarrow> 'c loopIn
     \<Rightarrow> ('c, 'h) reconnectClient \<Rightarrow> (('c, 'h) reconnectClient \<times> unit result) option" where
  "loopStep call doneC errC clientID opts inp s =
     (case cLoop s of
        None \<Rightarrow> None
      | Some l \<Rightarrow>
          (case lPC l of
             RDialing \<Rightarrow>
               (case inp of
                  InDial (Inl (a, c)) ctxErr \<Rightarrow>
                    (let rc = cRetry s in
                     case RetryClient_SetClient (rc\<lparr>clis := (clis rc)(a := c)\<rparr>) a of
                       (rc1, Ret u) \<Rightarrow> Some (setLoop (s\<lparr>cRetry := rc1\<rparr>) (l\<lparr>lPC := RConnecting a\<rparr>), Ret ())
                     | (rc1, r) \<Rightarrow> Some (s\<lparr>cRetry := rc1\<rparr>, r))
                | InDial (Inr err) ctxErr \<Rightarrow>
                    Some (setLoop (if Some err \<noteq> (if background l then None else ctxErr)
                                   then s\<lparr>errDial := firstError_Store (errDial s) (Some err)\<rparr> else s)
                            (l\<lparr>lPC := RWaiting\<rparr>), Ret ())
                | _ \<Rightarrow> None)
           | RConnecting a \<Rightarrow>
               (case inp of
                  InConnect cx ctxErr rnd \<Rightarrow>
                    (case RetryClient_Connect call (timeoutContext (cOptions s) (if background l then None else cx))
                            rnd (cRetry s) clientID opts of
                       (rc1, Ret x) \<Rightarrow> Some (onConnected (s\<lparr>cRetry := rc1\<rparr>) l a (sessionOf x))
                     | (rc1, Fail err) \<Rightarrow>
                         (let s1 = s\<lparr>cRetry := rc1\<rparr>;
                              s2 = (if Some err \<noteq> ctxErr
                                    then s1\<lparr>errConnect := firstError_Store (errConnect s1) (Some err)\<rparr> else s1)
                          in Some (closeBase call s2 l a, Ret ()))
                     | (rc1, Panic p) \<Rightarrow> Some (s\<lparr>cRetry := rc1\<rparr>, Panic p)
                     | (rc1, Hang) \<Rightarrow> Some (s\<lparr>cRetry := rc1\<rparr>, Hang))
                | _ \<Rightarrow> None)
           | RServing a \<Rightarrow>
               (case inp of
                  InDone \<Rightarrow>
                    if doneC (clis (cRetry s) a)
                    then Some (let s1 = cancelKeeper a s in
                               if errC (clis (cRetry s1) a) = None then loopReturn s1 l
                               else (closeBase call s1 l a, Ret ()))
                    else None
                | InCtx e \<Rightarrow> if background l then None else Some (loopReturn (cancelKeeper a s) l)
                | InDisconnected \<Rightarrow>
                    if disconnected s = ChanClosed then Some (loopReturn (cancelKeeper a s) l) else None
                | _ \<Rightarrow> None)
           | RClosing a \<Rightarrow>
               (case inp of
                  InDone \<Rightarrow> if doneC (clis (cRetry s) a) then Some (setLoop s (l\<lparr>lPC := RWaiting\<rparr>), Ret ()) else None
                | _ \<Rightarrow> None)
           | RWaiting \<Rightarrow>
               (case inp of
                  InTimer \<Rightarrow>
                    Some (setLoop s (l\<lparr>lPC := RDialing,
                                       reconnWait := nextWait (ReconnectWaitMax (cOptions s)) (reconnWait l)\<rparr>), Ret ())
                | InCtx e \<Rightarrow> if background l then None else Some (loopReturn s l)
                | InDisconnected \<Rightarrow> if disconnected s = ChanClosed then Some (loopReturn s l) else None
                | _ \<Rightarrow> None)
           | RReturned \<Rightarrow> None))"

subsection \<open>Keep-alive goroutines\<close>

text \<open>One iteration of the \<open>n\<close>-th keep-alive goroutine; when \<open>KeepAlive\<close> returns its error is recorded on the
  current client of the retry client, and the goroutine's own client is closed.\<close>

definition keeperStep ::
  "('c, 'h) baseMethods \<Rightarrow> ctx \<Rightarrow> bool \<Rightarrow> nat \<Rightarrow> ('c, 'h) reconnectClient \<Rightarrow> (('c, 'h) reconnectClient \<times> unit result) option" where
  "keeperStep call cx ctxToDone n s =
     (if n < length (keepers s) then
        (let (a, cancelled) = keepers s ! n;
             t = \<lparr>pingCtx = cx, parentErr = (if cancelled then Some (Sentinel context_Canceled) else None),
                  pingCtxDone = ctxToDone\<rparr>
         in Some (case callBase call (pingCtx t) a BPing (cRetry s) of
              (rc1, Ret x) \<Rightarrow> (s\<lparr>cRetry := rc1\<rparr>, Ret ())
            | (rc1, Fail err) \<Rightarrow>
                (case RetryClient_Client rc1 of
                   None \<Rightarrow> (s\<lparr>cRetry := rc1\<rparr>, nilDeref)
                 | Some b \<Rightarrow>
                     (let rc2 = fst (callBase call None b (BSetErrorOnce (Some (keepAliveError t err))) rc1);
                          rc3 = fst (callBase call None a BClose rc2)
                      in (s\<lparr>cRetry := rc3, keepers := take n (keepers s) @ drop (n + 1) (keepers s)\<rparr>, Ret ())))
            | (rc1, Panic p) \<Rightarrow> (s\<lparr>cRetry := rc1\<rparr>, Panic p)
            | (rc1, Hang) \<Rightarrow> (s\<lparr>cRetry := rc1\<rparr>, Hang)))
      else None)"

subsection \<open>Disconnect\<close>

text \<open>\<open>Disconnect\<close> up to its \<open>select\<close>, with the error that it returns when the loop has ended.\<close>

definition reconnect_Disconnect :: "('c, 'h) reconnectClient \<Rightarrow> ('c, 'h) reconnectClient \<times> unit result" where
  "reconnect_Disconnect s =
     (if disconnected s = ChanOpen
      then (let s1 = s\<lparr>disconnected := ChanClosed\<rparr> in
            case RetryClient_Disconnect (cRetry s1) of (rc1, r) \<Rightarrow> (s1\<lparr>cRetry := rc1\<rparr>, r))
      else (s, Panic ''close of closed channel''))"

definition reconnect_Disconnect_select ::
  "goerror option \<Rightarrow> unit result \<Rightarrow> ('c, 'h) reconnectClient \<Rightarrow> unit result option" where
  "reconnect_Disconnect_select ctxErr r s =
     (case ctxErr of
        None \<Rightarrow> if cDone s = ChanClosed then Some r else None
      | Some e \<Rightarrow> Some (Fail (wrapE e ''disconnecting'')))"

subsection \<open>Reachable states\<close>

text \<open>The steps of the whole client, in any order: methods and tasks of the retry client, the reconnect
  loop, the keep-alive goroutines, \<open>Disconnect\<close>, and what the serve loop of a base client does to it by
  itself (\<open>env\<close>).\<close>

inductive reconnStep ::
  "('c, 'h) baseMethods \<Rightarrow> ('c \<Rightarrow> bool) \<Rightarrow> ('c \<Rightarrow> goerror option) \<Rightarrow> ('c \<Rightarrow> 'c \<Rightarrow> bool) \<Rightarrow> gostring \<Rightarrow> ConnectOption list
     \<Rightarrow> ('c, 'h) reconnectClient \<Rightarrow> ('c, 'h) reconnectClient \<Rightarrow> bool"
  for call doneC errC env clientID opts where
  rs_retry: "rcStep call (cRetry s) rc' \<Longrightarrow> reconnStep call doneC errC env clientID opts s (s\<lparr>cRetry := rc'\<rparr>)"
| rs_loop: "loopStep call doneC errC clientID opts inp s = Some (s', Ret ())
     \<Longrightarrow> reconnStep call doneC errC env clientID opts s s'"
| rs_keeper: "keeperStep call cx d n s = Some (s', Ret ()) \<Longrightarrow> reconnStep call doneC errC env clientID opts s s'"
| rs_env: "env (clis (cRetry s) a) c' \<Longrightarrow> reconnStep call doneC errC env clientID opts s
     (s\<lparr>cRetry := (cRetry s)\<lparr>clis := (clis (cRetry s))(a := c')\<rparr>\<rparr>)"
| rs_received: "reconnect_Connect_select errText sel s = Some (s', r) \<Longrightarrow> reconnStep call doneC errC env clientID opts s s'"
| rs_disconnect: "reconnect_Disconnect s = (s', r) \<Longrightarrow> \<not> is_Panic r \<Longrightarrow> reconnStep call doneC errC env clientID opts s s'"

text \<open>States reachable after \<open>Connect\<close> on a new client.\<close>

definition reconnReachable ::
  "('c, 'h) baseMethods \<Rightarrow> ('c \<Rightarrow> bool) \<Rightarrow> ('c \<Rightarrow> goerror option) \<Rightarrow> ('c \<Rightarrow> 'c \<Rightarrow> bool) \<Rightarrow> gostring \<Rightarrow> ConnectOption list
     \<Rightarrow> ('c, 'h) ReconnectOption list \<Rightarrow> ('c, 'h) reconnectClient \<Rightarrow> bool" where
  "reconnReachable call doneC errC env clientID opts ropts s \<longleftrightarrow>
     (\<exists>cs new s1. NewReconnectClient cs ropts = Ret new \<and> reconnect_Connect new opts = (s1, Ret ())
        \<and> (reconnStep call doneC errC env clientID opts)\<^sup>*\<^sup>* s1 s)"

text \<open>The loop of the goroutine: \<open>Connect\<close> is released and the user's context is dropped together, at the
  first established connection, and \<open>c.done\<close> is closed when the goroutine has returned.\<close>

definition loopInv :: "('c, 'h) reconnectClient \<Rightarrow> reconnLoop \<Rightarrow> bool" where
  "loopInv s l \<longleftrightarrow>
     (background l \<longleftrightarrow> snd (doneCh s)) \<and> (\<not> background l \<longrightarrow> doneCh s = ([], False))
     \<and> (initialized l \<longleftrightarrow> background l)
     \<and> (\<forall>a. lPC l = RServing a \<longrightarrow> background l)
     \<and> (cDone s = (if lPC l = RReturned then ChanClosed else ChanOpen))"

definition reconnInv :: "('c, 'h) reconnectClient \<Rightarrow> bool" where
  "reconnInv s \<longleftrightarrow> (\<exists>l. cLoop s = Some l \<and> loopInv s l)"

lemma reconnInv_frame:
  assumes "reconnInv s" "cLoop s' = cLoop s" "doneCh s' = doneCh s" "cDone s' = cDone s" "cOptions s' = cOptions s"
  shows "reconnInv s'"
  using assms by (auto simp: reconnInv_def loopInv_def)

lemma reconnInv_I: "cLoop s = Some l \<Longrightarrow> loopInv s l \<Longrightarrow> reconnInv s"
  by (auto simp: reconnInv_def)

lemma onConnected_inv:
  assumes "onConnected s l a b = (s', Ret ())" "loopInv s l" "lPC l \<noteq> RReturned"
  shows "reconnInv s'"
  using assms
  by (auto simp: onConnected_def Let_def setLoop_def loopInv_def
      split: prod.splits outcome.splits if_splits intro!: reconnInv_I)

lemma loopReturn_inv:
  assumes "loopReturn s l = (s', Ret ())" "loopInv s l"
  shows "reconnInv s'"
proof -
  have s': "s' = s\<lparr>cLoop := Some (l\<lparr>lPC := RReturned\<rparr>), cDone := ChanClosed\<rparr>"
    using assms(1) by (simp add: loopReturn_def setLoop_def split: if_splits)
  show ?thesis
    by (rule reconnInv_I [of _ "l\<lparr>lPC := RReturned\<rparr>"]) (use assms(2) in \<open>auto simp: s' loopInv_def\<close>)
qed

lemma setLoop_inv:
  "loopInv s l \<Longrightarrow> lPC l \<noteq> RReturned \<Longrightarrow> p \<in> {RDialing, RConnecting a, RClosing a, RWaiting} \<Longrightarrow> reconnInv (setLoop s (l\<lparr>lPC := p\<rparr>))"
  by (rule reconnInv_I [of _ "l\<lparr>lPC := p\<rparr>"]) (auto simp: setLoop_def loopInv_def)

lemma loopInv_frame:
  "loopInv s l \<Longrightarrow> doneCh s' = doneCh s \<Longrightarrow> cDone s' = cDone s \<Longrightarrow> cOptions s' = cOptions s \<Longrightarrow> loopInv s' l"
  by (auto simp: loopInv_def)

lemma closeBase_inv:
  assumes "loopInv s l" "lPC l \<noteq> RReturned"
  shows "reconnInv (closeBase call s l a)"
proof -
  have "loopInv (s\<lparr>cRetry := rc\<rparr>) l" for rc by (rule loopInv_frame [OF assms(1)]) simp_all
  then show ?thesis unfolding closeBase_def by (rule setLoop_inv [where a = a]) (use assms(2) in simp_all)
qed

lemma loopStep_inv:
  assumes "reconnInv s" "loopStep call doneC errC clientID opts inp s = Some (s', Ret ())"
  shows "reconnInv s'"
proof -
  obtain l where l: "cLoop s = Some l" "loopInv s l" using assms(1) by (auto simp: reconnInv_def)
  note fr = loopInv_frame [OF l(2)]
  show ?thesis
  proof (cases "lPC l")
    case RDialing
    show ?thesis
      using assms(2) l(1) RDialing
      by (auto simp: loopStep_def Let_def split: loopIn.splits sum.splits prod.splits outcome.splits
          intro!: setLoop_inv [OF fr])
  next
    case (RConnecting a)
    show ?thesis
      using assms(2) l(1) RConnecting
      by (auto simp: loopStep_def Let_def split: loopIn.splits prod.splits outcome.splits
          intro!: closeBase_inv [OF fr] dest: onConnected_inv [OF _ fr])
  next
    case (RServing a)
    have "loopInv (cancelKeeper a s) l" by (rule fr) (simp_all add: cancelKeeper_def)
    then show ?thesis
      using assms(2) l(1) RServing
      by (auto simp: loopStep_def Let_def split: loopIn.splits if_splits
          intro!: closeBase_inv dest: loopReturn_inv)
  next
    case (RClosing a)
    show ?thesis
      using assms(2) l RClosing
      by (auto simp: loopStep_def split: loopIn.splits if_splits intro!: setLoop_inv)
  next
    case RWaiting
    let ?l = "l\<lparr>lPC := RDialing, reconnWait := nextWait (ReconnectWaitMax (cOptions s)) (reconnWait l)\<rparr>"
    have "loopInv (setLoop s ?l) ?l"
      using l(2) RWaiting by (auto simp: loopInv_def setLoop_def)
    then have "reconnInv (setLoop s ?l)" by (rule reconnInv_I [rotated]) (simp add: setLoop_def)
    then show ?thesis
      using assms(2) l RWaiting
      by (auto simp: loopStep_def split: loopIn.splits if_splits dest: loopReturn_inv)
  qed (use assms(2) l(1) in \<open>simp add: loopStep_def\<close>)
qed

lemma reconnStep_inv: "reconnStep call doneC errC env clientID opts s s' \<Longrightarrow> reconnInv s \<Longrightarrow> reconnInv s'"
proof (induction rule: reconnStep.induct)
  case (rs_keeper cx d n s s')
  then have "cLoop s' = cLoop s \<and> doneCh s' = doneCh s \<and> cDone s' = cDone s \<and> cOptions s' = cOptions s"
    by (auto simp: keeperStep_def Let_def split: if_splits prod.splits outcome.splits option.splits)
  then show ?case using reconnInv_frame [OF rs_keeper.prems] by blast
next
  case (rs_received errText sel s s' r)
  then obtain l where "cLoop s = Some l" "loopInv s l" by (auto simp: reconnInv_def)
  then show ?case
    using rs_received.hyps
    by (intro reconnInv_I [of s' l]) (auto simp: reconnect_Connect_select_def loopInv_def
        split: connectSel.splits prod.splits list.splits bool.splits)
next
  case (rs_disconnect s s' r)
  then show ?case
    by (auto simp: reconnect_Disconnect_def Let_def split: if_splits prod.splits elim!: reconnInv_frame)
qed (auto elim: reconnInv_frame loopStep_inv intro: loopStep_inv)

lemma reconnReachable_inv:
  assumes "reconnReachable call doneC errC env clientID opts ropts s"
  shows "reconnInv s"
proof -
  obtain cs new s1 where "NewReconnectClient cs ropts = Ret new" "reconnect_Connect new opts = (s1, Ret ())"
      and steps: "(reconnStep call doneC errC env clientID opts)\<^sup>*\<^sup>* s1 s"
    using assms unfolding reconnReachable_def by blast
  then have "reconnInv s1"
    by (auto simp: NewReconnectClient_def bindO_eq_Ret_iff reconnect_Connect_def Let_def reconnInv_def loopInv_def
        split: outcome.splits)
  with steps show ?thesis
    by (induction rule: rtranclp_induct) (auto intro: reconnStep_inv)
qed

subsection \<open>The wait between attempts\<close>

lemma sint_double:
  assumes "0 \<le> sint (w :: Duration)" "sint w < 2 ^ 62"
  shows "sint (w * 2) = sint w * 2"
proof -
  have "sint (w * 2) = signed_take_bit 63 (sint w * 2)" by (simp add: sint_word_ariths)
  also have "\<dots> = sint w * 2" using assms by (intro signed_take_bit_int_eq_self) simp_all
  finally show ?thesis .
qed

lemma nextWait_sint:
  assumes "0 \<le> sint w" "sint w < 2 ^ 62"
  shows "sint (nextWait m w) = min (sint m) (sint w * 2)"
  using sint_double [OF assms] by (simp add: nextWait_def Let_def)

lemma nextWait_iterate:
  assumes "0 \<le> sint b" "sint b < 2 ^ 62" "0 \<le> sint m" "sint m < 2 ^ 62"
  shows "sint ((nextWait m ^^ k) b) = (if k = 0 then sint b else min (sint m) (sint b * 2 ^ k))"
proof (induction k)
  case (Suc k)
  let ?w = "(nextWait m ^^ k) b"
  have w: "0 \<le> sint ?w" "sint ?w < 2 ^ 62" using Suc assms by (auto simp: min_def)
  have "sint ((nextWait m ^^ Suc k) b) = min (sint m) (sint ?w * 2)" using nextWait_sint [OF w] by simp
  also have "\<dots> = min (sint m) (sint b * 2 ^ Suc k)" using Suc assms(3) by (auto simp: min_def)
  finally show ?case by simp
qed simp

text \<open>Steps of the client with what they mean for the wait: the loop established a connection, or it waited
  before the next attempt.\<close>

datatype loopEvent = Established | Waited | Other

definition loopEventOf :: "('c, 'h) reconnectClient \<Rightarrow> ('c, 'h) reconnectClient \<Rightarrow> loopEvent" where
  "loopEventOf s s' =
     (case (map_option lPC (cLoop s), map_option lPC (cLoop s')) of
        (Some (RConnecting a), Some (RServing b)) \<Rightarrow> Established
      | (Some RWaiting, Some RDialing) \<Rightarrow> Waited
      | _ \<Rightarrow> Other)"

inductive reconnRun ::
  "('c, 'h) baseMethods \<Rightarrow> ('c \<Rightarrow> bool) \<Rightarrow> ('c \<Rightarrow> goerror option) \<Rightarrow> ('c \<Rightarrow> 'c \<Rightarrow> bool) \<Rightarrow> gostring \<Rightarrow> ConnectOption list
     \<Rightarrow> ('c, 'h) reconnectClient \<Rightarrow> loopEvent list \<Rightarrow> ('c, 'h) reconnectClient \<Rightarrow> bool"
  for call doneC errC env clientID opts s where
  rrun_none: "reconnRun call doneC errC env clientID opts s [] s"
| rrun_step: "reconnRun call doneC errC env clientID opts s evs s1 \<Longrightarrow> reconnStep call doneC errC env clientID opts s1 s2
     \<Longrightarrow> reconnRun call doneC errC env clientID opts s (evs @ [loopEventOf s1 s2]) s2"

text \<open>The number of waits since the last connection that was established, or since the start.\<close>

definition countWait :: "nat \<Rightarrow> loopEvent \<Rightarrow> nat" where
  "countWait k ev = (case ev of Established \<Rightarrow> 0 | Waited \<Rightarrow> Suc k | Other \<Rightarrow> k)"

definition waitsSince :: "loopEvent list \<Rightarrow> nat" where
  "waitsSince evs = foldl countWait 0 evs"

lemma waitsSince_simps [simp]:
  "waitsSince [] = 0" "waitsSince (evs @ [ev]) = countWait (waitsSince evs) ev"
  by (simp_all add: waitsSince_def)

definition waitIs :: "nat \<Rightarrow> ('c, 'h) reconnectClient \<Rightarrow> bool" where
  "waitIs k s \<longleftrightarrow> (\<exists>l. cLoop s = Some l
     \<and> reconnWait l = (nextWait (ReconnectWaitMax (cOptions s)) ^^ k) (ReconnectWaitBase (cOptions s)))"

lemma waitIs_frame:
  assumes "waitIs k s" "cLoop s' = cLoop s" "cOptions s' = cOptions s"
  shows "waitIs (countWait k (loopEventOf s s')) s' \<and> cOptions s' = cOptions s"
proof -
  have "loopEventOf s s' = Other"
    using assms(2) by (auto simp: loopEventOf_def split: option.splits reconnPC.splits)
  then show ?thesis using assms by (simp add: waitIs_def countWait_def)
qed

text \<open>A step of the loop that keeps the wait and is neither a connection nor a wait.\<close>

lemma waitIs_keep:
  assumes "waitIs k s" "cLoop s = Some l" "cLoop s' = Some l'" "reconnWait l' = reconnWait l" "cOptions s' = cOptions s"
    and "\<And>b. lPC l' = RServing b \<Longrightarrow> False" "lPC l' = RDialing \<Longrightarrow> False"
  shows "waitIs (countWait k (loopEventOf s s')) s' \<and> cOptions s' = cOptions s"
proof -
  have "loopEventOf s s' = Other"
    using assms(2,3,6,7) by (auto simp: loopEventOf_def split: reconnPC.splits)
  then show ?thesis using assms(1-5) by (simp add: waitIs_def countWait_def)
qed

lemma onConnected_wait:
  assumes "onConnected s0 l a b = (s', Ret ())" "cLoop s = Some l" "lPC l = RConnecting a" "cOptions s0 = cOptions s"
  shows "waitIs (countWait k (loopEventOf s s')) s' \<and> cOptions s' = cOptions s"
proof -
  obtain l' where l': "cLoop s' = Some l'" "lPC l' = RServing a" "reconnWait l' = ReconnectWaitBase (cOptions s)"
      "cOptions s' = cOptions s"
    using assms(1,4)
    by (auto simp: onConnected_def Let_def setLoop_def split: prod.splits outcome.splits if_splits)
  then show ?thesis using assms(2,3) by (simp add: waitIs_def countWait_def loopEventOf_def)
qed

lemma loopStep_wait:
  assumes "loopStep call doneC errC clientID opts inp s = Some (s', Ret ())" "waitIs k s"
  shows "waitIs (countWait k (loopEventOf s s')) s' \<and> cOptions s' = cOptions s"
proof -
  obtain l where l: "cLoop s = Some l" using assms(2) by (auto simp: waitIs_def)
  have close: "waitIs (countWait k (loopEventOf s (closeBase call s0 l a))) (closeBase call s0 l a)
      \<and> cOptions (closeBase call s0 l a) = cOptions s" if "cOptions s0 = cOptions s" for s0 a
    by (rule waitIs_keep [OF assms(2) l, of _ "l\<lparr>lPC := RClosing a\<rparr>"]) (simp_all add: closeBase_def setLoop_def that)
  have return: "waitIs (countWait k (loopEventOf s s1)) s1 \<and> cOptions s1 = cOptions s"
    if "loopReturn s0 l = (s1, Ret ())" "cOptions s0 = cOptions s" for s0 s1
    by (rule waitIs_keep [OF assms(2) l, of _ "l\<lparr>lPC := RReturned\<rparr>"])
      (use that in \<open>auto simp: loopReturn_def setLoop_def split: if_splits\<close>)
  have set: "waitIs (countWait k (loopEventOf s (setLoop s0 (l\<lparr>lPC := p\<rparr>)))) (setLoop s0 (l\<lparr>lPC := p\<rparr>))
      \<and> cOptions (setLoop s0 (l\<lparr>lPC := p\<rparr>)) = cOptions s"
    if "p = RWaiting \<or> p = RConnecting a" "cOptions s0 = cOptions s" for s0 p a
    by (rule waitIs_keep [OF assms(2) l, of _ "l\<lparr>lPC := p\<rparr>"]) (use that in \<open>auto simp: setLoop_def\<close>)
  show ?thesis
  proof (cases "lPC l")
    case RDialing
    then show ?thesis
      using assms(1) l
      by (auto simp: loopStep_def Let_def split: loopIn.splits sum.splits prod.splits outcome.splits
          intro!: set)
  next
    case (RConnecting a)
    then show ?thesis
      using assms(1) l
      by (auto simp: loopStep_def Let_def split: loopIn.splits prod.splits outcome.splits
          intro!: close dest: onConnected_wait)
  next
    case (RServing a)
    then show ?thesis
      using assms(1) l
      by (auto simp: loopStep_def Let_def cancelKeeper_def split: loopIn.splits if_splits intro!: close return)
  next
    case (RClosing a)
    then show ?thesis
      using assms(1) l by (auto simp: loopStep_def split: loopIn.splits if_splits intro!: set)
  next
    case RWaiting
    show ?thesis
    proof (cases inp)
      case InTimer
      let ?l = "l\<lparr>lPC := RDialing, reconnWait := nextWait (ReconnectWaitMax (cOptions s)) (reconnWait l)\<rparr>"
      have "s' = setLoop s ?l" using assms(1) l RWaiting InTimer by (simp add: loopStep_def)
      then show ?thesis
        using assms(2) l RWaiting by (simp add: waitIs_def countWait_def loopEventOf_def setLoop_def)
    qed (use assms(1) l RWaiting in \<open>auto simp: loopStep_def split: if_splits intro!: return\<close>)
  qed (use assms(1) l in \<open>simp add: loopStep_def\<close>)
qed

lemma reconnStep_wait:
  "reconnStep call doneC errC env clientID opts s s' \<Longrightarrow> waitIs k s
     \<Longrightarrow> waitIs (countWait k (loopEventOf s s')) s' \<and> cOptions s' = cOptions s"
proof (induction rule: reconnStep.induct)
  case (rs_loop inp s s')
  then show ?case using loopStep_wait by blast
next
  case (rs_keeper cx d n s s')
  then have "cLoop s' = cLoop s \<and> cOptions s' = cOptions s"
    by (auto simp: keeperStep_def Let_def split: if_splits prod.splits outcome.splits option.splits)
  then show ?case using waitIs_frame [OF rs_keeper.prems] by blast
next
  case (rs_received errText sel s s' r)
  then have "cLoop s' = cLoop s \<and> cOptions s' = cOptions s"
    by (auto simp: reconnect_Connect_select_def split: connectSel.splits prod.splits list.splits bool.splits)
  then show ?case using waitIs_frame [OF rs_received.prems] by blast
next
  case (rs_disconnect s s' r)
  then have "cLoop s' = cLoop s \<and> cOptions s' = cOptions s"
    by (auto simp: reconnect_Disconnect_def Let_def split: if_splits prod.splits)
  then show ?case using waitIs_frame [OF rs_disconnect.prems] by blast
qed (rule waitIs_frame; simp)+

lemma reconnRun_wait:
  assumes "reconnRun call doneC errC env clientID opts s evs s'" "waitIs 0 s"
  shows "waitIs (waitsSince evs) s' \<and> cOptions s' = cOptions s"
  using assms
proof (induction rule: reconnRun.induct)
  case (rrun_step evs s1 s2)
  then show ?case using reconnStep_wait [OF rrun_step.hyps(2), of "waitsSince evs"] by simp
qed simp

subsection \<open>What the loop relies on\<close>

text \<open>\<open>Close\<close> does not reopen \<open>Done\<close>, and \<open>SetErrorOnce\<close> keeps the first error.\<close>

locale base_conn = base_client call for call :: "ctx \<Rightarrow> 'c \<Rightarrow> 'h baseOp \<Rightarrow> 'c \<times> reply result" +
  fixes doneC :: "'c \<Rightarrow> bool" and errC :: "'c \<Rightarrow> goerror option"
  assumes close_done: "doneC c \<Longrightarrow> doneC (fst (call cx c BClose))"
    and close_err: "errC (fst (call cx c BClose)) = errC c"
    and set_err: "errC (fst (call cx c (BSetErrorOnce e))) = firstError_Store (errC c) e"

definition baseDone :: "('t, 'h, 's) serveState \<times> event list \<Rightarrow> bool" where
  "baseDone c \<longleftrightarrow> Done (scli (fst c)) = ChanClosed"

definition baseErr :: "('t, 'h, 's) serveState \<times> event list \<Rightarrow> goerror option" where
  "baseErr c = Err (scli (fst c))"

interpretation baseConn: base_conn "baseCall tWrite tClose hServe" baseDone baseErr
  by unfold_locales
    (auto simp: baseCall_def baseDone_def baseErr_def Done_def Err_def transportClose_def SetErrorOnce_def
      firstError_Store_def split: prod.splits)

text \<open>The loop under a sequence of inputs.\<close>

fun loopRun ::
  "('c, 'h) baseMethods \<Rightarrow> ('c \<Rightarrow> bool) \<Rightarrow> ('c \<Rightarrow> goerror option) \<Rightarrow> gostring \<Rightarrow> ConnectOption list \<Rightarrow> 'c loopIn list
     \<Rightarrow> ('c, 'h) reconnectClient \<Rightarrow> ('c, 'h) reconnectClient option" where
  "loopRun call doneC errC clientID opts [] s = Some s"
| "loopRun call doneC errC clientID opts (i # is) s =
     (case loopStep call doneC errC clientID opts i s of
        Some (s', Ret u) \<Rightarrow> loopRun call doneC errC clientID opts is s'
      | _ \<Rightarrow> None)"

lemma loopRun_append: "loopRun call doneC errC i opts (is @ js) s
    = Option.bind (loopRun call doneC errC i opts is s) (loopRun call doneC errC i opts js)"
  by (induction "is" arbitrary: s) (auto split: option.splits outcome.splits)

text \<open>Queueing tasks on a running client.\<close>

lemma pushTask_running: "rcInv rc \<Longrightarrow> \<not> stopped rc \<Longrightarrow> \<exists>rc'. pushTask rc t = (rc', Ret ())
    \<and> taskQueue rc' = taskQueue rc @ [t] \<and> rCli rc' = rCli rc \<and> rcInv rc' \<and> \<not> stopped rc'"
  using rcInv_push [of rc t]
  by (cases "chTask rc") (auto simp: pushTask_def rcInv_def Let_def)

lemma onConnected_tasks:
  assumes "rcInv (cRetry s)" "\<not> stopped (cRetry s)" "initialized l"
  shows "\<exists>s' l'. onConnected s l a b = (s', Ret ()) \<and> cLoop s' = Some l' \<and> lPC l' = RServing a
    \<and> reconnWait l' = ReconnectWaitBase (cOptions s) \<and> rCli (cRetry s') = rCli (cRetry s)
    \<and> taskQueue (cRetry s') = taskQueue (cRetry s)
        @ (if \<not> b \<or> AlwaysResubscribe (cOptions s) then [TResubscribe] else []) @ [TRetry]"
proof -
  obtain rc1 where rc1: "pushTask (cRetry s) TResubscribe = (rc1, Ret ())" "rcInv rc1" "\<not> stopped rc1"
      "taskQueue rc1 = taskQueue (cRetry s) @ [TResubscribe]" "rCli rc1 = rCli (cRetry s)"
    using pushTask_running [OF assms(1,2)] by blast
  obtain rc2 where rc2: "pushTask rc1 TRetry = (rc2, Ret ())" "taskQueue rc2 = taskQueue rc1 @ [TRetry]" "rCli rc2 = rCli rc1"
    using pushTask_running [OF rc1(2,3)] by blast
  obtain rc3 where rc3: "pushTask (cRetry s) TRetry = (rc3, Ret ())" "taskQueue rc3 = taskQueue (cRetry s) @ [TRetry]"
      "rCli rc3 = rCli (cRetry s)"
    using pushTask_running [OF assms(1,2)] by blast
  show ?thesis
    using rc1 rc2 rc3 assms(3)
    by (simp add: onConnected_def RetryClient_Resubscribe_def RetryClient_Retry_def setLoop_def Let_def)
qed

lemma connect_succeeds:
  assumes "rCli rc = Some a" "chConnectErr rc = Some k" "errChans rc k = ([], False)" "rcInv rc"
    "snd (call cx (fst (call None (clis rc a) (BHandle (rHandler rc)))) (BConnect rnd clientID opts)) = Ret x"
  shows "\<exists>rc'. RetryClient_Connect call cx rnd rc clientID opts = (rc', Ret x) \<and> rcInv rc'
    \<and> taskQueue rc' = taskQueue rc \<and> stopped rc' = stopped rc \<and> rCli rc' = rCli rc"
proof -
  obtain rc' where c: "RetryClient_Connect call cx rnd rc clientID opts = (rc', Ret x)"
      "taskQueue rc' = taskQueue rc" "stopped rc' = stopped rc" "rCli rc' = rCli rc"
    using assms(1-3,5) by (auto simp: RetryClient_Connect_def callBase_eq Let_def closeErr_def)
  from rcInv_connect [OF assms(4) c(1)] c show ?thesis by blast
qed

lemma setClient_fresh:
  assumes "rcInv rc" "pc rc \<noteq> GoNone"
  shows "\<exists>rc'. RetryClient_SetClient rc a = (rc', Ret ()) \<and> rcInv rc' \<and> rCli rc' = Some a \<and> clis rc' = clis rc
    \<and> (\<exists>k. chConnectErr rc' = Some k \<and> errChans rc' k = ([], False)) \<and> taskQueue rc' = taskQueue rc
    \<and> stopped rc' = stopped rc \<and> rHandler rc' = rHandler rc"
proof -
  obtain r where r: "RetryClient_SetClient rc a = (switchClient a rc, r)"
    using assms by (auto simp: RetryClient_SetClient_def switchClient_def rcInv_def Let_def)
  from rcInv_set [OF assms(1) r] r show ?thesis by (simp add: switchClient_def)
qed

context base_conn
begin

text \<open>From a lost connection to the next dial.\<close>

lemma lost_connection_redials:
  assumes "cLoop s = Some l" "lPC l = RServing a" "doneC (clis (cRetry s) a)" "errC (clis (cRetry s) a) \<noteq> None"
  shows "\<exists>s'. loopRun call doneC errC i opts [InDone, InDone, InTimer] s = Some s'
    \<and> cRetry s' = fst (callBase call None a BClose (cRetry s)) \<and> cOptions s' = cOptions s
    \<and> cLoop s' = Some (l\<lparr>lPC := RDialing, reconnWait := nextWait (ReconnectWaitMax (cOptions s)) (reconnWait l)\<rparr>)"
proof -
  obtain y where "errC (clis (cRetry s) a) = Some y" using assms(4) by auto
  then show ?thesis
    using assms(1-3) close_done [OF assms(3)]
    by (simp add: loopStep_def cancelKeeper_def closeBase_def setLoop_def callBase_eq Let_def)
qed

text \<open>From the next dial to the next connection.\<close>

lemma redial_connects:
  assumes "cLoop s = Some l" "lPC l = RDialing" "background l" "initialized l" "rcInv (cRetry s)" "\<not> stopped (cRetry s)"
    and "pc (cRetry s) \<noteq> GoNone"
    and conn: "snd (call (timeoutContext (cOptions s) None) (fst (call None c (BHandle (rHandler (cRetry s)))))
          (BConnect rnd clientID opts)) = Ret x"
  shows "\<exists>s' l'. loopRun call doneC errC clientID opts [InDial (Inl (b, c)) e, InConnect cx e' rnd] s = Some s'
    \<and> cLoop s' = Some l' \<and> lPC l' = RServing b \<and> reconnWait l' = ReconnectWaitBase (cOptions s)
    \<and> rCli (cRetry s') = Some b
    \<and> taskQueue (cRetry s') = taskQueue (cRetry s)
        @ (if \<not> sessionOf x \<or> AlwaysResubscribe (cOptions s) then [TResubscribe] else []) @ [TRetry]"
proof -
  let ?rc = "(cRetry s)\<lparr>clis := (clis (cRetry s))(b := c)\<rparr>"
  have "rcInv ?rc" "pc ?rc \<noteq> GoNone" using assms(5,7) by (simp_all add: rcInv_def)
  from setClient_fresh [OF this, of b] obtain rc1 k where rc1: "RetryClient_SetClient ?rc b = (rc1, Ret ())" "rcInv rc1"
      "rCli rc1 = Some b" "clis rc1 b = c" "chConnectErr rc1 = Some k" "errChans rc1 k = ([], False)"
      "taskQueue rc1 = taskQueue (cRetry s)" "\<not> stopped rc1" "rHandler rc1 = rHandler (cRetry s)"
    using assms(6) by auto
  obtain rc2 where rc2: "RetryClient_Connect call (timeoutContext (cOptions s) None) rnd rc1 clientID opts = (rc2, Ret x)"
      "rcInv rc2" "taskQueue rc2 = taskQueue (cRetry s)" "\<not> stopped rc2" "rCli rc2 = Some b"
    using connect_succeeds [OF rc1(3,5,6,2)] conn rc1(3,4,7-9) by metis
  let ?s1 = "setLoop (s\<lparr>cRetry := rc1\<rparr>) (l\<lparr>lPC := RConnecting b\<rparr>)"
  have s1: "loopStep call doneC errC clientID opts (InDial (Inl (b, c)) e) s = Some (?s1, Ret ())"
    using assms(1,2) rc1(1) by (simp add: loopStep_def Let_def)
  have s2: "loopStep call doneC errC clientID opts (InConnect cx e' rnd) ?s1
      = Some (onConnected (?s1\<lparr>cRetry := rc2\<rparr>) (l\<lparr>lPC := RConnecting b\<rparr>) b (sessionOf x))"
    using assms(3) rc2(1) by (simp add: loopStep_def setLoop_def)
  have "rcInv (cRetry (?s1\<lparr>cRetry := rc2\<rparr>))" "\<not> stopped (cRetry (?s1\<lparr>cRetry := rc2\<rparr>))"
    "initialized (l\<lparr>lPC := RConnecting b\<rparr>)" using rc2(2,4) assms(4) by simp_all
  from onConnected_tasks [OF this, of b "sessionOf x"] s1 s2 rc2(3,5) show ?thesis
    by (auto simp: setLoop_def)
qed

end

subsection \<open>Properties\<close>

text \<open>C8: a lost connection is replaced. When the connection ends with an error, the loop closes the base
  client, waits for its \<open>Done\<close>, waits once, dials, hands the new client to the retry client and connects
  it; it then queues a resubscription, unless the broker kept the session and \<open>AlwaysResubscribe\<close> is off, and
  the retry of all pending requests, in that order behind the tasks already queued, and resets the wait.\<close>

theorem lost_connection_replaced:
  assumes "reconnInv s" "rcInv (cRetry s)" "\<not> stopped (cRetry s)" "pc (cRetry s) \<noteq> GoNone"
    and "cLoop s = Some l" "lPC l = RServing a" "baseDone (clis (cRetry s) a)" "baseErr (clis (cRetry s) a) \<noteq> None"
    and "snd (baseCall tWrite tClose hServe (timeoutContext (cOptions s) None)
          (fst (baseCall tWrite tClose hServe None c (BHandle (rHandler (cRetry s))))) (BConnect rnd clientID opts)) = Ret x"
  shows "\<exists>s' l'. loopRun (baseCall tWrite tClose hServe) baseDone baseErr clientID opts
        [InDone, InDone, InTimer, InDial (Inl (b, c)) e, InConnect cx e' rnd] s = Some s'
    \<and> cLoop s' = Some l' \<and> lPC l' = RServing b \<and> reconnWait l' = ReconnectWaitBase (cOptions s)
    \<and> rCli (cRetry s') = Some b
    \<and> taskQueue (cRetry s') = taskQueue (cRetry s)
        @ (if \<not> sessionOf x \<or> AlwaysResubscribe (cOptions s) then [TResubscribe] else []) @ [TRetry]"
proof -
  let ?call = "baseCall tWrite tClose hServe"
  have l: "background l" "initialized l" using assms(1,5,6) by (auto simp: reconnInv_def loopInv_def)
  obtain s1 where s1: "loopRun ?call baseDone baseErr clientID opts [InDone, InDone, InTimer] s = Some s1"
      "cRetry s1 = fst (callBase ?call None a BClose (cRetry s))" "cOptions s1 = cOptions s"
      "cLoop s1 = Some (l\<lparr>lPC := RDialing, reconnWait := nextWait (ReconnectWaitMax (cOptions s)) (reconnWait l)\<rparr>)"
    using baseConn.lost_connection_redials [OF assms(5-8)] by blast
  have inv: "rcInv (cRetry s1)" unfolding s1(2) by (rule rcInv_control [OF assms(2) callBase_control])
  have sel: "stopped (cRetry s1) = stopped (cRetry s)" "pc (cRetry s1) = pc (cRetry s)"
    "rHandler (cRetry s1) = rHandler (cRetry s)" "taskQueue (cRetry s1) = taskQueue (cRetry s)"
    unfolding s1(2) by (simp_all add: callBase_eq)
  have "\<exists>s' l'. loopRun ?call baseDone baseErr clientID opts [InDial (Inl (b, c)) e, InConnect cx e' rnd] s1 = Some s'
    \<and> cLoop s' = Some l' \<and> lPC l' = RServing b \<and> reconnWait l' = ReconnectWaitBase (cOptions s1)
    \<and> rCli (cRetry s') = Some b
    \<and> taskQueue (cRetry s') = taskQueue (cRetry s1)
        @ (if \<not> sessionOf x \<or> AlwaysResubscribe (cOptions s1) then [TResubscribe] else []) @ [TRetry]"
    by (rule baseConn.redial_connects [OF s1(4)]) (use l inv sel assms(3,4,9) s1(3) in simp_all)
  then show ?thesis
    using loopRun_append [of ?call baseDone baseErr clientID opts "[InDone, InDone, InTimer]"
        "[InDial (Inl (b, c)) e, InConnect cx e' rnd]" s] s1(1,3) sel(4)
    by auto
qed

text \<open>A client whose first connection, of the base client 0, was lost, and a base client that the broker
  accepts.\<close>

abbreviation demoOptions :: "(nat \<Rightarrow> 'c) \<Rightarrow> ('c, 'h) ReconnectOptions" where
  "demoOptions cs \<equiv> \<lparr>optConnectOptions = [], Timeout = 0, ReconnectWaitBase = second, ReconnectWaitMax = 10 * second,
     PingInterval = 0, optRetryClient = newRetryClient cs, AlwaysResubscribe = False\<rparr>"

abbreviation demoServing :: "('c, 'h) RetryClient \<Rightarrow> (nat \<Rightarrow> 'c) \<Rightarrow> (nat \<times> bool) list \<Rightarrow> ('c, 'h) reconnectClient" where
  "demoServing rc cs ks \<equiv> \<lparr>cRetry = rc, cDone = ChanOpen, cOptions = demoOptions cs, disconnected = ChanOpen,
     errDial = None, errConnect = None, doneCh = ([], True),
     cLoop = Some \<lparr>lPC = RServing 0, reconnWait = second, initialized = True, background = True\<rparr>, keepers = ks\<rparr>"

abbreviation lostClient :: "(byte list list, unit, Message list) serveState \<times> event list" where
  "lostClient \<equiv> (\<lparr>scli = demoClient\<lparr>connClosed := ChanClosed, bErr := Some (Sentinel io_EOF)\<rparr>, subBuffer = Map.empty, hstate = []\<rparr>, [EvCtx])"

abbreviation goodClient :: "(byte list list, unit, Message list) serveState \<times> event list" where
  "goodClient \<equiv> (\<lparr>scli = newClient [], subBuffer = Map.empty, hstate = []\<rparr>, [EvPacket packetConnAck 0 [0, 0], EvRecv])"

lemma demo_connect_ok:
  "snd (demoCall cx (fst (demoCall None goodClient (BHandle h))) (BConnect 0 [] [])) = Ret (RSession False)"
proof -
  obtain b where b: "pktConnect_Pack (connectPkt [] defaultOptions) = Ret b" "b \<noteq> []"
    using demo_connect_pkt by blast
  then show ?thesis
    by (simp add: baseCall_def runRequest_def isConnect_def Connect_def registerConnAck_def makeChan_def clientInit_def
        sendPkt_def clientWrite_log Handle_def servePacket_def signalOne_def sigConnAck_def trySend_def resume_def onRecv_def onConnAck_def
        pktConnAck_Parse_def parsed_def ConnectionAccepted_def Let_def)
qed

theorem lost_connection_replaced_witness:
  "\<exists>s' l'. loopRun demoCall baseDone baseErr [] []
        [InDone, InDone, InTimer, InDial (Inl (1, goodClient)) None, InConnect None None 0]
        (demoServing (demoUp (\<lambda>_. lostClient) [TPublish (demoMessage 1)] (TaskOpen True)) (\<lambda>_. lostClient) []) = Some s'
    \<and> cLoop s' = Some l' \<and> lPC l' = RServing 1
    \<and> taskQueue (cRetry s') = [TPublish (demoMessage 1), TResubscribe, TRetry]"
proof -
  let ?rc = "demoUp (\<lambda>_. lostClient) [TPublish (demoMessage 1)] (TaskOpen True)
     :: ((byte list list, unit, Message list) serveState \<times> event list, unit) RetryClient"
  let ?s = "demoServing ?rc (\<lambda>_. lostClient) []"
  let ?l = "\<lparr>lPC = RServing 0, reconnWait = second, initialized = True, background = True\<rparr>"
  have "loopInv ?s ?l" by (simp add: loopInv_def)
  then have "reconnInv ?s" by (rule reconnInv_I [rotated]) simp
  moreover have "rcInv (cRetry ?s)" "\<not> stopped (cRetry ?s)" "pc (cRetry ?s) \<noteq> GoNone"
    by (simp_all add: newRetryClient_def rcInv_def)
  moreover have "cLoop ?s = Some ?l" "lPC ?l = RServing 0" by simp_all
  moreover have "baseDone (clis (cRetry ?s) 0)" "baseErr (clis (cRetry ?s) 0) \<noteq> None"
    by (simp_all add: newRetryClient_def baseDone_def baseErr_def Done_def Err_def)
  ultimately show ?thesis
    using lost_connection_replaced [OF _ _ _ _ _ _ _ _ demo_connect_ok, of ?s ?l 0 1 None None None]
    by (auto simp: newRetryClient_def sessionOf_def)
qed

text \<open>C9: the loop gives up only for a reason. In every reachable state it returns only if \<open>Disconnect\<close> was
  called, or the user's context ended before the first connection was established, or the connection
  has ended without an error; in particular the user's context has no effect after the first connection.\<close>

theorem loop_returns_for_a_reason:
  assumes "reconnReachable call doneC errC env clientID opts ropts s"
    and "loopStep call doneC errC clientID opts inp s = Some (s', Ret ())" "cLoop s' = Some l'" "lPC l' = RReturned"
  shows "disconnected s = ChanClosed \<or> (\<exists>e. inp = InCtx e \<and> doneCh s = ([], False))
    \<or> (\<exists>l a. cLoop s = Some l \<and> lPC l = RServing a \<and> doneC (clis (cRetry s) a) \<and> errC (clis (cRetry s) a) = None)"
proof -
  obtain l where l: "cLoop s = Some l" "loopInv s l"
    using reconnReachable_inv [OF assms(1)] by (auto simp: reconnInv_def)
  have conn: "lPC l1 \<noteq> RReturned" if "onConnected s1 l0 a b = (s2, Ret ())" "cLoop s2 = Some l1" for s1 l0 a b s2 l1
    using that by (auto simp: onConnected_def setLoop_def Let_def split: prod.splits outcome.splits if_splits)
  show ?thesis
    using assms(2-4) l
    by (auto simp: loopStep_def Let_def loopReturn_def setLoop_def closeBase_def cancelKeeper_def loopInv_def
        split: reconnPC.splits loopIn.splits sum.splits prod.splits outcome.splits if_splits dest: conn)
qed

text \<open>A new client on which \<open>Connect\<close> was called, and the same after a failed dial.\<close>

abbreviation demoNew :: "(unit, unit) reconnectClient" where
  "demoNew \<equiv> \<lparr>cRetry = newRetryClient (\<lambda>_. ()), cDone = ChanOpen, cOptions = demoOptions (\<lambda>_. ()), disconnected = ChanOpen,
     errDial = None, errConnect = None, doneCh = ([], False), cLoop = None, keepers = []\<rparr>"

abbreviation demoDialing :: "(unit, unit) reconnectClient" where
  "demoDialing \<equiv> demoNew\<lparr>cLoop := Some \<lparr>lPC = RDialing, reconnWait = second, initialized = False, background = False\<rparr>\<rparr>"

abbreviation demoFailed :: "(unit, unit) reconnectClient" where
  "demoFailed \<equiv> demoDialing\<lparr>errDial := Some (External 0),
     cLoop := Some \<lparr>lPC = RWaiting, reconnWait = second, initialized = False, background = False\<rparr>\<rparr>"

lemma demo_dialing_reachable:
  "reconnReachable okCall (\<lambda>_. False) (\<lambda>_. None) (\<lambda>_ _. False) [] [] [] demoDialing"
proof -
  have "NewReconnectClient (\<lambda>_. ()) [] = Ret demoNew" by (simp add: NewReconnectClient_def)
  moreover have "reconnect_Connect demoNew [] = (demoDialing, Ret ())"
    by (simp add: reconnect_Connect_def defaultOptions_def)
  ultimately show ?thesis unfolding reconnReachable_def by blast
qed

lemma demo_failed_reachable:
  "reconnReachable okCall (\<lambda>_. False) (\<lambda>_. None) (\<lambda>_ _. False) [] [] [] demoFailed"
proof -
  have "loopStep okCall (\<lambda>_. False) (\<lambda>_. None) [] [] (InDial (Inr (External 0)) None) demoDialing = Some (demoFailed, Ret ())"
    by (simp add: loopStep_def setLoop_def)
  from rs_loop [OF this] demo_dialing_reachable show ?thesis
    unfolding reconnReachable_def by (meson rtranclp.rtrancl_into_rtrancl)
qed

theorem loop_returns_for_a_reason_witness:
  "loopStep okCall (\<lambda>_. False) (\<lambda>_. None) [] [] (InCtx (Sentinel context_Canceled)) demoFailed
     = Some (fst (loopReturn demoFailed (the (cLoop demoFailed))), Ret ())
   \<and> (disconnected demoFailed = ChanClosed
      \<or> (\<exists>e. InCtx (Sentinel context_Canceled) = (InCtx e :: unit loopIn) \<and> doneCh demoFailed = ([], False)))"
proof -
  let ?s' = "fst (loopReturn demoFailed (the (cLoop demoFailed)))"
  have step: "loopStep okCall (\<lambda>_. False) (\<lambda>_. None) [] [] (InCtx (Sentinel context_Canceled)) demoFailed = Some (?s', Ret ())"
    by (simp add: loopStep_def loopReturn_def setLoop_def)
  have "cLoop ?s' = Some \<lparr>lPC = RReturned, reconnWait = second, initialized = False, background = False\<rparr>"
    by (simp add: loopReturn_def setLoop_def)
  from loop_returns_for_a_reason [OF demo_failed_reachable step this] step show ?thesis by auto
qed

text \<open>C19: the waits between attempts. In every run of the client from \<open>Connect\<close> on, let \<open>k\<close> be the number of
  times that the loop has waited since the last connection that it established, or since the start. Then
  the wait of the loop is the base wait times \<open>2 ^ k\<close>, cut off at the maximum once \<open>k\<close> is positive: it is
  back at the base wait after each connection, and doubles with each wait. The options must be not
  negative and below \<open>2 ^ 62\<close> nanoseconds (146 years).\<close>

theorem reconnect_wait:
  assumes "NewReconnectClient cs ropts = Ret new" "reconnect_Connect new opts = (s1, Ret ())"
    and "reconnRun call doneC errC env clientID opts s1 evs s" "cLoop s = Some l"
    and "0 \<le> sint (ReconnectWaitBase (cOptions s1))" "sint (ReconnectWaitBase (cOptions s1)) < 2 ^ 62"
    and "0 \<le> sint (ReconnectWaitMax (cOptions s1))" "sint (ReconnectWaitMax (cOptions s1)) < 2 ^ 62"
  shows "sint (reconnWait l) = (if waitsSince evs = 0 then sint (ReconnectWaitBase (cOptions s1))
      else min (sint (ReconnectWaitMax (cOptions s1))) (sint (ReconnectWaitBase (cOptions s1)) * 2 ^ waitsSince evs))"
proof -
  have "waitIs 0 s1"
    using assms(2) by (auto simp: reconnect_Connect_def waitIs_def Let_def split: outcome.splits)
  from reconnRun_wait [OF assms(3) this] have
    "reconnWait l = (nextWait (ReconnectWaitMax (cOptions s1)) ^^ waitsSince evs) (ReconnectWaitBase (cOptions s1))"
    using assms(4) by (auto simp: waitIs_def)
  then show ?thesis using nextWait_iterate [OF assms(5-8), of "waitsSince evs"] by simp
qed

theorem reconnect_wait_witness:
  "reconnRun okCall (\<lambda>_. False) (\<lambda>_. None) (\<lambda>_ _. False) [] [] demoDialing [Other, Waited]
       (demoFailed\<lparr>cLoop := Some \<lparr>lPC = RDialing, reconnWait = 2 * second, initialized = False, background = False\<rparr>\<rparr>)
   \<and> waitsSince [Other, Waited] = 1 \<and> sint (2 * second) = min (sint (10 * second)) (sint second * 2 ^ 1)"
proof -
  let ?l = "\<lparr>lPC = RDialing, reconnWait = 2 * second, initialized = False, background = False\<rparr>"
  let ?s = "demoFailed\<lparr>cLoop := Some ?l\<rparr>"
  have new: "NewReconnectClient (\<lambda>_. ()) [] = Ret demoNew" by (simp add: NewReconnectClient_def)
  have conn: "reconnect_Connect demoNew [] = (demoDialing, Ret ())"
    by (simp add: reconnect_Connect_def defaultOptions_def)
  have "loopStep okCall (\<lambda>_. False) (\<lambda>_. None) [] [] (InDial (Inr (External 0)) None) demoDialing = Some (demoFailed, Ret ())"
    by (simp add: loopStep_def setLoop_def)
  from rrun_step [OF rrun_none rs_loop [OF this]]
  have r1: "reconnRun okCall (\<lambda>_. False) (\<lambda>_. None) (\<lambda>_ _. False) [] [] demoDialing [Other] demoFailed"
    by (simp add: loopEventOf_def)
  have "nextWait (10 * second) second = 2 * second" by (simp add: nextWait_def second_def)
  then have "loopStep okCall (\<lambda>_. False) (\<lambda>_. None) [] [] InTimer demoFailed = Some (?s, Ret ())"
    by (simp add: loopStep_def setLoop_def)
  from rrun_step [OF r1 rs_loop [OF this]]
  have run: "reconnRun okCall (\<lambda>_. False) (\<lambda>_. None) (\<lambda>_ _. False) [] [] demoDialing [Other, Waited] ?s"
    by (simp add: loopEventOf_def)
  have n: "sint second = 1000000000" "sint (10 * second) = 10000000000" by (simp_all add: second_def)
  have o': "ReconnectWaitBase (cOptions demoDialing) = second" "ReconnectWaitMax (cOptions demoDialing) = 10 * second"
    "cLoop ?s = Some ?l" "reconnWait ?l = 2 * second" by simp_all
  have k: "waitsSince [Other, Waited] = 1" by (simp add: waitsSince_def countWait_def)
  have "sint (reconnWait ?l) = min (sint (10 * second)) (sint second * 2 ^ 1)"
    using reconnect_wait [OF new conn run o'(3)] unfolding o'(1,2) k n by simp
  then show ?thesis using run k unfolding o'(4) by blast
qed

text \<open>Without the bound on the maximum the doubling overflows and the wait becomes negative.\<close>

lemma reconnect_wait_overflow: "sint (nextWait (2 ^ 63 - 1) (2 ^ 62)) = - (2 ^ 63)"
  by (simp add: nextWait_def Let_def)

text \<open>C20: a keep-alive goroutine outlives its connection. When its context was cancelled because the
  connection was lost, the failure of its next ping is recorded as the error of the client that has
  replaced the lost one, which is healthy.\<close>

theorem stale_keepalive_marks_new_client:
  assumes "n < length (keepers s)" "keepers s ! n = (a, True)" "rCli (cRetry s) = Some b" "a \<noteq> b"
    and "baseErr (clis (cRetry s) b) = None"
    and "snd (baseCall tWrite tClose hServe cx (clis (cRetry s) a) BPing) = Fail err"
  shows "\<exists>s'. keeperStep (baseCall tWrite tClose hServe) cx d n s = Some (s', Ret ())
    \<and> rCli (cRetry s') = Some b
    \<and> baseErr (clis (cRetry s') b) = Some (wrapE (Sentinel context_Canceled) ''keeping alive'')"
  using assms baseConn.set_err [of tWrite tClose hServe None]
  by (simp add: keeperStep_def callBase_eq RetryClient_Client_def keepAliveError_def Let_def)

theorem stale_keepalive_marks_new_client_witness:
  "\<exists>s'. keeperStep demoCall (Some (Sentinel context_Canceled)) False 0
        (demoServing ((demoUp (\<lambda>n. if n = 0 then lostClient else goodClient) [] (TaskOpen True))\<lparr>rCli := Some 1\<rparr>)
          (\<lambda>_. lostClient) [(0, True)]) = Some (s', Ret ())
    \<and> rCli (cRetry s') = Some 1
    \<and> baseErr (clis (cRetry s') 1) = Some (wrapE (Sentinel context_Canceled) ''keeping alive'')"
proof -
  let ?s = "demoServing ((demoUp (\<lambda>n. if n = 0 then lostClient else goodClient) [] (TaskOpen True))\<lparr>rCli := Some 1\<rparr>)
          (\<lambda>_. lostClient) [(0, True)]
      :: ((byte list list, unit, Message list) serveState \<times> event list, unit) reconnectClient"
  have "baseErr (clis (cRetry ?s) 1) = None" by (simp add: newRetryClient_def baseErr_def Err_def)
  moreover have "snd (demoCall (Some (Sentinel context_Canceled)) (clis (cRetry ?s) 0) BPing)
      = Fail (wrapE (Sentinel context_Canceled) ''waiting PINGRESP'')"
    using ping_times_out [OF demo_accepts, of "fst lostClient" newSignaller "\<lambda>t. (t, None)" "\<lambda>h m s. s @ [m]"
        "Sentinel context_Canceled" "[]"]
    by (auto simp: newRetryClient_def)
  ultimately show ?thesis
    using stale_keepalive_marks_new_client [of 0 ?s 0 1] by simp
qed

end
