(* ===== verification/ServeAsync.thy ===== *)
theory ServeAsync
  imports Types "HOL-Library.Multiset"
begin

text \<open>
  \<open>serveasync.go\<close>: the handler that serves each message in a goroutine of its own.

  The goroutines that were started and have not run yet are a list of the messages they were started
  with; the scheduler may run any of them next. \<open>calls\<close> is the sequence of calls of the underlying handler.
\<close>

record asyncState =
  started :: "Message list"
  calls :: "Message list"

definition ServeAsync_Serve :: "Message \<Rightarrow> asyncState \<Rightarrow> asyncState" where
  "ServeAsync_Serve message s = s\<lparr>started := started s @ [clone message]\<rparr>"

inductive asyncStep :: "asyncState \<Rightarrow> asyncState \<Rightarrow> bool" where
  async_run: "started s = xs @ m # ys \<Longrightarrow> asyncStep s (s\<lparr>started := xs @ ys, calls := calls s @ [m]\<rparr>)"

inductive_cases asyncStepE: "asyncStep s s'"

text \<open>Messages arriving one after the other with goroutines running in between.\<close>

inductive asyncRun :: "asyncState \<Rightarrow> Message list \<Rightarrow> asyncState \<Rightarrow> bool" where
  async_nil: "asyncRun s [] s"
| async_serve: "asyncRun s ms s' \<Longrightarrow> asyncRun s (ms @ [m]) (ServeAsync_Serve m s')"
| async_step: "asyncRun s ms s' \<Longrightarrow> asyncStep s' s'' \<Longrightarrow> asyncRun s ms s''"

text \<open>Every message is handled exactly once, though not in order: what was handled and what is still to
  be handled are together the messages that arrived.\<close>

lemma async_each_once:
  assumes "asyncRun s ms s'"
  shows "mset (calls s') + mset (started s') = mset (calls s) + mset (started s) + mset ms"
  using assms
  by (induction rule: asyncRun.induct) (auto simp: ServeAsync_Serve_def elim!: asyncStepE)

text \<open>The goroutines can always finish.\<close>

lemma async_progress: "\<exists>s'. asyncStep\<^sup>*\<^sup>* s s' \<and> started s' = []"
proof (induction "length (started s)" arbitrary: s)
  case 0
  then show ?case by auto
next
  case (Suc n)
  then obtain m ys where "started s = [] @ m # ys" by (cases "started s") auto
  then have step: "asyncStep s (s\<lparr>started := [] @ ys, calls := calls s @ [m]\<rparr>)" by (rule async_run)
  have "n = length (started (s\<lparr>started := [] @ ys, calls := calls s @ [m]\<rparr>))" using Suc.hyps(2) \<open>started s = _\<close> by simp
  from Suc.hyps(1) [OF this] step show ?case by (meson converse_rtranclp_into_rtranclp)
qed

end
