(* ===== verification/Paho.thy ===== *)
theory Paho
  imports ReconnectClient ServeMux ServeAsync
begin

text \<open>
  \<open>paho/\<close>: the wrapper that gives a client of this library the interface of \<open>paho.mqtt.golang\<close>.

  The wrapped client is a value of the interface \<open>mqtt.Client\<close>: its methods are the argument \<open>call\<close>, as in
  theory \<open>Runner\<close>. A request starts a goroutine; the definitions here run that goroutine to its end and
  return its token, and \<open>Hang\<close> says that it is still blocked. The options of \<open>paho.mqtt.golang\<close> are a record of
  the fields that the wrapper reads; fields that only some versions have are optional. Callbacks are
  values of the type \<open>'cb\<close>.
\<close>

subsection \<open>Tokens (token.go)\<close>

record token =
  tErr :: "goerror option"
  tDone :: closeChan

definition newToken :: token where
  "newToken = \<lparr>tErr = None, tDone = ChanOpen\<rparr>"

definition release :: "token \<Rightarrow> token result" where
  "release t = (if tDone t = ChanOpen then Ret (t\<lparr>tDone := ChanClosed\<rparr>) else Panic ''close of closed channel'')"

text \<open>\<open>Wait\<close> and \<open>WaitTimeout\<close>; the latter is given whether the time has passed.\<close>

definition token_Wait :: "token \<Rightarrow> bool result" where
  "token_Wait t = (if tDone t = ChanClosed then Ret True else Hang)"

definition token_WaitTimeout :: "bool \<Rightarrow> token \<Rightarrow> bool result" where
  "token_WaitTimeout elapsed t = (if tDone t = ChanClosed then Ret True else if elapsed then Ret False else Hang)"

definition token_Done :: "token \<Rightarrow> closeChan" where
  "token_Done t = tDone t"

definition token_Error :: "token \<Rightarrow> goerror option" where
  "token_Error t = tErr t"

text \<open>Storing the outcome of a call in the token and releasing it.\<close>

definition settle :: "token \<Rightarrow> 'a result \<Rightarrow> token result" where
  "settle t r =
     (case r of
        Ret x \<Rightarrow> release (t\<lparr>tErr := None\<rparr>)
      | Fail e \<Rightarrow> release (t\<lparr>tErr := Some e\<rparr>)
      | Panic s \<Rightarrow> Panic s
      | Hang \<Rightarrow> Hang)"

subsection \<open>Messages (message.go)\<close>

record wrappedMessage =
  wMessage :: Message

definition wrapMessage :: "Message \<Rightarrow> wrappedMessage" where
  "wrapMessage msg = \<lparr>wMessage = msg\<rparr>"

definition Duplicate :: "wrappedMessage \<Rightarrow> bool" where "Duplicate m = mDup (wMessage m)"
definition Qos :: "wrappedMessage \<Rightarrow> byte" where "Qos m = mQoS (wMessage m)"
definition Retained :: "wrappedMessage \<Rightarrow> bool" where "Retained m = mRetain (wMessage m)"
definition Topic :: "wrappedMessage \<Rightarrow> gostring" where "Topic m = mTopic (wMessage m)"
definition MessageID :: "wrappedMessage \<Rightarrow> uint16" where "MessageID m = mID (wMessage m)"
definition Payload :: "wrappedMessage \<Rightarrow> byte list" where "Payload m = mPayload (wMessage m)"

text \<open>The calls of user callbacks that a message makes through the multiplexer.\<close>

definition deliver :: "'cb ServeMux \<Rightarrow> Message \<Rightarrow> ('cb \<times> wrappedMessage) list" where
  "deliver mux m = map (\<lambda>(h, msg). (h, wrapMessage msg)) (ServeMux_Serve mux m)"

subsection \<open>The wrapper (paho.go)\<close>

record ClientOptions =
  Servers :: "gostring list"
  ClientID :: gostring
  Username :: gostring
  Password :: gostring
  CleanSession :: bool
  KeepAlive :: "64 word"
  ProtocolVersion :: "64 word"
  WillEnabled :: bool
  WillTopic :: gostring
  WillPayload :: "byte list"
  WillQos :: byte
  WillRetained :: bool
  AutoReconnect :: bool
  PingTimeout :: Duration
  Order :: bool
  ConnectRetry :: "bool option"
  ConnectRetryInterval :: "Duration option"
  MaxReconnectInterval :: "Duration option"

text \<open>The handler that the wrapper gives to its client: the multiplexer, or a \<open>ServeAsync\<close> around it.\<close>

datatype pahoHandler = HMux | HAsync

record ('c, 'k, 'cb) pahoWrapper =
  pCli :: "'c option"
  pCloser :: "'k option"
  serveMux :: "'cb ServeMux"
  pahoConfig :: ClientOptions
  connectRetry :: bool
  connectRetryInterval :: Duration
  maxReconnectInterval :: Duration

definition NewClient :: "ClientOptions \<Rightarrow> ('c, 'k, 'cb) pahoWrapper result" where
  "NewClient o' =
     (let w = \<lparr>pCli = None, pCloser = None, serveMux = emptyMux, pahoConfig = o', connectRetry = False,
               connectRetryInterval = second, maxReconnectInterval = 10 * second\<rparr>;
          w1 = (case ConnectRetry o' of None \<Rightarrow> w | Some v \<Rightarrow> w\<lparr>connectRetry := v\<rparr>);
          w2 = (case ConnectRetryInterval o' of None \<Rightarrow> w1 | Some v \<Rightarrow> w1\<lparr>connectRetryInterval := v\<rparr>);
          w3 = (case MaxReconnectInterval o' of None \<Rightarrow> w2 | Some v \<Rightarrow> w2\<lparr>maxReconnectInterval := v\<rparr>)
      in if length (Servers o') \<noteq> 1 then Panic ''unsupported number of servers'' else Ret w3)"

definition IsConnected :: "('k \<Rightarrow> bool) \<Rightarrow> ('c, 'k, 'cb) pahoWrapper \<Rightarrow> bool" where
  "IsConnected closerDone w = (case pCloser w of None \<Rightarrow> False | Some k \<Rightarrow> \<not> closerDone k)"

definition IsConnectionOpen :: "('k \<Rightarrow> bool) \<Rightarrow> ('c, 'k, 'cb) pahoWrapper \<Rightarrow> bool" where
  "IsConnectionOpen closerDone w = IsConnected closerDone w"

subsection \<open>Connecting\<close>

definition pahoConnectOptions :: "ClientOptions \<Rightarrow> ConnectOption list" where
  "pahoConnectOptions o' =
     [WithUserNamePassword (Username o') (Password o'), WithCleanSession (CleanSession o'),
      WithKeepAlive (ucast (KeepAlive o'))]
     @ (if ProtocolVersion o' > 0 then [WithProtocolLevel (ucast (ProtocolVersion o'))] else [])
     @ (if WillEnabled o'
        then [WithWill \<lparr>mTopic = WillTopic o', mID = 0, mQoS = WillQos o', mRetain = WillRetained o', mDup = False,
                        mPayload = WillPayload o'\<rparr>] else [])"

definition pahoHandlerOf :: "ClientOptions \<Rightarrow> pahoHandler" where
  "pahoHandlerOf o' = (if Order o' then HMux else HAsync)"

text \<open>The \<open>ConnState\<close> callback: what it calls of the user's callbacks.\<close>

datatype userCall = OnConnect | OnConnectionLost "goerror option"

definition onConnState :: "bool \<Rightarrow> bool \<Rightarrow> ConnState \<Rightarrow> goerror option \<Rightarrow> userCall list" where
  "onConnState hasOnConnect hasOnLost s err =
     (case s of
        StateActive \<Rightarrow> if hasOnConnect then [OnConnect] else []
      | StateClosed \<Rightarrow> if hasOnLost then [OnConnectionLost err] else []
      | _ \<Rightarrow> [])"

text \<open>The options of the reconnecting client.\<close>

definition pahoReconnectOptions :: "('c, 'k, 'cb) pahoWrapper \<Rightarrow> ('b, 'h) ReconnectOption list" where
  "pahoReconnectOptions w =
     [WithPingInterval (KeepAlive (pahoConfig w) * second), WithTimeout (PingTimeout (pahoConfig w)),
      WithReconnectWait (connectRetryInterval w) (maxReconnectInterval w)]"

text \<open>The dialer of the reconnecting client, given the result of \<open>DialContext\<close>: it runs in the reconnect loop and
  stores the new base client as the closer.\<close>

definition pahoDialer :: "'k result \<Rightarrow> ('c, 'k, 'cb) pahoWrapper \<Rightarrow> ('c, 'k, 'cb) pahoWrapper \<times> 'k result" where
  "pahoDialer r w = (case r of Ret cb \<Rightarrow> (w\<lparr>pCloser := Some cb\<rparr>, r) | _ \<Rightarrow> (w, r))"

type_synonym 'c clientMethods = "ctx \<Rightarrow> 'c \<Rightarrow> pahoHandler baseOp \<Rightarrow> 'c \<times> reply result"

text \<open>The goroutine of \<open>connectWithRetry\<close>; \<open>created\<close> is the result of \<open>NewReconnectClient\<close>. After an error of it
  the goroutine goes on with a nil client.\<close>

definition connectWithRetry ::
  "'c clientMethods \<Rightarrow> ctx \<Rightarrow> uint32 \<Rightarrow> 'c result \<Rightarrow> ConnectOption list \<Rightarrow> ('c, 'k, 'cb) pahoWrapper
     \<Rightarrow> ('c, 'k, 'cb) pahoWrapper \<times> token result" where
  "connectWithRetry call cx rnd created opts w =
     (case created of
        Ret cli \<Rightarrow>
          (case call cx cli (BConnect rnd (ClientID (pahoConfig w)) opts) of
             (cli1, Ret x) \<Rightarrow>
               (let cli2 = fst (call None cli1 (BHandle (Some (pahoHandlerOf (pahoConfig w)))))
                in (w\<lparr>pCli := Some cli2\<rparr>, release newToken))
           | (cli1, r) \<Rightarrow> (w, settle newToken r))
      | Fail err \<Rightarrow> (w, bindO (settle newToken (Fail err :: unit result)) (\<lambda>t. nilDeref))
      | Panic s \<Rightarrow> (w, Panic s)
      | Hang \<Rightarrow> (w, Hang))"

text \<open>The goroutine of \<open>connectOnce\<close>, over the results of the successive dials: a client with its closer.
  \<open>Ret None\<close> says that it is still retrying after these. The flag tells whether keep-alive was started.\<close>

fun connectOnce ::
  "'c clientMethods \<Rightarrow> ctx \<Rightarrow> uint32 \<Rightarrow> ('c \<times> 'k) result list \<Rightarrow> ConnectOption list \<Rightarrow> ('c, 'k, 'cb) pahoWrapper
     \<Rightarrow> ('c, 'k, 'cb) pahoWrapper \<times> (token \<times> bool) option result" where
  "connectOnce call cx rnd [] opts w = (w, Ret None)"
| "connectOnce call cx rnd (Fail err # dials) opts w =
     (if connectRetry w then connectOnce call cx rnd dials opts w
      else (w, bindO (settle newToken (Fail err :: unit result)) (\<lambda>t. Ret (Some (t, False)))))"
| "connectOnce call cx rnd (Ret (cli, closer) # dials) opts w =
     (let cli1 = fst (call None cli (BHandle (Some (pahoHandlerOf (pahoConfig w)))))
      in case call cx cli1 (BConnect rnd (ClientID (pahoConfig w)) opts) of
           (cli2, r) \<Rightarrow>
             (w\<lparr>pCli := Some cli2, pCloser := Some closer\<rparr>,
              bindO (settle newToken r) (\<lambda>t. Ret (Some (t, tErr t = None \<and> sint (KeepAlive (pahoConfig w)) > 0)))))"
| "connectOnce call cx rnd (Panic s # dials) opts w = (w, Panic s)"
| "connectOnce call cx rnd (Hang # dials) opts w = (w, Hang)"

definition paho_Connect ::
  "'c clientMethods \<Rightarrow> ctx \<Rightarrow> uint32 \<Rightarrow> 'c result \<Rightarrow> ('c \<times> 'k) result list \<Rightarrow> ('c, 'k, 'cb) pahoWrapper
     \<Rightarrow> ('c, 'k, 'cb) pahoWrapper \<times> (token \<times> bool) option result" where
  "paho_Connect call cx rnd created dials w =
     (let opts = pahoConnectOptions (pahoConfig w) in
      if AutoReconnect (pahoConfig w)
      then (case connectWithRetry call cx rnd created opts w of
              (w', r) \<Rightarrow> (w', bindO r (\<lambda>t. Ret (Some (t, False)))))
      else connectOnce call cx rnd dials opts w)"

subsection \<open>Requests\<close>

text \<open>The goroutine of a request on the wrapped client.\<close>

definition onClient ::
  "'c clientMethods \<Rightarrow> pahoHandler baseOp \<Rightarrow> ('c, 'k, 'cb) pahoWrapper \<Rightarrow> ('c, 'k, 'cb) pahoWrapper \<times> token result" where
  "onClient call op w =
     (case pCli w of
        None \<Rightarrow> (w, settle newToken (Fail (Sentinel paho_ErrNotConnected) :: unit result))
      | Some cli \<Rightarrow> (case call None cli op of (cli', r) \<Rightarrow> (w\<lparr>pCli := Some cli'\<rparr>, settle newToken r)))"

definition paho_Disconnect :: "'c clientMethods \<Rightarrow> ('c, 'k, 'cb) pahoWrapper \<Rightarrow> ('c, 'k, 'cb) pahoWrapper" where
  "paho_Disconnect call w =
     (case pCli w of None \<Rightarrow> w | Some cli \<Rightarrow> w\<lparr>pCli := Some (fst (call None cli BDisconnect))\<rparr>)"

datatype payload = PayBytes "byte list" | PayString gostring | PayOther

definition paho_Publish ::
  "'c clientMethods \<Rightarrow> gostring \<Rightarrow> byte \<Rightarrow> bool \<Rightarrow> payload \<Rightarrow> ('c, 'k, 'cb) pahoWrapper
     \<Rightarrow> ('c, 'k, 'cb) pahoWrapper \<times> token result" where
  "paho_Publish call topic qos retained p w =
     (case (case p of PayBytes v \<Rightarrow> Some v | PayString v \<Rightarrow> Some v | PayOther \<Rightarrow> None) of
        None \<Rightarrow> (w, Panic ''payload type error'')
      | Some v \<Rightarrow>
          onClient call (BPublish \<lparr>mTopic = topic, mID = 0, mQoS = qos, mRetain = retained, mDup = False, mPayload = v\<rparr>) w)"

definition AddRoute :: "gostring \<Rightarrow> 'cb \<Rightarrow> ('c, 'k, 'cb) pahoWrapper \<Rightarrow> ('c, 'k, 'cb) pahoWrapper" where
  "AddRoute topic callback w = w\<lparr>serveMux := fst (ServeMux_Handle (serveMux w) topic callback)\<rparr>"

definition paho_Subscribe ::
  "'c clientMethods \<Rightarrow> gostring \<Rightarrow> byte \<Rightarrow> 'cb \<Rightarrow> ('c, 'k, 'cb) pahoWrapper \<Rightarrow> ('c, 'k, 'cb) pahoWrapper \<times> token result" where
  "paho_Subscribe call topic qos callback w =
     onClient call (BSubscribe [\<lparr>sTopic = topic, sQoS = qos\<rparr>]) (AddRoute topic callback w)"

text \<open>The map of filters, in the order in which \<open>range\<close> visits it.\<close>

definition SubscribeMultiple ::
  "'c clientMethods \<Rightarrow> (gostring \<times> byte) list \<Rightarrow> 'cb \<Rightarrow> ('c, 'k, 'cb) pahoWrapper
     \<Rightarrow> ('c, 'k, 'cb) pahoWrapper \<times> token result" where
  "SubscribeMultiple call filters callback w =
     onClient call (BSubscribe (map (\<lambda>(f, qos). \<lparr>sTopic = f, sQoS = qos\<rparr>) filters))
       (fold (\<lambda>(f, qos). AddRoute f callback) filters w)"

definition paho_Unsubscribe ::
  "'c clientMethods \<Rightarrow> gostring list \<Rightarrow> ('c, 'k, 'cb) pahoWrapper \<Rightarrow> ('c, 'k, 'cb) pahoWrapper \<times> token result" where
  "paho_Unsubscribe call topics w = onClient call (BUnsubscribe topics) w"

definition OptionsReader :: "('c, 'k, 'cb) pahoWrapper \<Rightarrow> 'r result" where
  "OptionsReader w = Panic ''not implemented''"

subsection \<open>Tokens are settled once\<close>

text \<open>A token that a goroutine settles is released, without closing its channel twice, and holds the error of
  the call.\<close>

lemma settle_new: "settle newToken r = (case r of
     Ret x \<Rightarrow> Ret \<lparr>tErr = None, tDone = ChanClosed\<rparr>
   | Fail e \<Rightarrow> Ret \<lparr>tErr = Some e, tDone = ChanClosed\<rparr>
   | Panic p \<Rightarrow> Panic p | Hang \<Rightarrow> Hang)"
  by (cases r) (simp_all add: settle_def newToken_def release_def)

lemma onClient_token:
  assumes "onClient call op w = (w', Ret t)"
  shows "token_Wait t = Ret True
    \<and> token_Error t = (case pCli w of
         None \<Rightarrow> Some (Sentinel paho_ErrNotConnected)
       | Some cli \<Rightarrow> (case snd (call None cli op) of Fail e \<Rightarrow> Some e | _ \<Rightarrow> None))"
  using assms
  by (auto simp: onClient_def settle_new token_Wait_def token_Error_def split: option.splits prod.splits outcome.splits)

lemma onClient_mux [simp]: "serveMux (fst (onClient call op w)) = serveMux w"
  by (simp add: onClient_def split: option.splits prod.splits)

text \<open>An error of \<open>NewReconnectClient\<close> would make the goroutine of \<open>connectWithRetry\<close> panic; with the options of the
  wrapper there is none.\<close>

lemma pahoReconnectOptions_ok: "\<exists>c. NewReconnectClient cs (pahoReconnectOptions w) = Ret c"
  by (simp add: NewReconnectClient_def pahoReconnectOptions_def WithPingInterval_def WithTimeout_def WithReconnectWait_def)

text \<open>With \<open>ConnectRetry\<close> the dial loop goes on for ever while dialing fails, also after the context of \<open>Connect\<close>
  has ended.\<close>

lemma connectOnce_never_gives_up:
  "connectRetry w \<Longrightarrow> connectOnce call cx rnd (replicate n (Fail err)) opts w = (w, Ret None)"
  by (induction n) simp_all

text \<open>The CONNECT packet carries the options of the wrapper; the keep-alive interval is cut to 16 bits.\<close>

lemma paho_connect_options:
  assumes "WillEnabled o' \<Longrightarrow> WillQos o' \<in> {QoS0, QoS1, QoS2}"
  shows "\<exists>co. applyOptions (pahoConnectOptions o') defaultOptions = Ret co
    \<and> oUserName co = Username o' \<and> oPassword co = Password o' \<and> oCleanSession co = CleanSession o'
    \<and> oKeepAlive co = ucast (KeepAlive o')
    \<and> oProtocolLevel co = (if ProtocolVersion o' > 0 then ucast (ProtocolVersion o') else ProtocolLevel4)
    \<and> (oWill co \<noteq> None \<longleftrightarrow> WillEnabled o')"
  using assms
  by (cases "WillEnabled o'") (auto simp: pahoConnectOptions_def WithUserNamePassword_def WithCleanSession_def
      WithKeepAlive_def WithProtocolLevel_def WithWill_def defaultOptions_def)

subsection \<open>Properties\<close>

lemma AddRoute_deliver:
  assumes "flt \<noteq> []" "valid_levels (splitSlash flt)" "levels_match (splitSlash flt) (splitSlash (mTopic m))"
  shows "deliver (serveMux (AddRoute flt cb w)) m = deliver (serveMux w) m @ [(cb, wrapMessage m)]"
  using registerAll_Serve [of "[(flt, cb)]" "serveMux w" m] assms
  by (simp add: AddRoute_def registerAll_def deliver_def)

text \<open>C40: subscribing adds a route each time and unsubscribing removes none. A client that subscribes to a
  filter twice, as after a lost connection, and then unsubscribes from it still has its callback called
  twice for every matching message.\<close>

theorem routes_accumulate:
  assumes "flt \<noteq> []" "valid_levels (splitSlash flt)" "levels_match (splitSlash flt) (splitSlash (mTopic m))"
  shows "deliver (serveMux (fst (paho_Unsubscribe call [flt]
           (fst (paho_Subscribe call flt q2 cb (fst (paho_Subscribe call flt q1 cb w))))))) m
    = deliver (serveMux w) m @ [(cb, wrapMessage m), (cb, wrapMessage m)]"
proof -
  have mux: "serveMux (fst (paho_Subscribe call flt q cb w)) = serveMux (AddRoute flt cb w)" for q w
    by (simp add: paho_Subscribe_def)
  have d: "deliver (serveMux (AddRoute flt cb w)) m = deliver (serveMux w) m @ [(cb, wrapMessage m)]" for w
    by (rule AddRoute_deliver [OF assms])
  show ?thesis by (simp add: paho_Unsubscribe_def mux d)
qed

abbreviation demoWrapper :: "(unit, unit, nat) pahoWrapper" where
  "demoWrapper \<equiv> \<lparr>pCli = Some (), pCloser = None, serveMux = emptyMux,
     pahoConfig = \<lparr>Servers = [str ''tcp://broker''], ClientID = [], Username = [], Password = [], CleanSession = True, KeepAlive = 30,
       ProtocolVersion = 4, WillEnabled = False, WillTopic = [], WillPayload = [], WillQos = 0, WillRetained = False,
       AutoReconnect = False, PingTimeout = second, Order = True, ConnectRetry = None, ConnectRetryInterval = None,
       MaxReconnectInterval = None\<rparr>,
     connectRetry = False, connectRetryInterval = second, maxReconnectInterval = second\<rparr>"

theorem routes_accumulate_witness:
  "deliver (serveMux (fst (paho_Unsubscribe (\<lambda>cx c op. (c, Ret RNone)) [[0x61]]
     (fst (paho_Subscribe (\<lambda>cx c op. (c, Ret RNone)) [0x61] 1 5
       (fst (paho_Subscribe (\<lambda>cx c op. (c, Ret RNone)) [0x61] 1 5 demoWrapper))))))) (demoMessage 1)
   = deliver emptyMux (demoMessage 1) @ [(5, wrapMessage (demoMessage 1)), (5, wrapMessage (demoMessage 1))]"
proof -
  have "splitSlash [0x61] = [[0x61]]" by code_simp
  then have "valid_levels (splitSlash [0x61])" "levels_match (splitSlash [0x61]) (splitSlash (mTopic (demoMessage 1)))"
    by (simp_all add: valid_levels_def match_level)
  from routes_accumulate [OF _ this, of "\<lambda>cx c op. (c, Ret RNone)" 1 5 1 demoWrapper] show ?thesis by simp
qed

end
