(* ===== verification/PipeStream.thy ===== *)
theory PipeStream
  imports FilteredPipe
begin

text \<open>
  \<open>internal/filteredpipe\<close>, the reading side: \<open>Read\<close>, the two constructors and \<open>Connect\<close>.

  A reading end keeps in \<open>fRemain\<close> the readers that are not used up: a \<open>bytes.Reader\<close> is the bytes that it
  still holds, an \<open>io.MultiReader\<close> the list of its readers. A \<open>select\<close> in which a chunk and the close signal
  are both ready may take either: the argument \<open>pick n\<close> says whether the \<open>n\<close>-th such choice takes the close
  signal. \<open>Hang\<close> is a read that blocks until the other end writes or closes.
\<close>

record readConn = filterConn +
  fRemain :: "byte list list option"

definition fRCh :: "'a filterConn_scheme \<Rightarrow> bool" where
  "fRCh c = (\<not> fWCh c)"

definition newPipe :: pipe where
  "newPipe = \<lparr>pChan = (\<lambda>_. []), pClosed = False\<rparr>"

text \<open>\<open>DetectAndClosePipe\<close> and \<open>DetectAndDropPipe\<close>: two ends of one pipe, each reading what the other writes.\<close>

definition pipeEnds :: "readConn \<times> readConn" where
  "pipeEnds = (\<lparr>fPipe = newPipe, fWCh = True, fDropping = False, fRemain = None\<rparr>,
               \<lparr>fPipe = newPipe, fWCh = False, fDropping = False, fRemain = None\<rparr>)"

subsection \<open>Read\<close>

text \<open>\<open>Read\<close> of the remaining readers into a buffer of \<open>k\<close> bytes: an exhausted reader is skipped, and one
  call reads from one reader.\<close>

fun remainRead :: "nat \<Rightarrow> byte list list \<Rightarrow> byte list list \<times> byte list" where
  "remainRead k [] = ([], [])"
| "remainRead k (d # ds) = (if d = [] then remainRead k ds else (drop k d # ds, take k d))"

text \<open>The inner loop of \<open>Read\<close>: it takes every chunk that is ready. The result tells whether it left the loop
  with the close signal.\<close>

fun drainLoop :: "(nat \<Rightarrow> bool) \<Rightarrow> nat \<Rightarrow> bool \<Rightarrow> byte list list \<Rightarrow> byte list list \<Rightarrow> byte list list \<times> byte list list \<times> bool" where
  "drainLoop pick n closed [] remain = ([], remain, closed)"
| "drainLoop pick n closed (d # q) remain =
     (if closed \<and> pick n then (d # q, remain, True) else drainLoop pick (n + 1) closed q (remain @ [d]))"

definition setQueue :: "readConn \<Rightarrow> byte list list \<Rightarrow> readConn" where
  "setQueue c q = c\<lparr>fPipe := (fPipe c)\<lparr>pChan := (pChan (fPipe c))(fRCh c := q)\<rparr>\<rparr>"

definition rQueue :: "readConn \<Rightarrow> byte list list" where
  "rQueue c = pChan (fPipe c) (fRCh c)"

lemma rQueue_set [simp]: "rQueue (setQueue c q) = q" "rQueue (c\<lparr>fRemain := r\<rparr>) = rQueue c"
  "rQueue ((setQueue c q)\<lparr>fRemain := r\<rparr>) = q"
  by (simp_all add: rQueue_def setQueue_def fRCh_def)

lemma setQueue_sel [simp]: "fRemain (setQueue c q) = fRemain c" "pClosed (fPipe (setQueue c q)) = pClosed (fPipe c)"
  by (simp_all add: setQueue_def)

lemma drainLoop_open [simp]: "drainLoop pick n False q remain = ([], remain @ q, False)"
  by (induction q arbitrary: n remain) simp_all

lemma drainLoop_shorter: "drainLoop pick n closed q remain = (q', remain', e) \<Longrightarrow> length q' \<le> length q"
  by (induction q arbitrary: n remain) (auto split: if_splits intro: le_SucI)

function conn_Read :: "(nat \<Rightarrow> bool) \<Rightarrow> nat \<Rightarrow> readConn \<Rightarrow> readConn \<times> byte list result" where
  "conn_Read pick k c =
     (case fRemain c of
        Some remain \<Rightarrow>
          (case remainRead k remain of (remain', bs) \<Rightarrow>
             if bs = [] then
               if pClosed (fPipe c) then (c\<lparr>fRemain := Some remain'\<rparr>, Fail (Sentinel io_EOF))
               else conn_Read pick k (c\<lparr>fRemain := None\<rparr>)
             else (c\<lparr>fRemain := Some remain'\<rparr>, Ret bs))
      | None \<Rightarrow>
          (case rQueue c of
             [] \<Rightarrow> if pClosed (fPipe c) then (c, Fail (Sentinel io_EOF)) else (c, Hang)
           | d # q \<Rightarrow>
               if pClosed (fPipe c) \<and> pick 0 then (c, Fail (Sentinel io_EOF))
               else (case drainLoop pick 1 (pClosed (fPipe c)) q [d] of
                       (q', remain, eof) \<Rightarrow>
                         (let c1 = (setQueue c q')\<lparr>fRemain := Some remain\<rparr> in
                          if eof then (c1, Fail (Sentinel io_EOF)) else conn_Read pick k c1))))"
  by pat_completeness auto
termination
  by (relation "measure (\<lambda>(pick, k, c). 2 * length (rQueue c) + (if fRemain c = None then 0 else 1))")
    (auto dest!: drainLoop_shorter [OF sym])

declare conn_Read.simps [simp del]

subsection \<open>Connect\<close>

text \<open>One iteration of \<open>io.Copy\<close> in the goroutines of \<open>Connect\<close>, with a buffer of 32 KiB: read from \<open>src\<close>, write
  to the other connection by \<open>dWrite\<close>. The flag says that the loop ends; both ends are closed then.\<close>

definition copyStep ::
  "('d \<Rightarrow> byte list \<Rightarrow> 'd \<times> int result) \<Rightarrow> (nat \<Rightarrow> bool) \<Rightarrow> 'd \<Rightarrow> readConn \<Rightarrow> 'd \<times> readConn \<times> bool result" where
  "copyStep dWrite pick dst src =
     (case conn_Read pick 32768 src of
        (src1, Ret bs) \<Rightarrow>
          (case dWrite dst bs of
             (dst1, Ret nw) \<Rightarrow> (dst1, src1, Ret (nw \<noteq> int (length bs)))
           | (dst1, Fail e) \<Rightarrow> (dst1, src1, Ret True)
           | (dst1, Panic s) \<Rightarrow> (dst1, src1, Panic s)
           | (dst1, Hang) \<Rightarrow> (dst1, src1, Hang))
      | (src1, Fail e) \<Rightarrow> (dst, src1, Ret True)
      | (src1, Panic s) \<Rightarrow> (dst, src1, Panic s)
      | (src1, Hang) \<Rightarrow> (dst, src1, Hang))"

subsection \<open>The bytes in flight\<close>

definition pending :: "readConn \<Rightarrow> byte list" where
  "pending c = concat (case fRemain c of None \<Rightarrow> [] | Some r \<Rightarrow> r) @ concat (rQueue c)"

lemma remainRead_bytes: "remainRead k ds = (ds', bs) \<Longrightarrow> concat ds = bs @ concat ds' \<and> length bs \<le> k"
  by (induction k ds rule: remainRead.induct) (auto split: if_splits)

lemma remainRead_empty: "remainRead k ds = (ds', []) \<Longrightarrow> 0 < k \<Longrightarrow> concat ds = []"
  by (induction k ds rule: remainRead.induct) (auto split: if_splits)

text \<open>On an open pipe a read returns the next bytes in flight, at least one and at most as many as fit, and
  it blocks exactly when there are none.\<close>

definition readOk :: "nat \<Rightarrow> readConn \<Rightarrow> readConn \<times> byte list result \<Rightarrow> bool" where
  "readOk k c x \<longleftrightarrow> (case x of (c', r) \<Rightarrow>
     \<not> pClosed (fPipe c') \<and> fWCh c' = fWCh c \<and> fDropping c' = fDropping c
     \<and> pChan (fPipe c') (fWCh c) = pChan (fPipe c) (fWCh c)
     \<and> (if pending c = [] then r = Hang \<and> pending c' = []
        else \<exists>bs. r = Ret bs \<and> bs \<noteq> [] \<and> length bs \<le> k \<and> pending c = bs @ pending c'))"

lemma readOk_cong:
  assumes "readOk k c x" "pending c' = pending c" "fWCh c' = fWCh c" "fDropping c' = fDropping c"
    "pChan (fPipe c') (fWCh c) = pChan (fPipe c) (fWCh c)"
  shows "readOk k c' x"
  using assms by (simp add: readOk_def split: prod.splits)

lemma conn_Read_open:
  assumes "\<not> pClosed (fPipe c)" "0 < k"
  shows "readOk k c (conn_Read pick k c)"
  using assms
proof (induction pick k c rule: conn_Read.induct)
  case (1 pick k c)
  note IH = "1.IH" and open_k = "1.prems"
  show ?case
  proof (cases "fRemain c")
    case (Some remain)
    obtain remain' bs where r: "remainRead k remain = (remain', bs)" by (cases "remainRead k remain")
    show ?thesis
    proof (cases "bs = []")
      case True
      have "concat remain = []" using remainRead_empty r True open_k(2) by blast
      then have p: "pending c = pending (c\<lparr>fRemain := None\<rparr>)" using Some by (simp add: pending_def)
      have "readOk k (c\<lparr>fRemain := None\<rparr>) (conn_Read pick k (c\<lparr>fRemain := None\<rparr>))"
        using IH(2) [OF Some r [symmetric] True open_k(1)] open_k by simp
      then have "readOk k c (conn_Read pick k (c\<lparr>fRemain := None\<rparr>))" by (rule readOk_cong) (simp_all add: p)
      then show ?thesis using Some r True open_k(1) by (simp add: conn_Read.simps [of pick k c])
    next
      case False
      have "pending c = bs @ pending (c\<lparr>fRemain := Some remain'\<rparr>)" "length bs \<le> k"
        using remainRead_bytes [OF r] Some by (simp_all add: pending_def)
      then show ?thesis using Some r False open_k by (simp add: conn_Read.simps [of pick k c] readOk_def)
    qed
  next
    case None
    show ?thesis
    proof (cases "rQueue c")
      case Nil
      then show ?thesis using None open_k by (simp add: conn_Read.simps [of pick k c] pending_def readOk_def)
    next
      case (Cons d q)
      let ?c = "(setQueue c [])\<lparr>fRemain := Some (d # q)\<rparr>"
      have "readOk k ?c (conn_Read pick k ?c)"
        by (rule IH(1) [OF None Cons, of "[]" "(d # q, False)" "d # q" False ?c]) (use open_k in simp_all)
      moreover have "pending c = pending ?c" using None Cons by (simp add: pending_def)
      ultimately have "readOk k c (conn_Read pick k ?c)"
        by (rule readOk_cong) (simp_all add: setQueue_def fRCh_def)
      then show ?thesis using None Cons open_k(1) by (simp add: conn_Read.simps [of pick k c])
    qed
  qed
qed

subsection \<open>Writes and reads in turn\<close>

text \<open>Operations on one direction of an open pipe: writes by the far end, which the handler does not
  detect, and reads by the near end \<open>c\<close>. A run that is not blocked returns the bytes of all its reads.\<close>

datatype pipeOp = PWrite "byte list" | PRead nat

definition farWrite :: "readConn \<Rightarrow> byte list \<Rightarrow> readConn \<times> int result" where
  "farWrite c data =
     (case detectAndCloseConn_Write False \<lparr>fPipe = fPipe c, fWCh = fRCh c, fDropping = False\<rparr> data of
        (w, r) \<Rightarrow> (c\<lparr>fPipe := fPipe w\<rparr>, r))"

fun pipeRun :: "(nat \<Rightarrow> bool) \<Rightarrow> pipeOp list \<Rightarrow> readConn \<Rightarrow> (readConn \<times> byte list) option" where
  "pipeRun pick [] c = Some (c, [])"
| "pipeRun pick (PWrite data # ops) c =
     (case farWrite c data of (c1, Ret n) \<Rightarrow> pipeRun pick ops c1 | _ \<Rightarrow> None)"
| "pipeRun pick (PRead k # ops) c =
     (case conn_Read pick k c of
        (c1, Ret bs) \<Rightarrow> map_option (apsnd ((@) bs)) (pipeRun pick ops c1)
      | _ \<Rightarrow> None)"

fun written :: "pipeOp list \<Rightarrow> byte list" where
  "written [] = []"
| "written (PWrite data # ops) = data @ written ops"
| "written (PRead k # ops) = written ops"

fun positiveReads :: "pipeOp list \<Rightarrow> bool" where
  "positiveReads [] = True"
| "positiveReads (PWrite data # ops) = positiveReads ops"
| "positiveReads (PRead k # ops) = (0 < k \<and> positiveReads ops)"

lemma farWrite_pending:
  assumes "farWrite c data = (c', Ret n)" "\<not> pClosed (fPipe c)"
  shows "pending c' = pending c @ data \<and> \<not> pClosed (fPipe c') \<and> n = int (length data)"
  using assms
  by (auto simp: farWrite_def detectAndCloseConn_Write_def pipeSend_def Let_def pending_def rQueue_def fRCh_def
      split: if_splits option.splits)

lemma pipeRun_stream:
  assumes "pipeRun pick ops c = Some (c', bs)" "positiveReads ops" "\<not> pClosed (fPipe c)"
  shows "pending c @ written ops = bs @ pending c' \<and> \<not> pClosed (fPipe c')"
  using assms
proof (induction ops arbitrary: c bs)
  case (Cons op ops)
  show ?case
  proof (cases op)
    case (PWrite data)
    obtain c1 n where w: "farWrite c data = (c1, Ret n)" "pipeRun pick ops c1 = Some (c', bs)"
      using Cons.prems(1) PWrite by (auto split: prod.splits outcome.splits)
    from farWrite_pending [OF w(1) Cons.prems(3)] Cons.IH [OF w(2)] Cons.prems(2) PWrite show ?thesis by simp
  next
    case (PRead k)
    obtain c1 bs1 bs2 where r: "conn_Read pick k c = (c1, Ret bs1)" "pipeRun pick ops c1 = Some (c', bs2)" "bs = bs1 @ bs2"
      using Cons.prems(1) PRead by (auto split: prod.splits outcome.splits)
    have "readOk k c (c1, Ret bs1)" using conn_Read_open [of c k pick] Cons.prems(2,3) PRead r(1) by simp
    then have "pending c = bs1 @ pending c1" "\<not> pClosed (fPipe c1)" by (auto simp: readOk_def split: if_splits)
    then show ?thesis using Cons.IH [OF r(2)] Cons.prems(2) PRead r(3) by simp
  qed
qed simp

subsection \<open>Properties\<close>

text \<open>C38: an open pipe is a byte stream, as long as no read is into an empty buffer (see
  \<open>empty_read_discards\<close> below). Whatever the sizes of the chunks written at one end and of the non-empty
  buffers read into at the other, and however writes and reads alternate, the bytes read followed by those
  still in flight are the bytes written, in order; and a read into a non-empty buffer neither blocks nor
  fails while bytes are in flight.\<close>

theorem pipe_stream:
  assumes "positiveReads ops" "pipeRun pick ops (fst pipeEnds) = Some (c, bs)" "0 < k"
  shows "bs @ pending c = written ops
    \<and> (pending c \<noteq> [] \<longrightarrow> (\<exists>c' bs'. conn_Read pick k c = (c', Ret bs') \<and> bs' \<noteq> []))"
proof -
  have e: "pending (fst pipeEnds) = []" "\<not> pClosed (fPipe (fst pipeEnds))"
    by (simp_all add: pipeEnds_def newPipe_def pending_def rQueue_def)
  have "bs @ pending c = written ops" "\<not> pClosed (fPipe c)"
    using pipeRun_stream [OF assms(2,1) e(2)] e(1) by simp_all
  then show ?thesis
    using conn_Read_open [of c k pick] assms(3) by (auto simp: readOk_def split: prod.splits if_splits)
qed

theorem pipe_stream_witness:
  "pipeRun (\<lambda>_. False) [PWrite [1, 2, 3], PWrite [4], PRead 2, PRead 2, PRead 2] (fst pipeEnds)
     = Some (\<lparr>fPipe = \<lparr>pChan = (\<lambda>_. []), pClosed = False\<rparr>, fWCh = True, fDropping = False, fRemain = Some [[]]\<rparr>, [1, 2, 3, 4])
   \<and> [1, 2, 3, 4] @ [] = written [PWrite [1, 2, 3], PWrite [4], PRead 2, PRead 2, PRead 2]"
proof -
  let ?ops = "[PWrite [1, 2, 3], PWrite [4], PRead 2, PRead 2, PRead 2]"
  let ?c = "\<lparr>fPipe = \<lparr>pChan = (\<lambda>_. []), pClosed = False\<rparr>, fWCh = True, fDropping = False, fRemain = Some [[]]\<rparr>"
  have u: "(\<lambda>_. [])(x := []) = (\<lambda>_. [] :: byte list list)" "(\<lambda>_. [])(x := v, x := []) = (\<lambda>_. [] :: byte list list)" for x :: bool and v
    by auto
  have run: "pipeRun (\<lambda>_. False) ?ops (fst pipeEnds) = Some (?c, [1, 2, 3, 4])"
    by (simp add: farWrite_def detectAndCloseConn_Write_def pipeSend_def chanCap_def pipeEnds_def newPipe_def fRCh_def
        conn_Read.simps rQueue_def setQueue_def Let_def u)
  have "pending ?c = []" by (simp add: pending_def rQueue_def)
  moreover have "positiveReads ?ops" by simp
  ultimately show ?thesis using pipe_stream [OF _ run, of 1] run by simp
qed

text \<open>Reading into an empty buffer discards what was received but not yet read.\<close>

lemma empty_read_discards:
  assumes "\<not> pClosed (fPipe c)" "fRemain c = Some remain" "rQueue c = []"
  shows "conn_Read pick 0 c = (c\<lparr>fRemain := None\<rparr>, Hang)"
proof -
  obtain remain' bs where r: "remainRead 0 remain = (remain', bs)" by (cases "remainRead 0 remain")
  then have "bs = []" using remainRead_bytes by fastforce
  then show ?thesis using assms r by (simp add: conn_Read.simps [of pick 0])
qed

end
