(* ===== verification/Dialer.thy ===== *)
theory Dialer
  imports Client
begin

text \<open>
  \<open>dialer.go\<close>: from a URL and options to a base client on a transport.

  The libraries that the code calls (\<open>net/url\<close>, \<open>net\<close>, \<open>crypto/tls\<close>, \<open>crypto/x509\<close>, \<open>io/ioutil\<close> and the
  websocket package) are the fields of the record \<open>dialEnv\<close>, an argument of the definitions; nothing is
  assumed of them. Connections, net dialers, certificate pools and certificates are type parameters.
\<close>

record URL =
  uScheme :: gostring
  uHost :: gostring
  uHostname :: gostring
  uPort :: gostring
  uString :: gostring

record ('pool, 'cert) tlsConfig =
  ServerName :: gostring
  RootCAs :: "'pool option"
  Certificates :: "'cert list"

record ('w, 'pool, 'cert) wsConfig =
  wsBase :: 'w
  wsProtocol :: "gostring list"
  wsTlsConfig :: "('pool, 'cert) tlsConfig option"

record ('conn, 'nd, 'pool, 'cert, 'w) dialEnv =
  url_Parse :: "gostring \<Rightarrow> URL result"
  net_Dial :: "'nd \<Rightarrow> gostring \<Rightarrow> 'conn result"
  tls_Client :: "'conn \<Rightarrow> ('pool, 'cert) tlsConfig option \<Rightarrow> 'conn"
  ws_NewConfig :: "gostring \<Rightarrow> gostring \<Rightarrow> ('w, 'pool, 'cert) wsConfig result"
  ws_NewClient :: "('w, 'pool, 'cert) wsConfig \<Rightarrow> 'conn \<Rightarrow> 'conn result"
  ws_binary :: "'conn \<Rightarrow> 'conn"
  ioutil_ReadFile :: "gostring \<Rightarrow> byte list result"
  x509_pool :: "byte list \<Rightarrow> 'pool"
  tls_LoadX509KeyPair :: "gostring \<Rightarrow> gostring \<Rightarrow> 'cert result"

subsection \<open>Options\<close>

record ('nd, 'pool, 'cert, 'cs) DialOptions =
  dDialer :: "'nd option"
  dTLSConfig :: "('pool, 'cert) tlsConfig option"
  dConnState :: "'cs option"
  dMaxPayloadLen :: int

type_synonym ('nd, 'pool, 'cert, 'cs) DialOption =
  "('nd, 'pool, 'cert, 'cs) DialOptions \<Rightarrow> ('nd, 'pool, 'cert, 'cs) DialOptions result"

definition WithDialer :: "'nd option \<Rightarrow> ('nd, 'pool, 'cert, 'cs) DialOption" where
  "WithDialer dialer o' = Ret (o'\<lparr>dDialer := dialer\<rparr>)"

definition WithTLSConfig :: "('pool, 'cert) tlsConfig option \<Rightarrow> ('nd, 'pool, 'cert, 'cs) DialOption" where
  "WithTLSConfig config o' = Ret (o'\<lparr>dTLSConfig := config\<rparr>)"

definition emptyTLS :: "('pool, 'cert) tlsConfig" where
  "emptyTLS = \<lparr>ServerName = [], RootCAs = None, Certificates = []\<rparr>"

definition WithTLSCertFiles ::
  "('conn, 'nd, 'pool, 'cert, 'w) dialEnv \<Rightarrow> gostring \<Rightarrow> gostring \<Rightarrow> gostring \<Rightarrow> gostring
     \<Rightarrow> ('nd, 'pool, 'cert, 'cs) DialOption" where
  "WithTLSCertFiles env host caFile certFile privateKeyFile o' =
     bindO (ioutil_ReadFile env caFile) (\<lambda>cas.
     bindO (tls_LoadX509KeyPair env certFile privateKeyFile) (\<lambda>cert.
       let config = (case dTLSConfig o' of None \<Rightarrow> emptyTLS | Some t \<Rightarrow> t)
       in Ret (o'\<lparr>dTLSConfig := Some (config\<lparr>ServerName := host, RootCAs := Some (x509_pool env cas), Certificates := [cert]\<rparr>)\<rparr>)))"

definition WithMaxPayloadLen :: "int \<Rightarrow> ('nd, 'pool, 'cert, 'cs) DialOption" where
  "WithMaxPayloadLen l o' = Ret (o'\<lparr>dMaxPayloadLen := l\<rparr>)"

definition WithConnStateHandler :: "'cs option \<Rightarrow> ('nd, 'pool, 'cert, 'cs) DialOption" where
  "WithConnStateHandler handler o' = Ret (o'\<lparr>dConnState := handler\<rparr>)"

fun applyDialOptions :: "('nd, 'pool, 'cert, 'cs) DialOption list \<Rightarrow> ('nd, 'pool, 'cert, 'cs) DialOption" where
  "applyDialOptions [] o' = Ret o'"
| "applyDialOptions (opt # opts) o' = bindO (opt o') (applyDialOptions opts)"

subsection \<open>Dialing\<close>

definition defaultPorts :: "gostring \<rightharpoonup> nat" where
  "defaultPorts = [str ''mqtt'' \<mapsto> 1883, str ''mqtts'' \<mapsto> 8883, str ''wss'' \<mapsto> 443, str ''ws'' \<mapsto> 80]"

definition supportedSchemes :: "gostring list" where
  "supportedSchemes = map str [''tcp'', ''mqtt'', ''tls'', ''ssl'', ''mqtts'', ''wss'', ''ws'']"

definition tlsSchemes :: "gostring list" where
  "tlsSchemes = map str [''tls'', ''ssl'', ''mqtts'', ''wss'']"

definition hostWithPort :: "URL \<Rightarrow> gostring" where
  "hostWithPort u =
     (if uPort u = []
      then (case defaultPorts (uScheme u) of
              Some port \<Rightarrow> uHost u @ str '':'' @ str (fmt_int 10 (int port))
            | None \<Rightarrow> uHost u)
      else uHost u)"

definition wrapFail :: "string \<Rightarrow> 'a result \<Rightarrow> 'a result" where
  "wrapFail failure r = (case r of Fail e \<Rightarrow> Fail (wrapE e failure) | _ \<Rightarrow> r)"

text \<open>The second \<open>switch\<close> of \<open>dial\<close>, with its \<open>fallthrough\<close> from \<open>wss\<close> to \<open>ws\<close>.\<close>

definition dialWebsocket ::
  "('conn, 'nd, 'pool, 'cert, 'w) dialEnv \<Rightarrow> ('pool, 'cert) tlsConfig option \<Rightarrow> URL \<Rightarrow> 'conn \<Rightarrow> 'conn result" where
  "dialWebsocket env tls u baseConn =
     bindO (wrapFail ''configuring websocket'' (ws_NewConfig env (uString u) (str ''https://'' @ uHost u))) (\<lambda>wsc.
     bindO (wrapFail ''dialing websocket''
        (ws_NewClient env (wsc\<lparr>wsProtocol := wsProtocol wsc @ [str ''mqtt''], wsTlsConfig := tls\<rparr>) baseConn)) (\<lambda>ws.
       Ret (ws_binary env ws)))"

definition dialTransport ::
  "('conn, 'nd, 'pool, 'cert, 'w) dialEnv \<Rightarrow> ('pool, 'cert) tlsConfig option \<Rightarrow> URL \<Rightarrow> 'conn \<Rightarrow> 'conn result" where
  "dialTransport env tls u baseConn =
     (if uScheme u \<in> set (map str [''tcp'', ''mqtt'']) then Ret baseConn
      else if uScheme u \<in> set (map str [''tls'', ''ssl'', ''mqtts'']) then Ret (tls_Client env baseConn tls)
      else if uScheme u = str ''wss'' then dialWebsocket env tls u (tls_Client env baseConn tls)
      else dialWebsocket env tls u baseConn)"

text \<open>\<open>dial\<close> returns the client with its state callback; calling a method of a nil \<open>net.Dialer\<close> panics.\<close>

definition dial ::
  "('conn, 'nd, 'pool, 'cert, 'w) dialEnv \<Rightarrow> ('nd, 'pool, 'cert, 'cs) DialOptions \<Rightarrow> URL
     \<Rightarrow> (('conn, 'h) BaseClient \<times> 'cs option) result" where
  "dial env d u =
     (if uScheme u \<notin> set supportedSchemes
      then Fail (wrapE (Sentinel ErrUnsupportedProtocol) (''protocol '' @ map (\<lambda>b. char_of (unat b)) (uScheme u)))
      else case dDialer d of
             None \<Rightarrow> Panic ''invalid memory address or nil pointer dereference''
           | Some nd \<Rightarrow>
               bindO (wrapFail ''dialing tcp'' (net_Dial env nd (hostWithPort u))) (\<lambda>baseConn.
               bindO (dialTransport env (dTLSConfig d) u baseConn) (\<lambda>t.
                 Ret ((newClient t)\<lparr>MaxPayloadLen := dMaxPayloadLen d\<rparr>, dConnState d))))"

text \<open>The options before those of the caller: \<open>nd0\<close> is \<open>&net.Dialer{}\<close>.\<close>

definition initialOptions :: "'nd \<Rightarrow> URL \<Rightarrow> ('nd, 'pool, 'cert, 'cs) DialOptions" where
  "initialOptions nd0 u = \<lparr>dDialer = Some nd0,
     dTLSConfig = (if uScheme u \<in> set tlsSchemes then Some (emptyTLS\<lparr>ServerName := uHostname u\<rparr>) else None),
     dConnState = None, dMaxPayloadLen = 0\<rparr>"

definition DialContext ::
  "('conn, 'nd, 'pool, 'cert, 'w) dialEnv \<Rightarrow> 'nd \<Rightarrow> gostring \<Rightarrow> ('nd, 'pool, 'cert, 'cs) DialOption list
     \<Rightarrow> (('conn, 'h) BaseClient \<times> 'cs option) result" where
  "DialContext env nd0 urlStr opts =
     bindO (url_Parse env urlStr) (\<lambda>u.
     bindO (applyDialOptions opts (initialOptions nd0 u)) (\<lambda>o'.
       dial env o' u))"

record ('nd, 'pool, 'cert, 'cs) URLDialer =
  dURL :: gostring
  dOptions :: "('nd, 'pool, 'cert, 'cs) DialOption list"

definition URLDialer_DialContext ::
  "('conn, 'nd, 'pool, 'cert, 'w) dialEnv \<Rightarrow> 'nd \<Rightarrow> ('nd, 'pool, 'cert, 'cs) URLDialer
     \<Rightarrow> (('conn, 'h) BaseClient \<times> 'cs option) result" where
  "URLDialer_DialContext env nd0 d = DialContext env nd0 (dURL d) (dOptions d)"

text \<open>A function as a dialer, and the wrapper of a dialer without a context, which ignores the context.\<close>

definition DialerFunc_DialContext :: "('ctx \<Rightarrow> 'a result) \<Rightarrow> 'ctx \<Rightarrow> 'a result" where
  "DialerFunc_DialContext d ctx = d ctx"

definition NoContextDialer_DialContext :: "(unit \<Rightarrow> 'a result) \<Rightarrow> 'ctx \<Rightarrow> 'a result" where
  "NoContextDialer_DialContext Dial ctx = Dial ()"

text \<open>\<open>BaseClientStoreDialer\<close> around the dialer whose result is \<open>r\<close>; on an error the stored client is nil.\<close>

record 'a BaseClientStoreDialer =
  baseClient :: "'a option"

definition storeDialer_DialContext :: "'a result \<Rightarrow> 'a BaseClientStoreDialer \<Rightarrow> 'a BaseClientStoreDialer \<times> 'a result" where
  "storeDialer_DialContext r d = (case r of
       Ret cli \<Rightarrow> (d\<lparr>baseClient := Some cli\<rparr>, r)
     | Fail err \<Rightarrow> (d\<lparr>baseClient := None\<rparr>, r)
     | _ \<Rightarrow> (d, r))"

definition storeDialer_BaseClient :: "'a BaseClientStoreDialer \<Rightarrow> 'a option" where
  "storeDialer_BaseClient d = baseClient d"

subsection \<open>Properties\<close>

lemma wrapFail_Ret_iff [simp]: "wrapFail f r = Ret x \<longleftrightarrow> r = Ret x"
  by (cases r) (simp_all add: wrapFail_def)

lemmas scheme_simps = tlsSchemes_def supportedSchemes_def str_def

lemma DialContext_RetE:
  assumes "DialContext env nd0 urlStr opts = Ret (c, cs)"
  obtains u o' nd base t where "url_Parse env urlStr = Ret u" "applyDialOptions opts (initialOptions nd0 u) = Ret o'"
    "uScheme u \<in> set supportedSchemes" "dDialer o' = Some nd" "net_Dial env nd (hostWithPort u) = Ret base"
    "dialTransport env (dTLSConfig o') u base = Ret t" "c = (newClient t)\<lparr>MaxPayloadLen := dMaxPayloadLen o'\<rparr>" "cs = dConnState o'"
  using assms
  by (auto simp: DialContext_def dial_def bindO_eq_Ret_iff split: if_splits option.splits)

text \<open>C39: a client dialed with an encrypted scheme never talks to the network in the clear. Its transport is
  a TLS client, or for \<open>wss\<close> a websocket over a TLS client, around the network connection, with the TLS
  configuration that the options leave; that starts as one for the host name of the URL. With the
  other schemes there is no TLS layer.\<close>

theorem encrypted_schemes_use_tls:
  assumes "DialContext env nd0 urlStr opts = Ret (c, cs)" "url_Parse env urlStr = Ret u"
  shows "\<exists>o' nd base. applyDialOptions opts (initialOptions nd0 u) = Ret o'
    \<and> dTLSConfig (initialOptions nd0 u) = (if uScheme u \<in> set tlsSchemes then Some (emptyTLS\<lparr>ServerName := uHostname u\<rparr>) else None)
    \<and> dDialer o' = Some nd \<and> net_Dial env nd (hostWithPort u) = Ret base
    \<and> (if uScheme u = str ''wss'' then \<exists>wsc ws. ws_NewClient env wsc (tls_Client env base (dTLSConfig o')) = Ret ws
           \<and> str ''mqtt'' \<in> set (wsProtocol wsc) \<and> Transport c = ws_binary env ws
       else if uScheme u = str ''ws'' then \<exists>wsc ws. ws_NewClient env wsc base = Ret ws
           \<and> str ''mqtt'' \<in> set (wsProtocol wsc) \<and> Transport c = ws_binary env ws
       else if uScheme u \<in> set tlsSchemes then Transport c = tls_Client env base (dTLSConfig o')
       else Transport c = base)"
proof (rule DialContext_RetE [OF assms(1)])
  fix u' o' nd base t
  assume d: "url_Parse env urlStr = Ret u'" "applyDialOptions opts (initialOptions nd0 u') = Ret o'"
    "uScheme u' \<in> set supportedSchemes" "dDialer o' = Some nd" "net_Dial env nd (hostWithPort u') = Ret base"
    "dialTransport env (dTLSConfig o') u' base = Ret t" "c = (newClient t)\<lparr>MaxPayloadLen := dMaxPayloadLen o'\<rparr>"
  have u: "u' = u" using d(1) assms(2) by simp
  have ws: "\<exists>wsc ws. ws_NewClient env wsc b = Ret ws \<and> str ''mqtt'' \<in> set (wsProtocol wsc) \<and> t = ws_binary env ws"
    if "dialWebsocket env (dTLSConfig o') u b = Ret t" for b
    using that by (fastforce simp: dialWebsocket_def bindO_eq_Ret_iff)
  have "if uScheme u = str ''wss'' then \<exists>wsc ws. ws_NewClient env wsc (tls_Client env base (dTLSConfig o')) = Ret ws
           \<and> str ''mqtt'' \<in> set (wsProtocol wsc) \<and> t = ws_binary env ws
       else if uScheme u = str ''ws'' then \<exists>wsc ws. ws_NewClient env wsc base = Ret ws
           \<and> str ''mqtt'' \<in> set (wsProtocol wsc) \<and> t = ws_binary env ws
       else if uScheme u \<in> set tlsSchemes then t = tls_Client env base (dTLSConfig o')
       else t = base"
    using d(3,6) ws [of "tls_Client env base (dTLSConfig o')"] ws [of base] unfolding u
    by (auto simp: dialTransport_def scheme_simps split: if_splits)
  then show ?thesis using d u by (intro exI [of _ o'] exI [of _ nd] exI [of _ base]) (simp add: initialOptions_def)
qed

text \<open>Connections as terms, which record how they were made.\<close>

datatype demoConn = Net gostring | TLS demoConn "(unit, unit) tlsConfig option" | WS demoConn

abbreviation demoURL :: URL where
  "demoURL \<equiv> \<lparr>uScheme = str ''mqtts'', uHost = str ''broker'', uHostname = str ''broker'', uPort = [], uString = str ''mqtts://broker''\<rparr>"

abbreviation demoEnv :: "(demoConn, unit, unit, unit, unit) dialEnv" where
  "demoEnv \<equiv> \<lparr>url_Parse = (\<lambda>s. Ret demoURL), net_Dial = (\<lambda>nd a. Ret (Net a)), tls_Client = TLS,
     ws_NewConfig = (\<lambda>a b. Ret \<lparr>wsBase = (), wsProtocol = [], wsTlsConfig = None\<rparr>), ws_NewClient = (\<lambda>w c. Ret (WS c)),
     ws_binary = (\<lambda>c. c), ioutil_ReadFile = (\<lambda>f. Fail (External 0)), x509_pool = (\<lambda>b. ()),
     tls_LoadX509KeyPair = (\<lambda>f k. Fail (External 0))\<rparr>"

theorem encrypted_schemes_use_tls_witness:
  "\<exists>cfg a. Transport (fst (case DialContext demoEnv () (str ''mqtts://broker'') [] of Ret x \<Rightarrow> (x :: (demoConn, unit) BaseClient \<times> unit option)))
     = TLS (Net a) cfg"
proof -
  obtain c cs where c: "DialContext demoEnv () (str ''mqtts://broker'') [] = Ret (c :: (demoConn, unit) BaseClient, cs :: unit option)"
    by (simp add: DialContext_def dial_def dialTransport_def initialOptions_def scheme_simps wrapFail_def)
  from encrypted_schemes_use_tls [OF c, of demoURL] c show ?thesis by (auto simp: scheme_simps)
qed

text \<open>The address that is dialed has a port whenever the URL has one or its scheme has a default.\<close>

lemma hostWithPort_default:
  assumes "uPort u = []" "uScheme u = str s" "s \<in> {''mqtt'', ''mqtts'', ''ws'', ''wss''}"
  shows "hostWithPort u = uHost u @ str (if s = ''mqtt'' then '':1883'' else if s = ''mqtts'' then '':8883''
      else if s = ''ws'' then '':80'' else '':443'')"
proof -
  have "fmt_int 10 1883 = ''1883''" "fmt_int 10 8883 = ''8883''" "fmt_int 10 80 = ''80''" "fmt_int 10 443 = ''443''"
    by (simp_all add: fmt_int_def digits_in.simps)
  then show ?thesis using assms by (auto simp: hostWithPort_def defaultPorts_def str_def)
qed

text \<open>After any dials through a \<open>BaseClientStoreDialer\<close> that returned, \<open>BaseClient\<close> is the client of the last
  one, or nil if it failed: a client of an earlier dial is not kept.\<close>

lemma storeDialer_last:
  assumes "rs \<noteq> []" "is_Ret (last rs) \<or> (\<exists>e. last rs = Fail e)"
  shows "storeDialer_BaseClient (fold (\<lambda>r d. fst (storeDialer_DialContext r d)) rs d)
    = (case last rs of Ret cli \<Rightarrow> Some cli | _ \<Rightarrow> None)"
proof -
  obtain rs' r where "rs = rs' @ [r]" using assms(1) by (cases rs rule: rev_cases) auto
  with assms(2) show ?thesis
    by (cases r) (auto simp: storeDialer_BaseClient_def storeDialer_DialContext_def)
qed

text \<open>An unsupported scheme is refused before anything is dialed.\<close>

lemma dial_unsupported:
  assumes "uScheme u \<notin> set supportedSchemes"
  shows "\<exists>f. dial env d u = Fail (wrapE (Sentinel ErrUnsupportedProtocol) f)"
  unfolding dial_def using assms by auto

text \<open>\<open>WithTLSConfig\<close> replaces the whole configuration, the server name of the URL included.\<close>

lemma withTLSConfig_drops_serverName:
  "applyDialOptions [WithTLSConfig config] (initialOptions nd0 u) = Ret ((initialOptions nd0 u)\<lparr>dTLSConfig := config\<rparr>)"
  by (simp add: WithTLSConfig_def)

end
