(* ===== verification/EndToEnd.thy ===== *)
theory EndToEnd
  imports System
begin

text \<open>
  A publishing client and a receiving client joined by the wire: the bytes that \<open>Publish\<close> writes on one
  side are what the serve loop reads on the other. The broker between two clients forwards PUBLISH
  packets in the same way; here the second client stands for it.
\<close>

subsection \<open>Publishing a list of messages\<close>

text \<open>Calls of \<open>Publish\<close> one after the other, each in a goroutine of its own when it waits. The result is
  the client and the messages as they were sent.\<close>

fun publishAll ::
  "('t \<Rightarrow> byte list \<Rightarrow> 't \<times> int result) \<Rightarrow> ('t, 'h) BaseClient \<Rightarrow> Message list \<Rightarrow> ('t, 'h) BaseClient \<times> Message list" where
  "publishAll tWrite c [] = (c, [])"
| "publishAll tWrite c (m # ms) =
     (case Publish tWrite c m of (c1, m', p) \<Rightarrow> (case publishAll tWrite c1 ms of (c2, ms') \<Rightarrow> (c2, m' # ms')))"

definition asSent :: "Message \<Rightarrow> Message \<Rightarrow> bool" where
  "asSent m m' \<longleftrightarrow> m' = m\<lparr>mID := mID m', mDup := False\<rparr> \<and> mID m' \<noteq> 0 \<and> (mID m \<noteq> 0 \<longrightarrow> mID m' = mID m)"

lemma asSent_same:
  assumes "asSent m m'"
  shows "mTopic m' = mTopic m" "mQoS m' = mQoS m" "mRetain m' = mRetain m" "mPayload m' = mPayload m"
proof -
  have m': "m' = m\<lparr>mID := mID m', mDup := False\<rparr>" using assms unfolding asSent_def by blast
  show "mTopic m' = mTopic m" "mQoS m' = mQoS m" "mRetain m' = mRetain m" "mPayload m' = mPayload m"
    by (subst m', simp)+
qed

lemma Publish_accepts:
  assumes "accepts_all tWrite tlog" "publishable m" "ValidateMessage c m = Ret ()" "sig c \<noteq> None"
  shows "\<exists>c' m' p b. Publish tWrite c m = (c', m', p) \<and> pktPublish_Pack m' = Ret b \<and> publishable m' \<and> asSent m m'
    \<and> tlog (Transport c') = tlog (Transport c) @ [b] \<and> sig c' \<noteq> None \<and> MaxPayloadLen c' = MaxPayloadLen c"
proof -
  obtain c1 m1 where a: "publishAssign c m False = (c1, m1)" by (cases "publishAssign c m False")
  obtain l where c1: "c1 = c\<lparr>idLast := l\<rparr>" using publishAssign_cases(4) [OF a] by blast
  then obtain s where s: "sig c1 = Some s" using assms(4) by auto
  have m1: "m1\<lparr>mDup := False\<rparr> = m1" by (subst (1 2) publishAssign_cases(1) [OF a]) simp
  have pub: "publishable m1"
    using assms(2) by (subst publishAssign_cases(1) [OF a]) (simp add: publishable_def)
  obtain c2 nxt where r: "publishRegister c1 s m1 = (c2, nxt)" by (cases "publishRegister c1 s m1")
  then have c2: "sig c2 \<noteq> None" "MaxPayloadLen c2 = MaxPayloadLen c"
    using s c1 by (auto simp: publishRegister_def makeChan_def split: if_splits)
  have "publishImpl tWrite c m False = publishImpl tWrite c1 m1 False"
    using a publishAssign_cases(2) [OF a] m1 by (simp add: publishImpl_def publishAssign_def)
  moreover obtain b t' where "pktPublish_Pack m1 = Ret b" "tlog t' = tlog (Transport c1) @ [b]"
      "publishImpl tWrite c1 m1 False = (c2\<lparr>Transport := t'\<rparr>, m1, nxt)"
    using publishImpl_accepts [OF assms(1) pub publishAssign_cases(2) [OF a] s, of False c2 nxt] r m1 by auto
  ultimately show ?thesis
    using assms(3) pub c1 c2 publishAssign_cases(1-3) [OF a]
    by (intro exI [of _ "c2\<lparr>Transport := t'\<rparr>"] exI [of _ m1] exI [of _ nxt] exI [of _ b])
      (auto simp: Publish_def asSent_def)
qed

lemma ValidateMessage_cong: "MaxPayloadLen c' = MaxPayloadLen c \<Longrightarrow> ValidateMessage c' m = ValidateMessage c m"
  by (simp add: ValidateMessage_def)

lemma publishAll_accepts:
  assumes "accepts_all tWrite tlog" "list_all publishable ms" "list_all (\<lambda>m. ValidateMessage c m = Ret ()) ms" "sig c \<noteq> None"
  shows "\<exists>c' ms' pkts. publishAll tWrite c ms = (c', ms') \<and> map pktPublish_Pack ms' = map Ret pkts
    \<and> list_all publishable ms' \<and> list_all2 asSent ms ms' \<and> tlog (Transport c') = tlog (Transport c) @ pkts"
  using assms(2-)
proof (induction ms arbitrary: c)
  case (Cons m ms)
  obtain c1 m' p b where 1: "Publish tWrite c m = (c1, m', p)" "pktPublish_Pack m' = Ret b" "publishable m'" "asSent m m'"
      "tlog (Transport c1) = tlog (Transport c) @ [b]" "sig c1 \<noteq> None" "MaxPayloadLen c1 = MaxPayloadLen c"
    using Publish_accepts [OF assms(1), of m c] Cons.prems by auto
  have "list_all (\<lambda>m. ValidateMessage c1 m = Ret ()) ms"
    using Cons.prems(2) ValidateMessage_cong [OF 1(7)] by (simp add: list_all_iff)
  then obtain c2 ms' pkts where "publishAll tWrite c1 ms = (c2, ms')" "map pktPublish_Pack ms' = map Ret pkts"
      "list_all publishable ms'" "list_all2 asSent ms ms'" "tlog (Transport c2) = tlog (Transport c1) @ pkts"
    using Cons.IH [of c1] Cons.prems(1) 1(6) by auto
  with 1 show ?case
    by (intro exI [of _ c2] exI [of _ "m' # ms'"] exI [of _ "b # pkts"]) simp
qed simp

text \<open>What the receiver delivers and answers on a stream of PUBLISH packets.\<close>

definition publishAnswer :: "Message \<Rightarrow> byte list result list" where
  "publishAnswer m =
     (if mQoS m = QoS0 then [] else if mQoS m = QoS1 then [pktPubAck_Pack (mID m)] else [pktPubRec_Pack (mID m)])"

definition storeAll :: "Message list \<Rightarrow> (uint16 \<rightharpoonup> Message) \<Rightarrow> (uint16 \<rightharpoonup> Message)" where
  "storeAll ms b = fold (\<lambda>m b. if mQoS m = QoS2 then b(mID m \<mapsto> m) else b) ms b"

lemma heard_publishes: "heard b (map InPublish ms) = map InPublish ms"
  by (induction ms arbitrary: b) auto

lemma receiver_publishes:
  "list_all publishable ms \<Longrightarrow>
     receiver b (map InPublish ms)
       = (storeAll ms b, map publishNorm (filter (\<lambda>m. mQoS m \<noteq> QoS2) ms), concat (map publishAnswer ms))"
proof (induction ms arbitrary: b)
  case Nil
  show ?case by (simp add: storeAll_def)
next
  case (Cons m ms)
  then have "mQoS m \<in> {QoS0, QoS1, QoS2}" by (simp add: publishable_def)
  then have "recvStep b (InPublish m)
      = (storeAll [m] b, map publishNorm (filter (\<lambda>m. mQoS m \<noteq> QoS2) [m]), publishAnswer m)"
    by (auto simp: publishAnswer_def publishNorm_def storeAll_def QoS_distinct)
  moreover have "receiver (storeAll [m] b) (map InPublish ms)
      = (storeAll ms (storeAll [m] b), map publishNorm (filter (\<lambda>m. mQoS m \<noteq> QoS2) ms), concat (map publishAnswer ms))"
    using Cons by auto
  ultimately show ?case by (simp add: storeAll_def)
qed

subsection \<open>One packet of the loop\<close>

text \<open>One iteration of the loop of \<open>serve\<close>, on the bytes of one packet.\<close>

definition serveOne ::
  "('t \<Rightarrow> byte list \<Rightarrow> 't \<times> int result) \<Rightarrow> ('h \<Rightarrow> Message \<Rightarrow> 's \<Rightarrow> 's) \<Rightarrow> byte list \<Rightarrow> ('t, 'h, 's) serveState
     \<Rightarrow> ('t, 'h, 's) serveState \<times> unit result" where
  "serveOne tWrite hServe bs st =
     (case readPacket \<lparr>rBytes = bs, rEnd = Sentinel io_EOF\<rparr> of
        Ret (pktType, pktFlag, contents, r') \<Rightarrow> servePacket tWrite hServe pktType pktFlag contents st
      | Fail err \<Rightarrow> (st, Fail err)
      | Panic s \<Rightarrow> (st, Panic s)
      | Hang \<Rightarrow> (st, Hang))"

lemma serve_serveOne:
  assumes "readPacket \<lparr>rBytes = bs, rEnd = Sentinel io_EOF\<rparr> = Ret (ty, fl, contents, \<lparr>rBytes = [], rEnd = Sentinel io_EOF\<rparr>)"
    and "serveOne tWrite hServe bs st = (st', Ret ())"
  shows "serve tWrite hServe \<lparr>rBytes = bs, rEnd = Sentinel io_EOF\<rparr> st = (st', Fail (Sentinel io_EOF))"
  using assms by (simp add: serve.simps [of tWrite hServe "\<lparr>rBytes = bs, rEnd = Sentinel io_EOF\<rparr>"] serveOne_def serve_end)

lemma serveOne_reads:
  assumes "\<exists>bs flag contents. pkt = Ret bs
      \<and> readPacket \<lparr>rBytes = bs @ [], rEnd = Sentinel io_EOF\<rparr> = Ret (ty, flag, contents, \<lparr>rBytes = [], rEnd = Sentinel io_EOF\<rparr>)
      \<and> Parse flag contents = Ret v"
    and "pkt = Ret bs"
  shows "\<exists>flag contents. Parse flag contents = Ret v
    \<and> serveOne tWrite hServe bs st = servePacket tWrite hServe ty flag contents st"
  using assms by (fastforce simp: serveOne_def)

text \<open>The receiving side of the QoS 2 handshake: PUBLISH is stored and answered, PUBREL is delivered and
  answered.\<close>

lemma receive_publish2:
  assumes "accepts_all tWrite tlog" "publishable m" "mQoS m = QoS2" "pktPublish_Pack m = Ret pub"
    and "sig (scli st) \<noteq> None" "bHandler (scli st) = Some h"
  shows "\<exists>st1 rec. serveOne tWrite hServe pub st = (st1, Ret ()) \<and> pktPubRec_Pack (mID m) = Ret rec
     \<and> tlog (Transport (scli st1)) = tlog (Transport (scli st)) @ [rec] \<and> hstate st1 = hstate st
     \<and> subBuffer st1 = (subBuffer st)(mID m \<mapsto> m) \<and> sig (scli st1) \<noteq> None \<and> bHandler (scli st1) = Some h"
proof -
  have m: "publishNorm m = m" using assms(3) by (simp add: publishNorm_def QoS_distinct)
  have rd: "serveOne tWrite hServe pub st = servePublish tWrite hServe (publishNorm m) st"
    using serveOne_reads [OF publish.transmit [OF assms(2)] assms(4), of tWrite hServe st] servePacket_dispatch(1) by metis
  have "mQoS m \<in> {QoS0, QoS1, QoS2}" using assms(3) by simp
  from servePublish_advances [OF assms(1) this assms(5,6), of hServe] rd assms(3)
  show ?thesis by (auto simp: m advances_def QoS_distinct map_eq_Cons_conv)
qed

lemma receive_pubrel:
  assumes "accepts_all tWrite tlog" "pktPubRel_Pack (mID m) = Ret rel" "subBuffer st (mID m) = Some m"
    and "sig (scli st) \<noteq> None" "bHandler (scli st) = Some h"
  shows "\<exists>st1 comp. serveOne tWrite hServe rel st = (st1, Ret ()) \<and> pktPubComp_Pack (mID m) = Ret comp
     \<and> tlog (Transport (scli st1)) = tlog (Transport (scli st)) @ [comp] \<and> hstate st1 = hServe h m (hstate st)
     \<and> subBuffer st1 = (subBuffer st)(mID m := None)"
proof -
  have "serveOne tWrite hServe rel st = servePubRel tWrite hServe (mID m) st"
    using serveOne_reads [OF pubRel.transmit [OF TrueI] assms(2), of tWrite hServe st] servePacket_dispatch(2) by metis
  with servePubRel_advances [OF assms(1,4,5), of hServe "mID m"] assms(3)
  show ?thesis by (auto simp: advances_def map_eq_Cons_conv)
qed

subsection \<open>Properties\<close>

text \<open>C6: what one client publishes, another one that reads the bytes hands to its handler. The publisher is
  connected and every message is accepted by \<open>Publish\<close> and fits in a packet with a valid topic
  (\<open>publishable\<close>; \<open>Publish\<close> does not check the topic); the receiver is connected and has a handler; both
  transports accept every write. Then the serve loop that reads the written bytes hands the messages of
  QoS 0 and 1 to the handler, in the order in which they were published, unchanged but for the identifier
  and the DUP flag; it keeps those of QoS 2 in its store, under their identifiers, until their PUBREL (which
  this run does not contain); and it writes the acknowledgement of each message of QoS 1 and 2 in the same
  order.\<close>

theorem published_reach_handler:
  assumes "accepts_all pWrite plog" "list_all publishable ms" "list_all (\<lambda>m. ValidateMessage c m = Ret ()) ms"
    and "sig c \<noteq> None" "plog (Transport c) = []"
    and "accepts_all tWrite tlog" "sig (scli st) \<noteq> None" "bHandler (scli st) = Some h"
  shows "\<exists>c' ms' st' pkts. publishAll pWrite c ms = (c', ms') \<and> list_all2 asSent ms ms'
    \<and> serve tWrite hServe \<lparr>rBytes = concat (plog (Transport c')), rEnd = x\<rparr> st = (st', Fail x)
    \<and> hstate st' = fold (hServe h) (map publishNorm (filter (\<lambda>m. mQoS m \<noteq> QoS2) ms')) (hstate st)
    \<and> subBuffer st' = storeAll ms' (subBuffer st)
    \<and> concat (map publishAnswer ms') = map Ret pkts
    \<and> tlog (Transport (scli st')) = tlog (Transport (scli st)) @ pkts"
proof -
  obtain c' ms' bss where p: "publishAll pWrite c ms = (c', ms')" "map pktPublish_Pack ms' = map Ret bss"
      "list_all publishable ms'" "list_all2 asSent ms ms'" "plog (Transport c') = bss"
    using publishAll_accepts [OF assms(1-4)] assms(5) by auto
  have "list_all inOk (map InPublish ms')" "map inBytes (map InPublish ms') = map Ret bss"
    using p(2,3) by (simp_all add: list.pred_map comp_def)
  from serve_receiver [OF assms(6) this assms(7,8), of hServe "[]" x] receiver_publishes [OF p(3), of "subBuffer st"]
  show ?thesis using p(1,4,5) by (auto simp: serve_end advances_def heard_publishes)
qed

theorem published_reach_handler_witness:
  "\<exists>c' m0 m1 st'. publishAll logWrite demoClient [demoMessage 0, demoMessage 1] = (c', [m0, m1])
    \<and> serve logWrite (\<lambda>h m s. s @ [m]) \<lparr>rBytes = concat (Transport c'), rEnd = Sentinel io_EOF\<rparr>
        \<lparr>scli = demoClient, subBuffer = Map.empty, hstate = []\<rparr> = (st', Fail (Sentinel io_EOF))
    \<and> map mPayload (hstate st') = [[1, 2], [1, 2]]"
proof -
  let ?ms = "[demoMessage 0, demoMessage 1]"
  let ?st = "\<lparr>scli = demoClient, subBuffer = Map.empty, hstate = []\<rparr>"
  have ms: "list_all publishable ?ms" "list_all (\<lambda>m. ValidateMessage demoClient m = Ret ()) ?ms"
    using demo_publishable [of 0] demo_publishable [of 1] by (simp_all add: ValidateMessage_def QoS_defs)
  have c: "sig demoClient \<noteq> None" "Transport demoClient = []" "sig (scli ?st) \<noteq> None" "bHandler (scli ?st) = Some ()"
    by simp_all
  from published_reach_handler [OF demo_accepts ms c(1,2) demo_accepts c(3,4), of "\<lambda>h m s. s @ [m]" "Sentinel io_EOF"]
  obtain c' ms' st' where "publishAll logWrite demoClient ?ms = (c', ms')" "list_all2 asSent ?ms ms'"
      "serve logWrite (\<lambda>h m s. s @ [m]) \<lparr>rBytes = concat (Transport c'), rEnd = Sentinel io_EOF\<rparr> ?st = (st', Fail (Sentinel io_EOF))"
      "hstate st' = fold (\<lambda>m s. s @ [m]) (map publishNorm (filter (\<lambda>m. mQoS m \<noteq> QoS2) ms')) []"
    by auto
  moreover from this obtain m0 m1 where "ms' = [m0, m1]" "asSent (demoMessage 0) m0" "asSent (demoMessage 1) m1"
    by (auto simp: list_all2_Cons1)
  moreover from this have "mQoS m0 = QoS0" "mQoS m1 = QoS1" "mPayload m0 = [1, 2]" "mPayload m1 = [1, 2]"
    by (auto simp: QoS_defs dest: asSent_same)
  ultimately show ?thesis
    by (intro exI [of _ c'] exI [of _ m0] exI [of _ m1] exI [of _ st']) (simp add: QoS_distinct publishNorm_def)
qed

text \<open>C5: a QoS 2 message gets from one client to the handler of another exactly once, packet by packet over
  the wire. The publisher sends PUBLISH and waits; the receiver stores the message and sends PUBREC, without
  calling its handler; the publisher reads that and sends PUBREL; the receiver calls its handler once with
  the message, forgets it and sends PUBCOMP; the publisher reads that and \<open>Publish\<close> returns nil.\<close>

theorem qos2_between_clients:
  assumes "accepts_all pWrite plog" "publishable m" "mQoS m = QoS2" "mID m \<noteq> 0" "sig (scli p) = Some s"
    and "accepts_all tWrite tlog" "sig (scli st) \<noteq> None" "bHandler (scli st) = Some h"
  shows "\<exists>m' pub rec rel comp c1 w1 st1 p1 c2 w2 st2 p2 c3. m' = m\<lparr>mDup := False\<rparr>
     \<and> publishImpl pWrite (scli p) m False = (c1, m', Waiting w1) \<and> plog (Transport c1) = plog (Transport (scli p)) @ [pub]
     \<and> serveOne tWrite hServe pub st = (st1, Ret ()) \<and> hstate st1 = hstate st
     \<and> tlog (Transport (scli st1)) = tlog (Transport (scli st)) @ [rec]
     \<and> serveOne pWrite pServe rec (p\<lparr>scli := c1\<rparr>) = (p1, Ret ())
     \<and> resume pWrite pClose now (scli p1) w1 SelRecv = Some (c2, Waiting w2)
     \<and> plog (Transport c2) = plog (Transport c1) @ [rel]
     \<and> serveOne tWrite hServe rel st1 = (st2, Ret ()) \<and> hstate st2 = hServe h m' (hstate st)
     \<and> subBuffer st2 (mID m) = None \<and> tlog (Transport (scli st2)) = tlog (Transport (scli st1)) @ [comp]
     \<and> serveOne pWrite pServe comp (p1\<lparr>scli := c2\<rparr>) = (p2, Ret ())
     \<and> resume pWrite pClose now (scli p2) w2 SelRecv = Some (c3, Finished (Ret RNone))"
proof -
  let ?m = "m\<lparr>mDup := False\<rparr>"
  have m: "publishable ?m" "mQoS ?m = QoS2" using assms(2,3) by (simp_all add: publishable_def)
  obtain c1 n pub where 1: "publishImpl pWrite (scli p) m False = (c1, ?m, Waiting (WPubRec ?m n))"
      "pktPublish_Pack ?m = Ret pub" "plog (Transport c1) = plog (Transport (scli p)) @ [pub]"
      "clientSlot c1 (SPubRec (mID m)) = Some n" "chans c1 n = []"
    using qos2_publish [OF assms(1-5)] by blast
  obtain st1 rec where 2: "serveOne tWrite hServe pub st = (st1, Ret ())" "pktPubRec_Pack (mID m) = Ret rec"
      "tlog (Transport (scli st1)) = tlog (Transport (scli st)) @ [rec]" "hstate st1 = hstate st"
      "subBuffer st1 = (subBuffer st)(mID m \<mapsto> ?m)" "sig (scli st1) \<noteq> None" "bHandler (scli st1) = Some h"
    using receive_publish2 [OF assms(6) m 1(2) assms(7,8), of hServe] by auto
  obtain flag contents where rec: "pktPubRec_Parse flag contents = Ret (mID ?m)"
      "serveOne pWrite pServe rec (p\<lparr>scli := c1\<rparr>) = servePacket pWrite pServe packetPubRec flag contents (p\<lparr>scli := c1\<rparr>)"
    using serveOne_reads [OF pubRec.transmit [OF TrueI] 2(2), of pWrite pServe "p\<lparr>scli := c1\<rparr>"] by auto
  obtain p1 c2 k rel where 3: "serveOne pWrite pServe rec (p\<lparr>scli := c1\<rparr>) = (p1, Ret ())"
      "resume pWrite pClose now (scli p1) (WPubRec ?m n) SelRecv = Some (c2, Waiting (WPubComp ?m k))"
      "pktPubRel_Pack (mID m) = Ret rel" "plog (Transport c2) = plog (Transport c1) @ [rel]"
      "clientSlot c2 (SPubComp (mID m)) = Some k" "chans c2 k = []"
    using qos2_pubrec [OF assms(1) rec(1), of "p\<lparr>scli := c1\<rparr>" n pServe pClose now] 1(4,5) rec(2) by auto
  obtain st2 comp where 4: "serveOne tWrite hServe rel st1 = (st2, Ret ())" "pktPubComp_Pack (mID m) = Ret comp"
      "tlog (Transport (scli st2)) = tlog (Transport (scli st1)) @ [comp]" "hstate st2 = hServe h ?m (hstate st)"
      "subBuffer st2 (mID m) = None"
    using receive_pubrel [OF assms(6), of ?m rel st1 h hServe] 2(4-7) 3(3) by auto
  obtain flag' contents' where comp: "pktPubComp_Parse flag' contents' = Ret (mID ?m)"
      "serveOne pWrite pServe comp (p1\<lparr>scli := c2\<rparr>) = servePacket pWrite pServe packetPubComp flag' contents' (p1\<lparr>scli := c2\<rparr>)"
    using serveOne_reads [OF pubComp.transmit [OF TrueI] 4(2), of pWrite pServe "p1\<lparr>scli := c2\<rparr>"] by auto
  obtain p2 c3 where "serveOne pWrite pServe comp (p1\<lparr>scli := c2\<rparr>) = (p2, Ret ())"
      "resume pWrite pClose now (scli p2) (WPubComp ?m k) SelRecv = Some (c3, Finished (Ret RNone))"
    using qos2_pubcomp [OF comp(1), of "p1\<lparr>scli := c2\<rparr>" k pWrite pServe pClose now] 3(5,6) comp(2) by auto
  with 1(1,3) 2(1,3,4) 3(1,2,4) 4(1,3-5) show ?thesis
    by - (rule exI [of _ ?m], rule exI [of _ pub], rule exI [of _ rec], rule exI [of _ rel], rule exI [of _
        comp], rule exI [of _ c1], rule exI [of _ "WPubRec ?m n"], rule exI [of _ st1], rule exI [of _ p1],
        rule exI [of _ c2], rule exI [of _ "WPubComp ?m k"], rule exI [of _ st2], rule exI [of _ p2], rule exI
        [of _ c3], simp)
qed

theorem qos2_between_clients_witness:
  "\<exists>pub rel st1 st2 c2 w2 c3.
     serveOne logWrite (\<lambda>h m s. s @ [m]) pub \<lparr>scli = demoClient, subBuffer = Map.empty, hstate = []\<rparr> = (st1, Ret ())
     \<and> hstate st1 = []
     \<and> serveOne logWrite (\<lambda>h m s. s @ [m]) rel st1 = (st2, Ret ())
     \<and> hstate st2 = [demoMessage 2]
     \<and> resume logWrite (\<lambda>t. (t, None)) 0 c2 w2 SelRecv
         = Some (c3 :: (byte list list, unit) BaseClient, Finished (Ret RNone))"
proof -
  let ?st = "\<lparr>scli = demoClient, subBuffer = Map.empty, hstate = []\<rparr>"
  have pub: "publishable (demoMessage 2)" by (rule demo_publishable) simp
  have m: "mQoS (demoMessage 2) = QoS2" "mID (demoMessage 2) \<noteq> 0" by (simp_all add: QoS_defs)
  have st: "sig (scli ?st) = Some newSignaller" "sig (scli ?st) \<noteq> None" "bHandler (scli ?st) = Some ()" by simp_all
  from qos2_between_clients [OF demo_accepts pub m st(1) demo_accepts st(2,3),
      of "\<lambda>h m s. s @ [m]" "\<lambda>h m s. s @ [m]" "\<lambda>t. (t, None)" 0]
  show ?thesis by (elim exE conjE) (intro exI conjI, assumption, simp, assumption, simp, assumption)
qed

end
