(* ===== verification/Mock.thy ===== *)
theory Mock
  imports KeepAlive
begin

text \<open>
  \<open>mock/mqtt.go\<close>: the mock of the interface \<open>Client\<close> for the tests of applications.

  The functions of the mock are code of the test: they act on a state of type \<open>'s\<close>, can panic or never
  return, and return a value with an error where the interface does. The handler is called through
  \<open>hServe\<close>, as in the serve loop.
\<close>

record ('h, 's) mockClient =
  ConnectFn :: "(ctx \<Rightarrow> gostring \<Rightarrow> ConnectOption list \<Rightarrow> 's \<Rightarrow> 's \<times> (bool \<times> goerror option) result) option"
  DisconnectFn :: "(ctx \<Rightarrow> 's \<Rightarrow> 's \<times> unit result) option"
  PublishFn :: "(ctx \<Rightarrow> Message \<Rightarrow> 's \<Rightarrow> 's \<times> unit result) option"
  SubscribeFn :: "(ctx \<Rightarrow> Subscription list \<Rightarrow> 's \<Rightarrow> 's \<times> (Subscription list \<times> goerror option) result) option"
  UnsubscribeFn :: "(ctx \<Rightarrow> gostring list \<Rightarrow> 's \<Rightarrow> 's \<times> unit result) option"
  PingFn :: "(ctx \<Rightarrow> 's \<Rightarrow> 's \<times> unit result) option"
  mockHandler :: "'h option"

definition zeroMock :: "('h, 's) mockClient" where
  "zeroMock = \<lparr>ConnectFn = None, DisconnectFn = None, PublishFn = None, SubscribeFn = None, UnsubscribeFn = None,
     PingFn = None, mockHandler = None\<rparr>"

definition mock_Connect ::
  "('h, 's) mockClient \<Rightarrow> ctx \<Rightarrow> gostring \<Rightarrow> ConnectOption list \<Rightarrow> 's \<Rightarrow> 's \<times> (bool \<times> goerror option) result" where
  "mock_Connect c cx clientID opts s =
     (case ConnectFn c of None \<Rightarrow> (s, Ret (False, None)) | Some f \<Rightarrow> f cx clientID opts s)"

definition mock_Disconnect :: "('h, 's) mockClient \<Rightarrow> ctx \<Rightarrow> 's \<Rightarrow> 's \<times> unit result" where
  "mock_Disconnect c cx s = (case DisconnectFn c of None \<Rightarrow> (s, Ret ()) | Some f \<Rightarrow> f cx s)"

definition mock_Publish :: "('h, 's) mockClient \<Rightarrow> ctx \<Rightarrow> Message \<Rightarrow> 's \<Rightarrow> 's \<times> unit result" where
  "mock_Publish c cx message s = (case PublishFn c of None \<Rightarrow> (s, Ret ()) | Some f \<Rightarrow> f cx message s)"

definition mock_Subscribe ::
  "('h, 's) mockClient \<Rightarrow> ctx \<Rightarrow> Subscription list \<Rightarrow> 's \<Rightarrow> 's \<times> (Subscription list \<times> goerror option) result" where
  "mock_Subscribe c cx subs s = (case SubscribeFn c of None \<Rightarrow> (s, Ret ([], None)) | Some f \<Rightarrow> f cx subs s)"

definition mock_Unsubscribe :: "('h, 's) mockClient \<Rightarrow> ctx \<Rightarrow> gostring list \<Rightarrow> 's \<Rightarrow> 's \<times> unit result" where
  "mock_Unsubscribe c cx subs s = (case UnsubscribeFn c of None \<Rightarrow> (s, Ret ()) | Some f \<Rightarrow> f cx subs s)"

definition mock_Ping :: "('h, 's) mockClient \<Rightarrow> ctx \<Rightarrow> 's \<Rightarrow> 's \<times> unit result" where
  "mock_Ping c cx s = (case PingFn c of None \<Rightarrow> (s, Ret ()) | Some f \<Rightarrow> f cx s)"

definition mock_Handle :: "('h, 's) mockClient \<Rightarrow> 'h option \<Rightarrow> ('h, 's) mockClient" where
  "mock_Handle c h = c\<lparr>mockHandler := h\<rparr>"

text \<open>Unlike the serve loop, \<open>Serve\<close> does not check that there is a handler.\<close>

definition mock_Serve :: "('h \<Rightarrow> Message \<Rightarrow> 's \<Rightarrow> 's) \<Rightarrow> ('h, 's) mockClient \<Rightarrow> Message \<Rightarrow> 's \<Rightarrow> 's \<times> unit result" where
  "mock_Serve hServe c message s =
     (case mockHandler c of
        None \<Rightarrow> (s, Panic ''invalid memory address or nil pointer dereference'')
      | Some h \<Rightarrow> (hServe h message s, Ret ()))"

subsection \<open>The mock under KeepAlive\<close>

text \<open>A \<open>Ping\<close> that returns only an error, as the argument of \<open>KeepAlive\<close>.\<close>

definition asPing :: "(ctx \<Rightarrow> 's \<Rightarrow> 's \<times> unit result) \<Rightarrow> 's ping" where
  "asPing f cx s = (case f cx s of (s', r) \<Rightarrow> (s', bindO r (\<lambda>_. Ret RNone)))"

lemma keepAliveLoop_answered:
  "(\<And>cx c. ping cx c = (c, Ret RNone)) \<Longrightarrow> keepAliveLoop ping ts c = (c, Ret None)"
  by (induction ts) simp_all

text \<open>\<open>KeepAlive\<close> on a mock runs the test's ping function; on a mock without one it never returns,
  however long it runs.\<close>

theorem keepalive_on_mock:
  assumes "0 < sint interval"
  shows "KeepAlive_run (asPing (mock_Ping c)) interval ticks s =
    (case PingFn c of None \<Rightarrow> (s, Ret None) | Some f \<Rightarrow> KeepAlive_run (asPing f) interval ticks s)"
proof (cases "PingFn c")
  case None
  then show ?thesis
    using assms by (simp add: KeepAlive_run_def keepAliveLoop_answered asPing_def mock_Ping_def)
next
  case (Some f)
  then have "mock_Ping c = f" by (simp add: mock_Ping_def fun_eq_iff)
  with Some show ?thesis by simp
qed

theorem keepalive_on_mock_witness:
  "KeepAlive_run (asPing (mock_Ping (zeroMock :: (unit, nat) mockClient))) 1000
     [\<lparr>pingCtx = None, parentErr = None, pingCtxDone = False\<rparr>] 3 = (3, Ret None)"
  using keepalive_on_mock [of 1000 "zeroMock :: (unit, nat) mockClient"] by (simp add: zeroMock_def)

subsection \<open>The mock under a multiplexer\<close>

text \<open>A \<open>ServeMux\<close> as the handler of a mock: a message that the test serves reaches exactly the functions
  whose filter is valid and matches, in the order of registration.\<close>

definition muxServe :: "'s HandlerFunc ServeMux \<Rightarrow> Message \<Rightarrow> 's \<Rightarrow> 's" where
  "muxServe m message s = fold (\<lambda>(h, msg). HandlerFunc_Serve h msg) (ServeMux_Serve m message) s"

theorem mock_serves_mux:
  "mock_Serve muxServe (mock_Handle c (Some (registerAll regs emptyMux))) msg s =
     (fold (\<lambda>h. HandlerFunc_Serve h msg)
        [h. (flt, h) \<leftarrow> regs, flt \<noteq> [], valid_levels (splitSlash flt),
            levels_match (splitSlash flt) (splitSlash (mTopic msg))] s, Ret ())"
proof -
  have "ServeMux_Serve (registerAll regs emptyMux) msg
      = map (\<lambda>h. (h, msg)) [h. (flt, h) \<leftarrow> regs, flt \<noteq> [], valid_levels (splitSlash flt),
            levels_match (splitSlash flt) (splitSlash (mTopic msg))]"
    unfolding registerAll_Serve
    by (induction regs) (auto simp: ServeMux_Serve_def emptyMux_def)
  moreover have "fold (\<lambda>(h, msg). HandlerFunc_Serve h msg) (map (\<lambda>h. (h, msg)) hs) s
      = fold (\<lambda>h. HandlerFunc_Serve h msg) hs s" for hs s
    by (induction hs arbitrary: s) simp_all
  ultimately show ?thesis by (simp add: mock_Serve_def mock_Handle_def muxServe_def)
qed

end
