(* ===== verification/Spec2Isabelle.thy ===== *)
theory Spec2Isabelle
  imports Paho PipeStream Dialer EndToEnd Mock
begin

text \<open>
  A verification development for mqtt-go, an MQTT 3.1.1 client library in Go.

  \<^bold>\<open>The program.\<close> A \<open>BaseClient\<close> (\<open>client.go\<close>, \<open>conn.go\<close>) owns one transport. Requests (\<open>publish.go\<close>,
  \<open>subscribe.go\<close>, \<open>unsubscribe.go\<close>, \<open>pingreq.go\<close>, \<open>disconnect.go\<close>, \<open>connect.go\<close>) register a channel with the
  signaller, write a packet and block in a \<open>select\<close>; the serve goroutine (\<open>serve.go\<close>) reads packets, answers
  them, calls the message handler and sends acknowledgements to the channels of the requests. A
  \<open>RetryClient\<close> (\<open>retryclient.go\<close>) queues requests as tasks of one goroutine and keeps the requests that
  failed for a retry; a \<open>ReconnectClient\<close> (\<open>reconnclient.go\<close>) dials (\<open>dialer.go\<close>), connects, keeps the
  connection alive (\<open>keepalive.go\<close>), and replaces a lost connection. The directory \<open>paho\<close> wraps a client in the
  interface of another library, \<open>internal/filteredpipe\<close> has the in-memory transports of the tests and \<open>mock\<close> a
  client for the tests of applications.

  \<^bold>\<open>Conventions.\<close> The result of a Go call is an \<open>outcome\<close>: \<open>Ret\<close>, \<open>Fail\<close> with a non-nil error, \<open>Panic\<close>, or \<open>Hang\<close>
  for a call that does not return. A struct is a record, an enumeration a datatype, \<open>uint8\<close>, \<open>uint16\<close>, \<open>uint32\<close>
  and durations are words of their width; strings and byte slices are byte lists. A closure that the code
  stores is represented by what it captures (\<open>retryFn\<close>, \<open>queued\<close>, \<open>task\<close>). Code of the user and of other
  packages (the transport, message handlers, the dialer, the timers, \<open>net\<close>, \<open>crypto/tls\<close>, the websocket
  package) is an argument of the definitions that call it.

  \<^bold>\<open>Theories, from the bottom up.\<close>
  \<^item> \<open>Prelude\<close>, \<open>Types\<close>, \<open>Errors\<close>: outcomes, slices with bounds checks, number formatting; the data types of
    \<open>mqtt.go\<close> and \<open>message.go\<close>; wrapping, retry errors and \<open>Is\<close> of \<open>error.go\<close>, \<open>firstError\<close> of \<open>atomic.go\<close>.
  \<^item> \<open>Utf8\<close>, \<open>Packet\<close>, \<open>Wire\<close>, \<open>ControlPackets\<close>: decoding of runes, strings and lengths (\<open>packet.go\<close>), reading a
    packet from a stream (\<open>readPacket\<close>), \<open>Parse\<close> and \<open>Pack\<close> of every control packet. Shown: round trips, agreement
    with decoders written from the specification (with its rules for the flags of CONNECT), totality,
    truncation and the limits of the length field.
  \<^item> \<open>TopicFilter\<close>, \<open>ServeMux\<close>, \<open>ServeAsync\<close>, \<open>Subscriptions\<close>, \<open>UniqId\<close>: \<open>filter.go\<close>, \<open>servemux.go\<close>,
    \<open>serveasync.go\<close>, \<open>subscriptions.go\<close>, \<open>uniqid.go\<close>. Shown: matching and validation against the relation of
    MQTT section 4.7.1, dispatch, removal of subscriptions, uniqueness of identifiers.
  \<^item> \<open>FilteredPipe\<close>, \<open>PipeStream\<close>: the two pipes. The locale \<open>io_writer\<close> is the contract of a transport's \<open>Write\<close>,
    which the client relies on and both pipes satisfy; an open pipe is a byte stream.
  \<^item> \<open>Client\<close>, \<open>Requests\<close>, \<open>Serve\<close>: the state of a base client, its write loop and signaller; each request up to
    its \<open>select\<close> and each case of the \<open>select\<close> (\<open>resume\<close>); one packet of the serve loop (\<open>servePacket\<close>), the loop
    over a stream (\<open>serve\<close>) and the end of its goroutine. Shown: QoS 2 messages are delivered exactly once in
    any stream of packets that a broker may send; the loop against the receiver of MQTT section 4.3, with the
    one disagreement (\<open>heard\<close>: a PUBREL whose message is not stored gets no answer); retransmissions keep
    identifier and content and set the DUP flag.
  \<^item> \<open>System\<close>: requests of any number of goroutines interleaved with packets and the end of the serve loop, as
    the step relation \<open>sysStep\<close> with an invariant over its reachable states; any request may start at any time,
    also \<open>Connect\<close>, and each serve loop has its own store. Shown: an acknowledgement reaches
    the request it belongs to and no other, and none that a request waits for is lost.
  \<^item> \<open>EndToEnd\<close>: a publishing and a receiving client joined by the bytes that they write. Shown: published messages
    reach the handler in order and unchanged, and the QoS 2 handshake of the two completes and delivers once.
  \<^item> \<open>Runner\<close>: a blocking method call on a base client, run under a schedule of what happens while the caller
    is blocked. The locale \<open>base_client\<close> is what the clients above rely on; \<open>baseCall\<close> satisfies it.
    \<open>ackEvents\<close> is the schedule of a broker that acknowledges a retried publish.
  \<^item> \<open>RetryClient\<close>, \<open>RetryTasks\<close>: the methods, the retry queue and the task goroutine (\<open>taskStep\<close>, which takes a
    task in one step and runs it in the next), and the step relation \<open>rcStep\<close> of both. \<open>rcRun\<close> adds to a run
    the tasks that were accepted and those that ran. Shown: tasks run in the order of their acceptance, what
    becomes of a published message and of queued retries on the program's own base client, the end of the
    goroutine, and the behaviour around \<open>SetClient\<close> and a failed \<open>Connect\<close>.
  \<^item> \<open>KeepAlive\<close>, \<open>ReconnectClient\<close>: the ping loop; options, \<open>Connect\<close>, the reconnect goroutine (\<open>loopStep\<close>),
    keep-alive goroutines and \<open>Disconnect\<close>. The locale \<open>base_conn\<close> extends \<open>base_client\<close>. Shown: a lost connection is
    replaced and its subscriptions and retries are queued again, when the loop ends, and the wait after any
    number of waits since the last connection (\<open>reconnRun\<close>).
  \<^item> \<open>Dialer\<close>, \<open>Paho\<close>, \<open>Mock\<close>: the choice of address and transport layers; the wrapper with its tokens and routes;
    the mock client, under \<open>KeepAlive\<close> and with a multiplexer as its handler.

  \<^bold>\<open>Bounds and loops.\<close> No definition takes fuel. The write loop of \<open>client.go\<close> may not end and is a partial
  function whose missing value is \<open>Hang\<close>; its ending and not ending are both proved. The serve loop and the
  loop of \<open>Error.Is\<close> end by a measure. Goroutines that run for ever are step functions; statements about them
  are about reachable states or name the steps that lead to a result. \<open>drive\<close>, \<open>keepAliveLoop\<close>, \<open>loopRun\<close> and
  \<open>connectOnce\<close> run over a finite list of events or inputs, which stands for what happens until then. The
  capacity of channels (one, and 1000 in the pipes) is that of the code.

  Go's \<open>make\<close> panics above the largest allocation, which is that of the 64-bit architectures (\<open>maxAlloc\<close>).

  \<^bold>\<open>Not modelled.\<close> Locks: a method of the retry and reconnect clients is one step, so the interleavings inside
  one method and data races are not covered; requests of a base client are split where they block. Methods
  that are called while a task runs are steps between its start and its end; the lemmas \<open>runTask_under\<close> and
  \<open>runTask_tasks\<close> show that it does not matter where in the task they fall. The text
  of errors with file and line. Real time: timers and tickers are inputs. Aliasing of a message that the
  caller changes after \<open>Publish\<close>. One call of \<open>Connect\<close> per reconnect client. The two example programs,
  which call the library, a cloud SDK and the operating system and have no logic of their own.
\<close>

end
